(* ===== verification/Prelude.thy ===== *)
theory Prelude
  imports Main "HOL-Library.Word" "HOL-Library.Signed_Division"
begin

text \<open>
  Shared vocabulary of the development: the machine types of the C++ code, the
  exception monad in which the stateful operations are written, and the generic
  lemmas on lists and words that the component theories use.

  A C++ member function that mutates its object and may throw is a function from the
  state to a pair: the outcome (\<open>Inl\<close> an exception, \<open>Inr\<close> the returned value) and the
  state afterwards. The state is there in both cases, because a throw does not undo
  the writes made before it.
\<close>

section \<open>Machine types\<close>

type_synonym byte = "8 word"
type_synonym bytes = "byte list"
type_synonym u32 = "32 word"
type_synonym u64 = "64 word"

text \<open>Addresses (\<open>h160\<close>) and hashes (\<open>h256\<close>) are compared as big-endian numbers; the theory
  \<open>FixedHash\<close> relates them to the byte arrays the class stores.\<close>

type_synonym address = "160 word"
type_synonym h256 = "256 word"

section \<open>Exceptions\<close>

text \<open>
  The exception types of \<open>core/Exceptions.h\<close> that the modelled code throws, with the two
  hierarchies its handlers distinguish: \<open>core::Exception\<close> (the codec) and \<open>core::GSException\<close>
  (the chain). A handler that rethrows its by-value or by-reference \<open>Exception\<close> parameter throws an
  object of the base class, here \<open>CoreException\<close>. \<open>RangeError\<close> is \<open>std::range_error\<close>; \<open>UndefinedBehaviour\<close> marks a
  read outside a container, where the C++ program has no defined continuation; \<open>ExitProcess\<close> is a call of
  \<open>exit\<close> and \<open>NoReturn\<close> a call that never returns. No handler catches these three.
\<close>

datatype exn =
    CoreException | RLPException | BadCast | BadRLP | OversizeRLP | UndersizeRLP | BadHexCharacter
  | RangeError
  | GSException | DeserializeException | AttributeStateException | RepositoryException | BlockChainException
  | RollbackStateException | RollbackStateAncestorException | InvalidProducerException
  | InvalidTransactionException
  | UndefinedBehaviour | ExitProcess | NoReturn

definition is_Exception :: "exn \<Rightarrow> bool" where
  "is_Exception e \<longleftrightarrow> e \<in> {CoreException, RLPException, BadCast, BadRLP, OversizeRLP, UndersizeRLP, BadHexCharacter}"

definition is_GSException :: "exn \<Rightarrow> bool" where
  "is_GSException e \<longleftrightarrow> e \<in> {GSException, DeserializeException, AttributeStateException,
     RepositoryException, BlockChainException, RollbackStateException, RollbackStateAncestorException,
     InvalidProducerException, InvalidTransactionException}"

text \<open>Code that throws but changes no state is a value of the sum type.\<close>

definition bindE :: "'e + 'a \<Rightarrow> ('a \<Rightarrow> 'e + 'b) \<Rightarrow> 'e + 'b" where
  "bindE m f = (case m of Inl e \<Rightarrow> Inl e | Inr a \<Rightarrow> f a)"

lemma bindE_simps [simp]: "bindE (Inl e) f = Inl e" "bindE (Inr a) f = f a"
  by (simp_all add: bindE_def)

lemma bindE_Inr_iff: "bindE m f = Inr b \<longleftrightarrow> (\<exists>a. m = Inr a \<and> f a = Inr b)"
  by (cases m) auto

definition catchE :: "'e + 'a \<Rightarrow> ('e \<Rightarrow> 'e + 'a) \<Rightarrow> 'e + 'a" where
  "catchE m h = (case m of Inl e \<Rightarrow> h e | Inr a \<Rightarrow> Inr a)"

lemma catchE_simps [simp]: "catchE (Inl e) h = h e" "catchE (Inr a) h = Inr a"
  by (simp_all add: catchE_def)

text \<open>\<open>catch (Exception e) { throw e; }\<close>\<close>

definition rethrow_Exception :: "exn + 'a \<Rightarrow> exn + 'a" where
  "rethrow_Exception m = catchE m (\<lambda>e. Inl (if is_Exception e then CoreException else e))"

lemma rethrow_Exception_Inr [simp]: "rethrow_Exception (Inr a) = Inr a"
  by (simp add: rethrow_Exception_def)

fun mapE :: "('a \<Rightarrow> 'e + 'b) \<Rightarrow> 'a list \<Rightarrow> 'e + 'b list" where
  "mapE f [] = Inr []"
| "mapE f (x # xs) = bindE (f x) (\<lambda>y. bindE (mapE f xs) (\<lambda>ys. Inr (y # ys)))"

lemma mapE_Inr: "(\<And>x. x \<in> set xs \<Longrightarrow> f x = Inr (g x)) \<Longrightarrow> mapE f xs = Inr (map g xs)"
  by (induction xs) auto

lemma mapE_map_Inr: "(\<And>x. x \<in> set xs \<Longrightarrow> f (g x) = Inr x) \<Longrightarrow> mapE f (map g xs) = Inr xs"
  by (induction xs) auto

section \<open>State with exceptions\<close>

type_synonym ('s, 'e, 'a) exec = "'s \<Rightarrow> ('e + 'a) \<times> 's"

definition returnX :: "'a \<Rightarrow> ('s, 'e, 'a) exec" where
  "returnX a = (\<lambda>s. (Inr a, s))"

definition throwX :: "'e \<Rightarrow> ('s, 'e, 'a) exec" where
  "throwX e = (\<lambda>s. (Inl e, s))"

definition bindX :: "('s, 'e, 'a) exec \<Rightarrow> ('a \<Rightarrow> ('s, 'e, 'b) exec) \<Rightarrow> ('s, 'e, 'b) exec" where
  "bindX m f = (\<lambda>s. case m s of (Inl e, s') \<Rightarrow> (Inl e, s') | (Inr a, s') \<Rightarrow> f a s')"

definition thenX :: "('s, 'e, 'a) exec \<Rightarrow> ('s, 'e, 'b) exec \<Rightarrow> ('s, 'e, 'b) exec" where
  "thenX m k = bindX m (\<lambda>_. k)"

definition modifyX :: "('s \<Rightarrow> 's) \<Rightarrow> ('s, 'e, unit) exec" where
  "modifyX f = (\<lambda>s. (Inr (), f s))"

fun forX :: "'a list \<Rightarrow> ('a \<Rightarrow> ('s, 'e, unit) exec) \<Rightarrow> ('s, 'e, unit) exec" where
  "forX [] f = returnX ()"
| "forX (x # xs) f = thenX (f x) (forX xs f)"

named_theorems exec_simps \<open>unfolding rules of the exception monad\<close>

lemma returnX_run [exec_simps, simp]: "returnX a s = (Inr a, s)"
  by (simp add: returnX_def)

lemma throwX_run [exec_simps, simp]: "throwX e s = (Inl e, s)"
  by (simp add: throwX_def)

lemma modifyX_run [exec_simps, simp]: "modifyX f s = (Inr (), f s)"
  by (simp add: modifyX_def)

lemma bindX_run [exec_simps]:
  "bindX m f s = (case m s of (Inl e, s') \<Rightarrow> (Inl e, s') | (Inr a, s') \<Rightarrow> f a s')"
  by (simp add: bindX_def)

lemma thenX_run [exec_simps]:
  "thenX m k s = (case m s of (Inl e, s') \<Rightarrow> (Inl e, s') | (Inr a, s') \<Rightarrow> k s')"
  by (simp add: thenX_def bindX_def)

lemma bindX_Inl [simp]: "m s = (Inl e, s') \<Longrightarrow> bindX m f s = (Inl e, s')"
  by (simp add: bindX_run)

lemma bindX_Inr [simp]: "m s = (Inr a, s') \<Longrightarrow> bindX m f s = f a s'"
  by (simp add: bindX_run)

lemma thenX_Inl [simp]: "m s = (Inl e, s') \<Longrightarrow> thenX m k s = (Inl e, s')"
  by (simp add: thenX_run)

lemma thenX_Inr [simp]: "m s = (Inr a, s') \<Longrightarrow> thenX m k s = k s'"
  by (simp add: thenX_run)

lemma returnX_bindX [simp]: "bindX (returnX a) f = f a"
  by (simp add: bindX_def returnX_def fun_eq_iff)

lemma throwX_bindX [simp]: "bindX (throwX e) f = throwX e"
  by (simp add: bindX_def throwX_def fun_eq_iff)

lemma bindX_assoc: "bindX (bindX m f) g = bindX m (\<lambda>x. bindX (f x) g)"
  by (auto simp: bindX_def fun_eq_iff split: prod.splits sum.splits)

section \<open>Invariants that survive exceptions\<close>

definition preserves :: "('s \<Rightarrow> bool) \<Rightarrow> ('s, 'e, 'a) exec \<Rightarrow> bool" where
  "preserves P m \<longleftrightarrow> (\<forall>s. P s \<longrightarrow> P (snd (m s)))"

named_theorems preserves_intros \<open>preservation rules of the exception monad\<close>

lemma preservesI: "(\<And>s. P s \<Longrightarrow> P (snd (m s))) \<Longrightarrow> preserves P m"
  by (simp add: preserves_def)

lemma preservesD: "preserves P m \<Longrightarrow> P s \<Longrightarrow> m s = (r, s') \<Longrightarrow> P s'"
  by (metis preserves_def snd_conv)

lemma preserves_returnX [preserves_intros]: "preserves P (returnX a)"
  by (simp add: preserves_def)

lemma preserves_throwX [preserves_intros]: "preserves P (throwX e)"
  by (simp add: preserves_def)

lemma preserves_modifyX: "(\<And>s. P s \<Longrightarrow> P (f s)) \<Longrightarrow> preserves P (modifyX f)"
  by (simp add: preserves_def)

lemma preserves_bindX [preserves_intros]:
  assumes "preserves P m" and "\<And>x. preserves P (f x)"
  shows "preserves P (bindX m f)"
proof (rule preservesI)
  fix s
  assume "P s"
  obtain r t where ms: "m s = (r, t)" by (cases "m s")
  have "P t" using preservesD [OF assms(1) \<open>P s\<close> ms] .
  then show "P (snd (bindX m f s))"
    using ms assms(2) by (cases r) (simp_all add: preserves_def)
qed

lemma preserves_thenX [preserves_intros]:
  "preserves P m \<Longrightarrow> preserves P k \<Longrightarrow> preserves P (thenX m k)"
  by (simp add: thenX_def preserves_bindX)

lemma preserves_forX [preserves_intros]:
  "(\<And>x. x \<in> set xs \<Longrightarrow> preserves P (f x)) \<Longrightarrow> preserves P (forX xs f)"
  by (induction xs) (auto intro!: preserves_intros)

lemma preserves_if [preserves_intros]:
  "(b \<Longrightarrow> preserves P m) \<Longrightarrow> (\<not> b \<Longrightarrow> preserves P k) \<Longrightarrow> preserves P (if b then m else k)"
  by simp

section \<open>Simulation between two layers of state\<close>

text \<open>
  The contract between a detailed component and its abstract specification: an
  abstraction function on the states that satisfy an invariant. \<open>sim m m'\<close> says that
  running the detailed operation and then abstracting is the abstract operation, with
  the same outcome, and that the invariant is kept.
\<close>

locale simulation =
  fixes abs :: "'c \<Rightarrow> 'a" and inv :: "'c \<Rightarrow> bool"
begin

definition sim :: "('c, 'e, 'r) exec \<Rightarrow> ('a, 'e, 'r) exec \<Rightarrow> bool" where
  "sim m m' \<longleftrightarrow> (\<forall>s. inv s \<longrightarrow> m' (abs s) = (fst (m s), abs (snd (m s))) \<and> inv (snd (m s)))"

lemma simI:
  "(\<And>s. inv s \<Longrightarrow> m' (abs s) = (fst (m s), abs (snd (m s)))) \<Longrightarrow>
   (\<And>s. inv s \<Longrightarrow> inv (snd (m s))) \<Longrightarrow> sim m m'"
  by (simp add: sim_def)

lemma simD: "sim m m' \<Longrightarrow> inv s \<Longrightarrow> m s = (r, s') \<Longrightarrow> m' (abs s) = (r, abs s') \<and> inv s'"
  by (metis sim_def fst_conv snd_conv)

lemma sim_preserves: "sim m m' \<Longrightarrow> preserves inv m"
  by (simp add: sim_def preserves_def)

lemma sim_returnX: "sim (returnX a) (returnX a)"
  by (simp add: sim_def)

lemma sim_throwX: "sim (throwX e) (throwX e)"
  by (simp add: sim_def)

lemma sim_bindX:
  assumes m: "sim m m'" and f: "\<And>x. sim (f x) (f' x)"
  shows "sim (bindX m f) (bindX m' f')"
proof (rule simI)
  fix s
  assume "inv s"
  obtain r t where ms: "m s = (r, t)" by (cases "m s")
  have m't: "m' (abs s) = (r, abs t)" "inv t"
    using simD [OF m \<open>inv s\<close> ms] by auto
  show "bindX m' f' (abs s) = (fst (bindX m f s), abs (snd (bindX m f s)))"
  proof (cases r)
    case (Inr a)
    then show ?thesis using ms m't f [of a] by (simp add: sim_def)
  qed (use ms m't in simp)
next
  fix s
  assume "inv s"
  then show "inv (snd (bindX m f s))"
    using preserves_bindX [of inv m f] sim_preserves [OF m] sim_preserves [OF f]
    by (simp add: preserves_def)
qed

text \<open>The continuation may rely on what the first operation guarantees of its result.\<close>

lemma sim_bindX_post:
  assumes m: "sim m m'" and q: "\<And>s x s'. inv s \<Longrightarrow> m s = (Inr x, s') \<Longrightarrow> Q x"
    and f: "\<And>x. Q x \<Longrightarrow> sim (f x) (f' x)"
  shows "sim (bindX m f) (bindX m' f')"
proof -
  have "inv (snd (bindX m f s)) \<and> bindX m' f' (abs s) = (fst (bindX m f s), abs (snd (bindX m f s)))"
    if "inv s" for s
  proof -
    obtain r t where ms: "m s = (r, t)" by (cases "m s")
    have m't: "m' (abs s) = (r, abs t)" "inv t" using simD [OF m that ms] by auto
    show ?thesis
    proof (cases r)
      case (Inr a)
      then have "sim (f a) (f' a)" using f q that ms by blast
      then show ?thesis using Inr ms m't by (simp add: sim_def)
    qed (use ms m't in simp)
  qed
  then show ?thesis by (simp add: sim_def)
qed

lemma sim_thenX: "sim m m' \<Longrightarrow> sim k k' \<Longrightarrow> sim (thenX m k) (thenX m' k')"
  by (simp add: thenX_def sim_bindX)

lemma sim_if:
  "(b \<Longrightarrow> sim m m') \<Longrightarrow> (\<not> b \<Longrightarrow> sim k k') \<Longrightarrow> sim (if b then m else k) (if b then m' else k')"
  by simp

lemma sim_forX: "(\<And>x. sim (f x) (f' x)) \<Longrightarrow> sim (forX xs f) (forX xs f')"
  by (induction xs) (auto intro: sim_returnX sim_thenX)

lemmas sim_rules = sim_returnX sim_throwX sim_bindX sim_thenX sim_if sim_forX

end

section \<open>Words\<close>

lemma unat_add_no_wrap:
  fixes x y :: "'a :: len word"
  assumes "\<not> x + y < y"
  shows "unat (x + y) = unat x + unat y"
  using assms by (metis add.commute linorder_not_less unat_plus_simple)

lemma unat_sub_le:
  fixes x y :: "'a :: len word"
  assumes "\<not> x < y"
  shows "unat (x - y) = unat x - unat y"
  using assms by (simp add: unat_sub)

lemma byte_bound [simp]: "unat (b :: byte) < 256"
  using unsigned_less [of b] by simp

end
