(* ===== verification/Bytes.thy ===== *)
theory Bytes
  imports Prelude "HOL-Library.Char_ord"
begin

unbundle bit_operations_syntax

text \<open>
  Byte-level helpers of \<open>core/CommonData\<close>: big-endian conversion, hexadecimal text,
  nibbles. Big-endian decoding is related to a plain positional value, and each encoder
  is shown to be inverted by its decoder.
\<close>

section \<open>Big-endian numbers\<close>

text \<open>\<open>fromBigEndian<T>\<close> at a machine type: shift left by eight, or in the byte, at T's width.\<close>

definition fromBigEndian :: "bytes \<Rightarrow> 'a :: len word" where
  "fromBigEndian bs = foldl (\<lambda>ret i. push_bit 8 ret OR ucast i) 0 bs"

text \<open>\<open>fromBigEndian<bigint>\<close>.\<close>

definition fromBigEndian_bigint :: "bytes \<Rightarrow> nat" where
  "fromBigEndian_bigint bs = foldl (\<lambda>ret i. push_bit 8 ret OR unat i) 0 bs"

text \<open>\<open>toBigEndian\<close> fills a collection of the given size from its end.\<close>

fun toBigEndian :: "nat \<Rightarrow> nat \<Rightarrow> bytes" where
  "toBigEndian 0 val = []"
| "toBigEndian (Suc n) val = toBigEndian n (drop_bit 8 val) @ [word_of_nat (val AND 0xff)]"

fun bytesRequired :: "nat \<Rightarrow> nat" where
  "bytesRequired i = (if i = 0 then 0 else Suc (bytesRequired (i div 256)))"

declare bytesRequired.simps [simp del]

definition toCompactBigEndian :: "nat \<Rightarrow> nat \<Rightarrow> bytes" where
  "toCompactBigEndian val mn = toBigEndian (max mn (bytesRequired val)) val"

subsection \<open>Positional value\<close>

fun be_val :: "bytes \<Rightarrow> nat" where
  "be_val [] = 0"
| "be_val (b # bs) = unat b * 256 ^ length bs + be_val bs"

lemma be_val_append: "be_val (xs @ ys) = be_val xs * 256 ^ length ys + be_val ys"
  by (induction xs) (auto simp: algebra_simps power_add)

lemma be_val_snoc [simp]: "be_val (xs @ [b]) = be_val xs * 256 + unat b"
  by (simp add: be_val_append)

lemma be_val_bound: "be_val bs < 256 ^ length bs"
proof (induction bs)
  case (Cons b bs)
  have "unat b * 256 ^ length bs \<le> 255 * 256 ^ length bs"
    using byte_bound [of b] by (intro mult_right_mono) linarith+
  then have "unat b * 256 ^ length bs + be_val bs < 255 * 256 ^ length bs + 256 ^ length bs"
    using Cons by (rule add_le_less_mono)
  then show ?case by simp
qed simp

lemma shift_or_byte_nat: "push_bit 8 n OR unat (b :: byte) = n * 256 + unat b"
proof -
  have "push_bit 8 n AND unat b = 0"
    by (rule bit_eqI)
      (auto simp: bit_and_iff bit_push_bit_iff bit_unsigned_iff dest: bit_imp_le_length)
  then have "push_bit 8 n OR unat b = push_bit 8 n + unat b"
    by (simp add: disjunctive_add_eq_or)
  then show ?thesis by (simp add: push_bit_eq_mult)
qed

lemma fromBigEndian_bigint_val: "fromBigEndian_bigint bs = be_val bs"
  unfolding fromBigEndian_bigint_def
  by (induction bs rule: rev_induct) (auto simp: shift_or_byte_nat)

lemma shift_or_byte_word:
  fixes r :: "'a :: len word"
  shows "push_bit 8 (word_of_nat n :: 'a word) OR ucast (b :: byte) = word_of_nat (n * 256 + unat b)"
proof -
  have "push_bit 8 (word_of_nat n :: 'a word) OR ucast b = word_of_nat (push_bit 8 n OR unat b)"
    by (simp add: of_nat_or_eq of_nat_push_bit)
  then show ?thesis by (simp only: shift_or_byte_nat)
qed

lemma fromBigEndian_val: "(fromBigEndian bs :: 'a :: len word) = word_of_nat (be_val bs)"
  unfolding fromBigEndian_def
  by (induction bs rule: rev_induct) (auto simp: shift_or_byte_word simp del: of_nat_add of_nat_mult)

subsection \<open>Encoding and its inverse\<close>

lemma length_toBigEndian [simp]: "length (toBigEndian n v) = n"
  by (induction n arbitrary: v) auto

lemma low_byte: "(v :: nat) AND 255 = v mod 256"
  using take_bit_eq_mask [of 8 v] by (simp add: mask_eq_exp_minus_1 take_bit_eq_mod)

lemma unat_of_mod_256: "unat (word_of_nat (v mod 256) :: byte) = v mod 256"
  by (simp add: unsigned_of_nat take_bit_eq_mod)

lemma be_val_toBigEndian: "be_val (toBigEndian n v) = v mod 256 ^ n"
proof (induction n arbitrary: v)
  case (Suc n)
  have "be_val (toBigEndian (Suc n) v) = (v div 256) mod 256 ^ n * 256 + v mod 256"
    using Suc [of "drop_bit 8 v"] by (simp add: low_byte unat_of_mod_256 drop_bit_eq_div)
  also have "\<dots> = v mod 256 ^ Suc n"
    using mod_mult2_eq [of v 256 "256 ^ n"] by (simp add: algebra_simps)
  finally show ?case .
qed simp

lemma toBigEndian_be_val: "toBigEndian (length bs) (be_val bs) = bs"
proof (induction bs rule: rev_induct)
  case (snoc b bs)
  have "(be_val bs * 256 + unat b) div 256 = be_val bs"
    "(be_val bs * 256 + unat b) mod 256 = unat b" by simp_all
  then show ?case using snoc by (simp add: low_byte drop_bit_eq_div)
qed simp

lemma bytesRequired_0 [simp]: "bytesRequired 0 = 0"
  by (simp add: bytesRequired.simps)

lemma bytesRequired_pos: "v \<noteq> 0 \<Longrightarrow> bytesRequired v = Suc (bytesRequired (v div 256))"
  by (simp add: bytesRequired.simps)

lemma bytesRequired_upper: "v < 256 ^ bytesRequired v"
proof (induction v rule: bytesRequired.induct)
  case (1 v)
  show ?case
  proof (cases "v = 0")
    case False
    have "v div 256 < 256 ^ bytesRequired (v div 256)" using 1 False by simp
    then have "v < 256 * 256 ^ bytesRequired (v div 256)" by (simp add: div_less_iff_less_mult mult.commute)
    then show ?thesis using False by (simp add: bytesRequired_pos)
  qed simp
qed

lemma bytesRequired_lower: "v \<noteq> 0 \<Longrightarrow> 256 ^ (bytesRequired v - 1) \<le> v"
proof (induction v rule: bytesRequired.induct)
  case (1 v)
  show ?case
  proof (cases "v div 256 = 0")
    case True
    then show ?thesis using 1 by (simp add: bytesRequired_pos)
  next
    case False
    then have "256 ^ (bytesRequired (v div 256) - 1) \<le> v div 256" using 1 by simp
    then have "256 * 256 ^ (bytesRequired (v div 256) - 1) \<le> v" by linarith
    then show ?thesis using False 1(2) bytesRequired_pos [OF False]
      by (simp add: bytesRequired_pos)
  qed
qed

lemma bytesRequired_le: "v < 256 ^ n \<Longrightarrow> bytesRequired v \<le> n"
proof (rule ccontr)
  assume v: "v < 256 ^ n" and n: "\<not> bytesRequired v \<le> n"
  then have "v \<noteq> 0" by (metis bytesRequired_0 zero_le)
  then have "(256 :: nat) ^ n \<le> 256 ^ (bytesRequired v - 1)" using n by (intro power_increasing) auto
  then show False using bytesRequired_lower [OF \<open>v \<noteq> 0\<close>] v by linarith
qed

lemma bytesRequired_ge1: "v \<noteq> 0 \<Longrightarrow> 1 \<le> bytesRequired v"
  by (simp add: bytesRequired_pos)

lemma be_val_compact: "be_val (toBigEndian (bytesRequired v) v) = v"
  by (simp add: be_val_toBigEndian bytesRequired_upper)

text \<open>A compact encoding has no leading zero byte.\<close>

lemma compact_hd_nonzero:
  assumes "v \<noteq> 0"
  shows "hd (toBigEndian (bytesRequired v) v) \<noteq> 0"
proof
  let ?n = "bytesRequired v" and ?bs = "toBigEndian (bytesRequired v) v"
  assume z: "hd ?bs = 0"
  obtain b bs where bs: "?bs = b # bs"
    using length_toBigEndian [of ?n v] bytesRequired_ge1 [OF assms] by (cases ?bs) auto
  have "v = be_val bs" using be_val_compact [of v] bs z by simp
  also have "\<dots> < 256 ^ length bs" by (rule be_val_bound)
  also have "length bs = ?n - 1" using length_toBigEndian [of ?n v] bs by simp
  finally show False using bytesRequired_lower [OF assms] by simp
qed

section \<open>Hexadecimal text\<close>

definition hexdigit :: "nat \<Rightarrow> char" where
  "hexdigit n = (if n < 10 then char_of (48 + n) else char_of (87 + n))"

fun toHex :: "bytes \<Rightarrow> string" where
  "toHex [] = []"
| "toHex (b # bs) =
     hexdigit (unat (drop_bit 4 b AND 0x0f)) # hexdigit (unat (b AND 0x0f)) # toHex bs"

definition toHexPrefixed :: "bytes \<Rightarrow> string" where
  "toHexPrefixed bs = ''0x'' @ toHex bs"

text \<open>\<open>fromHexChar\<close> returns -1 on a character that is no digit.\<close>

definition fromHexChar :: "char \<Rightarrow> int" where
  "fromHexChar c = (let i = (of_char c :: nat) in
     if 48 \<le> i \<and> i \<le> 57 then int i - 48
     else if 97 \<le> i \<and> i \<le> 102 then int i - 97 + 10
     else if 65 \<le> i \<and> i \<le> 70 then int i - 65 + 10
     else - 1)"

definition isHex :: "string \<Rightarrow> bool" where
  "isHex s = (let t = (if take 2 s = ''0x'' then drop 2 s else s)
              in list_all (\<lambda>c. fromHexChar c \<noteq> - 1) t)"

text \<open>The pairs loop of \<open>fromHex\<close>; \<open>throw\<close> selects between the exception and the empty result.\<close>

fun fromHex_pairs :: "bool \<Rightarrow> string \<Rightarrow> bytes \<Rightarrow> exn + bytes" where
  "fromHex_pairs throw (c # d # s) ret =
     (if fromHexChar c \<noteq> - 1 \<and> fromHexChar d \<noteq> - 1
      then fromHex_pairs throw s (ret @ [word_of_int (fromHexChar c * 16 + fromHexChar d)])
      else if throw then Inl BadHexCharacter else Inr [])"
| "fromHex_pairs throw _ ret = Inr ret"

definition fromHex :: "string \<Rightarrow> bool \<Rightarrow> exn + bytes" where
  "fromHex s throw =
     (let t = (if take 2 s = ''0x'' then drop 2 s else s)
      in if length s mod 2 = 1
         then (let h = fromHexChar (hd t)
               in if h \<noteq> - 1 then fromHex_pairs throw (tl t) [word_of_int h]
                  else if throw then Inl BadHexCharacter else Inr [])
         else fromHex_pairs throw t [])"

fun asNibbles :: "bytes \<Rightarrow> bytes" where
  "asNibbles [] = []"
| "asNibbles (b # bs) = b div 16 # b mod 16 # asNibbles bs"

fun commonPrefix :: "'a list \<Rightarrow> 'a list \<Rightarrow> nat" where
  "commonPrefix (x # xs) (y # ys) = (if x \<noteq> y then 0 else Suc (commonPrefix xs ys))"
| "commonPrefix _ _ = 0"

lemma of_char_hexdigit: "n < 16 \<Longrightarrow> (of_char (hexdigit n) :: nat) = (if n < 10 then 48 + n else 87 + n)"
  by (simp add: hexdigit_def)

lemma fromHexChar_hexdigit: "n < 16 \<Longrightarrow> fromHexChar (hexdigit n) = int n"
  by (auto simp: fromHexChar_def of_char_hexdigit Let_def)

lemma byte_nibbles:
  fixes b :: byte
  shows "unat (drop_bit 4 b AND 15) = unat b div 16" "unat (b AND 15) = unat b mod 16"
proof -
  have m: "unat (x AND 15) = unat x mod 16" for x :: byte
    using take_bit_eq_mask [of 4 x] unsigned_take_bit_eq [of 4 x, where ?'a = nat]
    by (simp add: mask_eq_exp_minus_1 take_bit_eq_mod)
  then show "unat (b AND 15) = unat b mod 16" .
  have "unat (drop_bit 4 b) = unat b div 16"
    by (simp add: drop_bit_eq_div unat_div)
  moreover have "unat b div 16 < 16" using byte_bound [of b] by linarith
  ultimately show "unat (drop_bit 4 b AND 15) = unat b div 16" by (simp add: m)
qed

lemma fromHex_pairs_toHex: "fromHex_pairs throw (toHex bs) ret = Inr (ret @ bs)"
proof (induction bs arbitrary: ret)
  case (Cons b bs)
  have bnd: "unat b div 16 < 16" "unat b mod 16 < 16" using byte_bound [of b] by linarith+
  have "word_of_int (int (unat b div 16) * 16 + int (unat b mod 16)) = b"
  proof -
    have "int (unat b div 16) * 16 + int (unat b mod 16) = int (unat b)" by presburger
    then show ?thesis by simp
  qed
  then show ?case using Cons bnd by (simp add: byte_nibbles [of b] fromHexChar_hexdigit)
qed simp

lemma length_toHex [simp]: "length (toHex bs) = 2 * length bs"
  by (induction bs) auto

lemma hexdigit_not_x: "n < 16 \<Longrightarrow> hexdigit n \<noteq> CHR ''x''"
  using of_char_hexdigit [of n] by (auto split: if_splits)

lemma toHex_no_prefix: "take 2 (toHex bs) \<noteq> ''0x''"
proof (cases bs)
  case (Cons b cs)
  have "unat b mod 16 < 16" by simp
  then show ?thesis using Cons hexdigit_not_x by (simp add: byte_nibbles [of b])
qed simp

text \<open>C30. Hexadecimal round trip: whatever the error mode, decoding the text that \<open>toHex\<close> or
  \<open>toHexPrefixed\<close> prints returns the bytes it printed.\<close>

theorem fromHex_toHex:
  "fromHex (toHex bs) throw = Inr bs \<and> fromHex (toHexPrefixed bs) throw = Inr bs"
proof
  show "fromHex (toHex bs) throw = Inr bs"
    using toHex_no_prefix [of bs] by (simp add: fromHex_def fromHex_pairs_toHex)
  show "fromHex (toHexPrefixed bs) throw = Inr bs"
    by (simp add: fromHex_def toHexPrefixed_def fromHex_pairs_toHex)
qed

lemma length_asNibbles [simp]: "length (asNibbles bs) = 2 * length bs"
  by (induction bs) auto

lemma commonPrefix_take:
  "take (commonPrefix xs ys) xs = take (commonPrefix xs ys) ys \<and>
   (commonPrefix xs ys < length xs \<longrightarrow> commonPrefix xs ys < length ys \<longrightarrow>
      xs ! commonPrefix xs ys \<noteq> ys ! commonPrefix xs ys)"
  by (induction xs ys rule: commonPrefix.induct) auto

end
