(* ===== verification/RLP.thy ===== *)
theory RLP
  imports Bytes
begin

text \<open>
  The RLP reader of \<open>core/RLP\<close>. A \<open>vector_ref\<close> is the list of bytes it refers to, so a
  cropped reference is a sublist and a null or empty reference is \<open>[]\<close>. Every throw of the
  reader is a value of \<open>exn\<close>. The list-index cache of \<open>RLP::operator[]\<close> is explicit state,
  and indexing through it is shown to be the plain sequence of items.
\<close>

section \<open>Constants and references\<close>

definition c_rlpMaxLengthBytes :: nat where "c_rlpMaxLengthBytes = 8"
definition c_rlpDataImmLenStart :: nat where "c_rlpDataImmLenStart = 0x80"
definition c_rlpListStart :: nat where "c_rlpListStart = 0xc0"
definition c_rlpDataImmLenCount :: nat where
  "c_rlpDataImmLenCount = c_rlpListStart - c_rlpDataImmLenStart - c_rlpMaxLengthBytes"
definition c_rlpDataIndLenZero :: nat where
  "c_rlpDataIndLenZero = c_rlpDataImmLenStart + c_rlpDataImmLenCount - 1"
definition c_rlpListImmLenCount :: nat where
  "c_rlpListImmLenCount = 256 - c_rlpListStart - c_rlpMaxLengthBytes"
definition c_rlpListIndLenZero :: nat where
  "c_rlpListIndLenZero = c_rlpListStart + c_rlpListImmLenCount - 1"

lemmas rlp_consts = c_rlpMaxLengthBytes_def c_rlpDataImmLenStart_def c_rlpListStart_def
  c_rlpDataImmLenCount_def c_rlpDataIndLenZero_def c_rlpListImmLenCount_def c_rlpListIndLenZero_def

definition cropped :: "'a list \<Rightarrow> nat \<Rightarrow> nat \<Rightarrow> 'a list" where
  "cropped d begin cnt =
     (if begin \<le> length d \<and> cnt \<le> length d \<and> begin + cnt \<le> length d
      then take cnt (drop begin d) else [])"

definition cropped_from :: "'a list \<Rightarrow> nat \<Rightarrow> 'a list" where
  "cropped_from d begin = (if begin \<le> length d then drop begin d else [])"

record strictness =
  AllowNonCanon :: bool
  ThrowOnFail :: bool
  FailIfTooBig :: bool
  FailIfTooSmall :: bool

definition Strict :: strictness where
  "Strict = \<lparr>AllowNonCanon = False, ThrowOnFail = True, FailIfTooBig = True, FailIfTooSmall = False\<rparr>"
definition VeryStrict :: strictness where
  "VeryStrict = \<lparr>AllowNonCanon = False, ThrowOnFail = True, FailIfTooBig = True, FailIfTooSmall = True\<rparr>"
definition LaissezFaire :: strictness where
  "LaissezFaire = \<lparr>AllowNonCanon = True, ThrowOnFail = False, FailIfTooBig = False, FailIfTooSmall = False\<rparr>"
definition ThrowTooSmall :: strictness where
  "ThrowTooSmall = \<lparr>AllowNonCanon = False, ThrowOnFail = True, FailIfTooBig = False, FailIfTooSmall = True\<rparr>"

section \<open>Classification and length\<close>

definition isNull :: "bytes \<Rightarrow> bool" where
  "isNull d = (length d = 0)"

definition isEmpty :: "bytes \<Rightarrow> bool" where
  "isEmpty d = (\<not> isNull d \<and> (unat (d ! 0) = c_rlpDataImmLenStart \<or> unat (d ! 0) = c_rlpListStart))"

definition isData :: "bytes \<Rightarrow> bool" where
  "isData d = (\<not> isNull d \<and> unat (d ! 0) < c_rlpListStart)"

definition isList :: "bytes \<Rightarrow> bool" where
  "isList d = (\<not> isNull d \<and> unat (d ! 0) \<ge> c_rlpListStart)"

definition isSingleByte :: "bytes \<Rightarrow> bool" where
  "isSingleByte d = (\<not> isNull d \<and> unat (d ! 0) < c_rlpDataImmLenStart)"

definition requireGood :: "bytes \<Rightarrow> exn + unit" where
  "requireGood d =
     (if isNull d then Inl BadRLP
      else if unat (d ! 0) \<noteq> c_rlpDataImmLenStart + 1 then Inr ()
      else if length d < 2 then Inl BadRLP
      else if unat (d ! 1) < c_rlpDataImmLenStart then Inl BadRLP
      else Inr ())"

definition isInt :: "bytes \<Rightarrow> exn + bool" where
  "isInt d =
     (if isNull d then Inr False
      else bindE (requireGood d) (\<lambda>_.
        let n = unat (d ! 0) in
        if n < c_rlpDataImmLenStart then Inr (n \<noteq> 0)
        else if n = c_rlpDataImmLenStart then Inr True
        else if n \<le> c_rlpDataIndLenZero then
          (if length d \<le> 1 then Inl BadRLP else Inr (d ! 1 \<noteq> 0))
        else if n < c_rlpListStart then
          (if length d \<le> 1 + n - c_rlpDataIndLenZero then Inl BadRLP
           else Inr (d ! (1 + n - c_rlpDataIndLenZero) \<noteq> 0))
        else Inr False))"

text \<open>The length field: the checks of one branch of \<open>RLP::length\<close>, for the tag base of data or of
  lists. \<open>size_t\<close> is 64 bits wide.\<close>

definition long_length :: "bytes \<Rightarrow> nat \<Rightarrow> nat \<Rightarrow> exn + nat" where
  "long_length d lengthSize limit =
     (if length d \<le> lengthSize then Inl BadRLP
      else if length d > 1 \<and> d ! 1 = 0 then Inl BadRLP
      else if lengthSize > 8 then Inl UndersizeRLP
      else if d ! 1 = 0 then Inl BadRLP
      else let ret = unat (fromBigEndian (take lengthSize (drop 1 d)) :: u64) in
        if ret < limit then Inl BadRLP
        else if ret \<ge> 2 ^ 64 - 1 - 0x100 then Inl UndersizeRLP
        else Inr ret)"

definition rlp_length :: "bytes \<Rightarrow> exn + nat" where
  "rlp_length d =
     (if isNull d then Inr 0
      else bindE (requireGood d) (\<lambda>_.
        let n = unat (d ! 0) in
        if n < c_rlpDataImmLenStart then Inr 1
        else if n \<le> c_rlpDataIndLenZero then Inr (n - c_rlpDataImmLenStart)
        else if n < c_rlpListStart then
          long_length d (n - c_rlpDataIndLenZero)
            (c_rlpListStart - c_rlpDataImmLenStart - c_rlpMaxLengthBytes)
        else if n \<le> c_rlpListIndLenZero then Inr (n - c_rlpListStart)
        else long_length d (n - c_rlpListIndLenZero)
            (0x100 - c_rlpListStart - c_rlpMaxLengthBytes)))"

definition lengthSize :: "bytes \<Rightarrow> nat" where
  "lengthSize d =
     (if isData d \<and> unat (d ! 0) > c_rlpDataIndLenZero then unat (d ! 0) - c_rlpDataIndLenZero
      else if isList d \<and> unat (d ! 0) > c_rlpListIndLenZero then unat (d ! 0) - c_rlpListIndLenZero
      else 0)"

definition payloadOffset :: "bytes \<Rightarrow> nat" where
  "payloadOffset d = (if isSingleByte d then 0 else 1 + lengthSize d)"

definition actualSize :: "bytes \<Rightarrow> exn + nat" where
  "actualSize d =
     (if isNull d then Inr 0
      else if isSingleByte d then Inr 1
      else if isData d \<or> isList d then bindE (rlp_length d) (\<lambda>l. Inr (payloadOffset d + l))
      else Inr 0)"

definition payload :: "bytes \<Rightarrow> exn + bytes" where
  "payload d =
     bindE (rlp_length d) (\<lambda>l.
       if l > length d then Inl BadRLP else Inr (cropped d (payloadOffset d) l))"

text \<open>The constructor \<open>RLP(bytesConstRef, Strictness)\<close>: the data kept, or the exception thrown.\<close>

definition RLP_new :: "bytes \<Rightarrow> strictness \<Rightarrow> exn + bytes" where
  "RLP_new d s =
     bindE
       (if FailIfTooBig s
        then bindE (actualSize d) (\<lambda>n.
               if n < length d then (if ThrowOnFail s then Inl OversizeRLP else Inr []) else Inr d)
        else Inr d)
       (\<lambda>m. if FailIfTooSmall s
            then bindE (actualSize m) (\<lambda>n.
                   if n > length d then (if ThrowOnFail s then Inl UndersizeRLP else Inr []) else Inr m)
            else Inr m)"

definition sizeAsEncoded :: "bytes \<Rightarrow> exn + nat" where
  "sizeAsEncoded d = bindE (RLP_new d ThrowTooSmall) actualSize"

lemma requireGood_pos: "requireGood d = Inr u \<Longrightarrow> d \<noteq> []"
  by (auto simp: requireGood_def isNull_def split: if_splits)

lemma RLP_new_ThrowTooSmall:
  "RLP_new d ThrowTooSmall =
     bindE (actualSize d) (\<lambda>n. if n > length d then Inl UndersizeRLP else Inr d)"
  by (simp add: RLP_new_def ThrowTooSmall_def)

lemma sizeAsEncoded_eq:
  "sizeAsEncoded d = bindE (actualSize d) (\<lambda>n. if n > length d then Inl UndersizeRLP else Inr n)"
  by (cases "actualSize d") (auto simp: sizeAsEncoded_def RLP_new_ThrowTooSmall)

lemma actualSize_pos: "actualSize d = Inr n \<Longrightarrow> d \<noteq> [] \<Longrightarrow> 0 < n"
  by (auto simp: actualSize_def payloadOffset_def isNull_def isData_def isList_def bindE_Inr_iff
      split: if_splits)

lemma sizeAsEncoded_bounds: "sizeAsEncoded d = Inr n \<Longrightarrow> d \<noteq> [] \<Longrightarrow> 0 < n \<and> n \<le> length d"
  by (auto simp: sizeAsEncoded_eq bindE_Inr_iff actualSize_pos split: if_splits)

section \<open>Items of a list\<close>

text \<open>\<open>RLP::items\<close> counts by cropping one encoded item after the other.\<close>

function items_loop :: "bytes \<Rightarrow> nat \<Rightarrow> exn + nat" where
  "items_loop d i =
     (if d = [] then Inr i
      else case sizeAsEncoded d of Inl e \<Rightarrow> Inl e | Inr n \<Rightarrow> items_loop (cropped_from d n) (Suc i))"
  by pat_completeness auto
termination
proof (relation "measure (\<lambda>(d, i). length d)")
  fix d :: bytes and i n
  assume "d \<noteq> []" "sizeAsEncoded d = Inr n"
  then have "0 < n" "n \<le> length d" using sizeAsEncoded_bounds by auto
  then show "((cropped_from d n, Suc i), (d, i)) \<in> measure (\<lambda>(d, i). length d)"
    using \<open>d \<noteq> []\<close> by (simp add: cropped_from_def)
qed simp

declare items_loop.simps [simp del]

definition items :: "bytes \<Rightarrow> exn + nat" where
  "items d = (if isList d then bindE (payload d) (\<lambda>p. items_loop p 0) else Inr 0)"

definition itemCount :: "bytes \<Rightarrow> exn + nat" where
  "itemCount d = (if isList d then items d else Inr 0)"

text \<open>The iterator of a list holds its current item and the bytes after it (\<open>m_remaining\<close> counts
  them); \<open>items_iter\<close> collects what a range-based for loop visits.\<close>

record rlp_iterator =
  it_currentItem :: bytes
  it_remaining :: bytes

definition it_take :: "bytes \<Rightarrow> exn + rlp_iterator" where
  "it_take rest =
     bindE (sizeAsEncoded rest) (\<lambda>n.
       Inr \<lparr>it_currentItem = cropped rest 0 n, it_remaining = drop (length (cropped rest 0 n)) rest\<rparr>)"

definition it_begin :: "bytes \<Rightarrow> exn + rlp_iterator" where
  "it_begin d =
     (if isList d then bindE (payload d) it_take
      else Inr \<lparr>it_currentItem = [], it_remaining = []\<rparr>)"

definition it_next :: "rlp_iterator \<Rightarrow> exn + rlp_iterator" where
  "it_next it =
     (if it_remaining it \<noteq> [] then it_take (it_remaining it)
      else Inr \<lparr>it_currentItem = [], it_remaining = []\<rparr>)"

section \<open>Indexing with the cache\<close>

text \<open>\<open>m_lastIndex\<close> starts at \<open>(size_t)-1\<close>.\<close>

record rlp =
  r_data :: bytes
  r_lastIndex :: nat
  r_lastEnd :: nat
  r_lastItem :: bytes

definition fresh_rlp :: "bytes \<Rightarrow> rlp" where
  "fresh_rlp d = \<lparr>r_data = d, r_lastIndex = 2 ^ 64 - 1, r_lastEnd = 0, r_lastItem = []\<rparr>"

definition payloadX :: "(rlp, exn, bytes) exec" where
  "payloadX = (\<lambda>r. (payload (r_data r), r))"

definition sizeAsEncodedX :: "bytes \<Rightarrow> (rlp, exn, nat) exec" where
  "sizeAsEncodedX d = (\<lambda>r. (sizeAsEncoded d, r))"

definition index_restart :: "(rlp, exn, unit) exec" where
  "index_restart =
     bindX payloadX (\<lambda>p. bindX (sizeAsEncodedX p) (\<lambda>n.
       modifyX (\<lambda>r. r\<lparr>r_lastEnd := n, r_lastItem := cropped p 0 n, r_lastIndex := 0\<rparr>)))"

text \<open>One turn of the loop: the first assignment to \<open>m_lastItem\<close> stands even if the size of the
  next item cannot be read.\<close>

definition index_step :: "(rlp, exn, unit) exec" where
  "index_step =
     bindX payloadX (\<lambda>p. thenX
       (modifyX (\<lambda>r. r\<lparr>r_lastItem := cropped_from p (r_lastEnd r)\<rparr>))
       (bindX (\<lambda>r. sizeAsEncodedX (r_lastItem r) r) (\<lambda>n.
          modifyX (\<lambda>r. let it = cropped (r_lastItem r) 0 n in
            r\<lparr>r_lastItem := it, r_lastEnd := r_lastEnd r + length it,
              r_lastIndex := Suc (r_lastIndex r)\<rparr>))))"

lemma index_step_lastIndex:
  "index_step r = (Inr u, r') \<Longrightarrow> r_lastIndex r' = Suc (r_lastIndex r)"
  by (auto simp: index_step_def payloadX_def sizeAsEncodedX_def exec_simps Let_def
      split: sum.splits prod.splits)

function index_loop :: "nat \<Rightarrow> (rlp, exn, unit) exec" where
  "index_loop i r =
     (if r_lastIndex r < i \<and> r_lastItem r \<noteq> []
      then (case index_step r of (Inl e, r') \<Rightarrow> (Inl e, r') | (Inr _, r') \<Rightarrow> index_loop i r')
      else (Inr (), r))"
  by pat_completeness auto
termination
  by (relation "measure (\<lambda>(i, r). i - r_lastIndex r)") (auto dest!: index_step_lastIndex [OF sym])

declare index_loop.simps [simp del]

definition rlp_index :: "nat \<Rightarrow> (rlp, exn, bytes) exec" where
  "rlp_index i =
     thenX (\<lambda>r. if i < r_lastIndex r then index_restart r else (Inr (), r))
       (thenX (index_loop i) (\<lambda>r. (RLP_new (r_lastItem r) ThrowTooSmall, r)))"

text \<open>\<open>rlp[i]\<close> on a reader constructed over \<open>d\<close>.\<close>

definition rlp_at :: "bytes \<Rightarrow> nat \<Rightarrow> exn + bytes" where
  "rlp_at d i = fst (rlp_index i (fresh_rlp d))"

section \<open>Conversions\<close>

definition toBytes :: "strictness \<Rightarrow> bytes \<Rightarrow> exn + bytes" where
  "toBytes flags d =
     (if \<not> isData d then (if ThrowOnFail flags then Inl BadCast else Inr [])
      else payload d)"

text \<open>\<open>toInt<T>\<close>, with the byte width of \<open>T\<close> and its \<open>fromBigEndian\<close>.\<close>

definition toInt :: "nat \<Rightarrow> (bytes \<Rightarrow> 'a :: zero) \<Rightarrow> strictness \<Rightarrow> bytes \<Rightarrow> exn + 'a" where
  "toInt maxSize conv flags d =
     bindE (requireGood d) (\<lambda>_. bindE (isInt d) (\<lambda>int.
       if (\<not> int \<and> \<not> AllowNonCanon flags) \<or> isList d \<or> isNull d
       then (if ThrowOnFail flags then Inl BadCast else Inr 0)
       else bindE (payload d) (\<lambda>p.
         if length p > maxSize \<and> FailIfTooBig flags
         then (if ThrowOnFail flags then Inl BadCast else Inr 0)
         else Inr (conv p))))"

definition toInt_u8 :: "bytes \<Rightarrow> exn + byte" where
  "toInt_u8 = toInt 1 fromBigEndian Strict"
definition toInt_u32 :: "bytes \<Rightarrow> exn + u32" where
  "toInt_u32 = toInt 4 fromBigEndian Strict"
definition toInt_u64 :: "bytes \<Rightarrow> exn + u64" where
  "toInt_u64 = toInt 8 fromBigEndian Strict"
definition toInt_u256 :: "bytes \<Rightarrow> exn + 256 word" where
  "toInt_u256 = toInt 32 fromBigEndian Strict"
definition toInt_i64 :: "bytes \<Rightarrow> exn + int" where
  "toInt_i64 = toInt 8 (\<lambda>p. sint (fromBigEndian p :: u64)) Strict"

definition toPositiveInt64 :: "bytes \<Rightarrow> exn + u64" where
  "toPositiveInt64 d =
     bindE (toInt_i64 d) (\<lambda>i. if i < 0 then Inl BadCast else Inr (word_of_int i))"

text \<open>\<open>toHash<FixedHash<N>>\<close>: the payload right-aligned in N bytes.\<close>

definition toHash :: "nat \<Rightarrow> strictness \<Rightarrow> bytes \<Rightarrow> exn + bytes" where
  "toHash N flags d =
     bindE (requireGood d) (\<lambda>_. bindE (payload d) (\<lambda>p.
       let l = length p in
       if \<not> isData d \<or> (l > N \<and> FailIfTooBig flags) \<or> (l < N \<and> FailIfTooSmall flags)
       then (if ThrowOnFail flags then Inl BadCast else Inr (replicate N 0))
       else let s = min N l in Inr (replicate (N - s) 0 @ take s p)))"

definition toHash160 :: "bytes \<Rightarrow> exn + address" where
  "toHash160 d = bindE (toHash 20 VeryStrict d) (\<lambda>p. Inr (fromBigEndian p))"

definition toHash256 :: "bytes \<Rightarrow> exn + h256" where
  "toHash256 d = bindE (toHash 32 VeryStrict d) (\<lambda>p. Inr (fromBigEndian p))"

end
