(* ===== verification/RLPItems.thy ===== *)
theory RLPItems
  imports RLP
begin

text \<open>
  Facts on the RLP reader: an encoded item delimits itself, the items of a list are the
  consecutive encodings of its payload, and \<open>RLP::operator[]\<close> returns them whatever was
  read through the same object before.
\<close>

section \<open>Splitting a payload into items\<close>

function split_items :: "bytes \<Rightarrow> exn + bytes list" where
  "split_items d =
     (if d = [] then Inr []
      else case sizeAsEncoded d of Inl e \<Rightarrow> Inl e
           | Inr n \<Rightarrow> bindE (split_items (drop n d)) (\<lambda>xs. Inr (take n d # xs)))"
  by pat_completeness auto
termination
  by (relation "measure length") (auto dest!: sizeAsEncoded_bounds)

declare split_items.simps [simp del]

lemma split_items_Nil [simp]: "split_items [] = Inr []"
  by (simp add: split_items.simps)

lemma split_items_cases:
  assumes "split_items d = Inr xs" "d \<noteq> []"
  obtains n ys where "sizeAsEncoded d = Inr n" "0 < n" "n \<le> length d"
    "split_items (drop n d) = Inr ys" "xs = take n d # ys"
  using assms sizeAsEncoded_bounds [of d]
  by (subst (asm) split_items.simps) (auto simp: bindE_Inr_iff split: sum.splits)

lemma split_items_induct [consumes 1, case_names Nil Cons]:
  assumes "split_items d = Inr xs"
    and "P [] []"
    and "\<And>n d ys. sizeAsEncoded d = Inr n \<Longrightarrow> 0 < n \<Longrightarrow> n \<le> length d \<Longrightarrow>
           split_items (drop n d) = Inr ys \<Longrightarrow> P (drop n d) ys \<Longrightarrow> P d (take n d # ys)"
  shows "P d xs"
  using assms(1)
proof (induction d arbitrary: xs rule: length_induct)
  case (1 d)
  show ?case
  proof (cases "d = []")
    case True
    then show ?thesis using 1(2) assms(2) by simp
  next
    case False
    from 1(2) False show ?thesis
    proof (rule split_items_cases)
      fix n ys
      assume n: "sizeAsEncoded d = Inr n" "0 < n" "n \<le> length d"
        and ys: "split_items (drop n d) = Inr ys" "xs = take n d # ys"
      then have "P (drop n d) ys" using 1(1) False by simp
      then show "P d xs" using assms(3) n ys by blast
    qed
  qed
qed

lemma split_items_concat: "split_items d = Inr xs \<Longrightarrow> concat xs = d"
  by (induction rule: split_items_induct) auto

lemma split_items_nonempty: "split_items d = Inr xs \<Longrightarrow> x \<in> set xs \<Longrightarrow> x \<noteq> []"
  by (induction rule: split_items_induct) auto

lemma items_loop_split: "split_items d = Inr xs \<Longrightarrow> items_loop d i = Inr (i + length xs)"
proof (induction arbitrary: i rule: split_items_induct)
  case Nil
  then show ?case by (simp add: items_loop.simps)
next
  case (Cons n d ys)
  then have "d \<noteq> []" by auto
  then show ?case using Cons by (subst items_loop.simps) (simp add: cropped_from_def)
qed

lemma itemCount_split:
  "isList d \<Longrightarrow> payload d = Inr p \<Longrightarrow> split_items p = Inr xs \<Longrightarrow> itemCount d = Inr (length xs)"
  by (simp add: itemCount_def items_def items_loop_split)

text \<open>Dropping the first items leaves a payload that splits into the rest.\<close>

lemma split_items_drop:
  assumes "split_items d = Inr xs" "k \<le> length xs"
  shows "split_items (drop (length (concat (take k xs))) d) = Inr (drop k xs)"
  using assms
proof (induction arbitrary: k rule: split_items_induct)
  case (Cons n d ys)
  show ?case
  proof (cases k)
    case (Suc j)
    then have "split_items (drop (length (concat (take j ys))) (drop n d)) = Inr (drop j ys)"
      using Cons by simp
    then show ?thesis using Suc Cons by (simp add: add.commute min_absorb2)
  qed (use Cons in \<open>subst split_items.simps, auto\<close>)
qed simp

section \<open>An item is read the same in isolation\<close>

lemma nth_take_0: "0 < n \<Longrightarrow> take n d ! 0 = d ! 0"
  by (cases d) auto

lemma actualSize_take:
  assumes "actualSize d = Inr n" "n \<le> length d" "d \<noteq> []"
  shows "actualSize (take n d) = Inr n"
proof -
  have n0: "0 < n" using actualSize_pos assms by auto
  have len: "length (take n d) = n" using assms by simp
  have tag: "take n d ! 0 = d ! 0" using n0 by (rule nth_take_0)
  have null: "\<not> isNull d" "\<not> isNull (take n d)" using assms n0 by (auto simp: isNull_def)
  have cls: "isSingleByte (take n d) = isSingleByte d" "isData (take n d) = isData d"
    "isList (take n d) = isList d" "payloadOffset (take n d) = payloadOffset d"
    using null tag
    by (simp_all add: isSingleByte_def isData_def isList_def payloadOffset_def lengthSize_def)
  show ?thesis
  proof (cases "isSingleByte d")
    case True
    then show ?thesis using assms null cls by (simp add: actualSize_def)
  next
    case False
    have dl: "isData d \<or> isList d" using null by (auto simp: isData_def isList_def)
    obtain l where l: "rlp_length d = Inr l" and nl: "n = payloadOffset d + l"
      using assms(1) False dl null by (auto simp: actualSize_def bindE_Inr_iff)
    have off: "payloadOffset d = 1 + lengthSize d" using False by (simp add: payloadOffset_def)
    have nth1: "take n d ! 1 = d ! 1" if "1 < n" using that assms(2) by simp
    have good: "requireGood (take n d) = Inr ()" if "requireGood d = Inr ()"
    proof (cases "unat (d ! 0) = c_rlpDataImmLenStart + 1")
      case True
      then have "n = 2"
        using l nl off null that by (simp add: rlp_length_def lengthSize_def rlp_consts isList_def)
      then show ?thesis using that True null tag nth1 len assms(2)
        by (auto simp: requireGood_def split: if_splits)
    next
      case False
      then show ?thesis using that null tag by (simp add: requireGood_def)
    qed
    have long: "long_length (take n d) ls lim = Inr l"
      if "long_length d ls lim = Inr l" "ls = lengthSize d" "0 < ls" for ls lim
    proof -
      have gt: "ls < n" using nl off that by simp
      have "take ls (drop 1 (take n d)) = take ls (drop 1 d)"
        using nl off that by (simp add: drop_take min_absorb2 min_def)
      then show ?thesis using that(1) gt that(3) nth1 len
        by (auto simp: long_length_def Let_def split: if_splits)
    qed
    have gd: "requireGood d = Inr ()"
      using l null by (auto simp: rlp_length_def bindE_Inr_iff)
    have "rlp_length (take n d) = Inr l"
    proof (cases "lengthSize d = 0")
      case True
      then show ?thesis using l null tag gd good [OF gd]
        by (simp add: rlp_length_def lengthSize_def isData_def isList_def rlp_consts Let_def
            split: if_splits)
    next
      case ls: False
      then have hi: "unat (d ! 0) > 0xb7" "unat (d ! 0) < 0xc0 \<or> unat (d ! 0) > 0xf7"
        and sz: "lengthSize d = (if unat (d ! 0) < 0xc0 then unat (d ! 0) - 0xb7 else unat (d ! 0) - 0xf7)"
        by (auto simp: lengthSize_def isData_def isList_def rlp_consts split: if_splits)
      have len_eq: "rlp_length e = long_length e (lengthSize d) 56"
        if "\<not> isNull e" "requireGood e = Inr ()" "e ! 0 = d ! 0" for e
        using that hi by (auto simp: rlp_length_def rlp_consts Let_def sz)
      show ?thesis
        using l long [of "lengthSize d" 56] ls len_eq [of d] len_eq [of "take n d"] null tag gd good [OF gd]
        by simp
    qed
    then show ?thesis using False dl null cls nl by (simp add: actualSize_def)
  qed
qed

lemma RLP_new_item:
  "sizeAsEncoded d = Inr n \<Longrightarrow> d \<noteq> [] \<Longrightarrow> RLP_new (take n d) ThrowTooSmall = Inr (take n d)"
proof -
  assume d: "sizeAsEncoded d = Inr n" "d \<noteq> []"
  then have "actualSize d = Inr n" "n \<le> length d"
    by (auto simp: sizeAsEncoded_eq bindE_Inr_iff split: if_splits)
  then show ?thesis using d(2) by (simp add: RLP_new_ThrowTooSmall actualSize_take)
qed

lemma RLP_new_null: "RLP_new [] ThrowTooSmall = Inr []"
  by (simp add: RLP_new_ThrowTooSmall actualSize_def isNull_def)

section \<open>The index cache\<close>

text \<open>What the cache of a reader over payload \<open>p\<close> with items \<open>xs\<close> may hold.\<close>

definition cache_ok :: "bytes \<Rightarrow> bytes list \<Rightarrow> rlp \<Rightarrow> bool" where
  "cache_ok d xs r \<longleftrightarrow> r_data r = d \<and>
     (r_lastIndex r = 2 ^ 64 - 1 \<or>
      (r_lastIndex r \<le> length xs \<and>
       r_lastItem r = (if r_lastIndex r < length xs then xs ! r_lastIndex r else []) \<and>
       r_lastEnd r = length (concat (take (Suc (r_lastIndex r)) xs))))"

definition item_or_null :: "bytes list \<Rightarrow> nat \<Rightarrow> bytes" where
  "item_or_null xs i = (if i < length xs then xs ! i else [])"

definition cached_at :: "bytes \<Rightarrow> bytes list \<Rightarrow> nat \<Rightarrow> rlp \<Rightarrow> bool" where
  "cached_at d xs k r \<longleftrightarrow> r_data r = d \<and> r_lastIndex r = k \<and> k \<le> length xs \<and>
     r_lastItem r = item_or_null xs k \<and> r_lastEnd r = length (concat (take (Suc k) xs))"

lemma cache_ok_cases:
  "cache_ok d xs r \<longleftrightarrow> r_data r = d \<and> (r_lastIndex r = 2 ^ 64 - 1 \<or> cached_at d xs (r_lastIndex r) r)"
  by (auto simp: cache_ok_def cached_at_def item_or_null_def)

lemma cache_ok_fresh: "cache_ok d xs (fresh_rlp d)"
  by (simp add: cache_ok_def fresh_rlp_def)

lemma split_items_first:
  assumes "split_items p = Inr xs"
  shows "sizeAsEncoded p = Inr (length (item_or_null xs 0)) \<and>
         cropped p 0 (length (item_or_null xs 0)) = item_or_null xs 0"
proof (cases "p = []")
  case True
  then show ?thesis using assms
    by (simp add: sizeAsEncoded_eq actualSize_def isNull_def item_or_null_def cropped_def)
next
  case False
  from assms False show ?thesis
    by (rule split_items_cases) (simp add: item_or_null_def cropped_def min_absorb2)
qed

lemma split_items_nth:
  assumes "split_items p = Inr xs" "i \<le> length xs"
  shows "sizeAsEncoded (drop (length (concat (take i xs))) p) = Inr (length (item_or_null xs i))"
    and "cropped (drop (length (concat (take i xs))) p) 0 (length (item_or_null xs i)) = item_or_null xs i"
proof -
  have "item_or_null (drop i xs) 0 = item_or_null xs i"
    using assms(2) by (simp add: item_or_null_def)
  then show "sizeAsEncoded (drop (length (concat (take i xs))) p) = Inr (length (item_or_null xs i))"
    "cropped (drop (length (concat (take i xs))) p) 0 (length (item_or_null xs i)) = item_or_null xs i"
    using split_items_first [OF split_items_drop [OF assms]] by simp_all
qed

lemma concat_take_le: "length (concat (take k xs)) \<le> length (concat xs)"
  by (subst (2) append_take_drop_id [of k xs, symmetric], subst concat_append) simp

lemma index_restart_ok:
  assumes "payload d = Inr p" "split_items p = Inr xs" "r_data r = d"
  shows "\<exists>r'. index_restart r = (Inr (), r') \<and> cached_at d xs 0 r'"
proof -
  have "length (item_or_null xs 0) = length (concat (take (Suc 0) xs))"
    by (cases xs) (auto simp: item_or_null_def)
  then show ?thesis using split_items_first [OF assms(2)] assms(1,3)
    by (simp add: index_restart_def payloadX_def sizeAsEncodedX_def bindX_run cached_at_def)
qed

lemma index_step_ok:
  assumes "payload d = Inr p" "split_items p = Inr xs"
    and c: "cached_at d xs k r" and k: "k < length xs"
  shows "\<exists>r'. index_step r = (Inr (), r') \<and> cached_at d xs (Suc k) r'"
proof -
  let ?o = "length (concat (take (Suc k) xs))"
  have "?o \<le> length p" using split_items_concat [OF assms(2)] concat_take_le [of "Suc k" xs] by simp
  then have from_o: "cropped_from p (r_lastEnd r) = drop ?o p"
    using c by (simp add: cached_at_def cropped_from_def)
  note nth = split_items_nth [OF assms(2), of "Suc k"]
  have cat: "length (concat (take (Suc (Suc k)) xs)) = ?o + length (item_or_null xs (Suc k))"
    using take_Suc_conv_app_nth [of "Suc k" xs]
    by (cases "Suc k < length xs") (auto simp: item_or_null_def)
  show ?thesis using c k nth from_o assms(1) cat
    by (simp add: index_step_def payloadX_def sizeAsEncodedX_def bindX_run thenX_run cached_at_def
        Let_def del: take_Suc_Cons)
qed

lemma index_loop_ok:
  assumes pl: "payload d = Inr p" and sp: "split_items p = Inr xs" and c: "cached_at d xs k r"
  shows "\<exists>r'. index_loop i r = (Inr (), r') \<and> cached_at d xs (if k < i then min i (length xs) else k) r'"
  using c
proof (induction "length xs - k" arbitrary: k r)
  case 0
  then have "k = length xs" "r_lastItem r = []" by (auto simp: cached_at_def item_or_null_def)
  then show ?case using 0 by (subst index_loop.simps) (auto simp: min_def)
next
  case (Suc m)
  then have k: "k < length xs" by simp
  have ne: "item_or_null xs k \<noteq> []"
    using k split_items_nonempty [OF sp] by (simp add: item_or_null_def)
  show ?case
  proof (cases "k < i")
    case True
    obtain r' where r': "index_step r = (Inr (), r')" "cached_at d xs (Suc k) r'"
      using index_step_ok [OF pl sp Suc.prems k] by blast
    have m: "m = length xs - Suc k" using Suc.hyps(2) by simp
    obtain r'' where "index_loop i r' = (Inr (), r'')"
      "cached_at d xs (if Suc k < i then min i (length xs) else Suc k) r''"
      using Suc.hyps(1) [OF m r'(2)] by blast
    moreover have "(if Suc k < i then min i (length xs) else Suc k) = min i (length xs)"
      using True k by auto
    ultimately show ?thesis
      using True ne Suc.prems r' by (subst index_loop.simps) (auto simp: cached_at_def)
  next
    case False
    then show ?thesis using Suc.prems by (subst index_loop.simps) (auto simp: cached_at_def)
  qed
qed

lemma item_valid:
  assumes "split_items p = Inr xs"
  shows "RLP_new (item_or_null xs i) ThrowTooSmall = Inr (item_or_null xs i)"
proof (cases "i < length xs")
  case True
  let ?d = "drop (length (concat (take i xs))) p"
  have sz: "sizeAsEncoded ?d = Inr (length (item_or_null xs i))"
    and cr: "cropped ?d 0 (length (item_or_null xs i)) = item_or_null xs i"
    using split_items_nth [OF assms, of i] True by simp_all
  have ne: "item_or_null xs i \<noteq> []"
    using True split_items_nonempty [OF assms] by (simp add: item_or_null_def)
  then have "?d \<noteq> []" using cr by (auto simp: cropped_def)
  moreover have "take (length (item_or_null xs i)) ?d = item_or_null xs i"
    using cr ne by (auto simp: cropped_def split: if_splits)
  ultimately show ?thesis using RLP_new_item [OF sz] by simp
next
  case False
  then show ?thesis by (simp add: item_or_null_def RLP_new_null)
qed

lemma rlp_index_cached:
  assumes pl: "payload d = Inr p" and sp: "split_items p = Inr xs" and r: "cache_ok d xs r"
    and i: "i < 2 ^ 64 - 1"
  shows "\<exists>r'. rlp_index i r = (Inr (item_or_null xs i), r') \<and> cache_ok d xs r'"
proof -
  obtain r1 k where r1: "(if i < r_lastIndex r then index_restart r else (Inr (), r)) = (Inr (), r1)"
    and c1: "cached_at d xs k r1" and ki: "k \<le> i"
  proof (cases "i < r_lastIndex r")
    case True
    then show ?thesis using that index_restart_ok [OF pl sp, of r] r by (auto simp: cache_ok_def)
  next
    case False
    then show ?thesis using that [of r "r_lastIndex r"] r i by (auto simp: cache_ok_cases)
  qed
  obtain r2 where r2: "index_loop i r1 = (Inr (), r2)"
    and c2: "cached_at d xs (if k < i then min i (length xs) else k) r2"
    using index_loop_ok [OF pl sp c1] by blast
  have item: "r_lastItem r2 = item_or_null xs i"
    using c2 ki by (auto simp: cached_at_def item_or_null_def min_def split: if_splits)
  have "cache_ok d xs r2" using c2 by (auto simp: cache_ok_cases cached_at_def)
  then show ?thesis
    using r1 r2 item item_valid [OF sp, of i] by (simp add: rlp_index_def thenX_run)
qed



lemma rlp_at_split:
  assumes "payload d = Inr p" "split_items p = Inr xs" "i < length xs" "length xs < 2 ^ 64"
  shows "rlp_at d i = Inr (xs ! i)"
  using rlp_index_cached [OF assms(1,2) cache_ok_fresh, of i] assms(3,4)
  by (auto simp: rlp_at_def item_or_null_def)

end
