(* ===== verification/RLPStream.thy ===== *)
theory RLPStream
  imports RLPItems
begin

text \<open>
  The RLP writer of \<open>core/RLP\<close> (\<open>RLPStream\<close>): an output buffer and a stack of open lists,
  each with its missing item count and the position where it starts. Closing a list
  inserts its header in front of bytes already written. The writer is related to the
  recursive definition of the format, and the reader is shown to invert it.
\<close>

section \<open>The writer\<close>

text \<open>The list stack is kept with its back first. A stream is a local of the code that fills it,
  so an exception abandons it.\<close>

type_synonym stream = "bytes \<times> (nat \<times> nat) list"

definition empty_stream :: stream where
  "empty_stream = ([], [])"

text \<open>The loop of \<open>noteAppended\<close>: \<open>insert_header\<close> is the resize, memmove and header write.\<close>

definition insert_header :: "bytes \<Rightarrow> nat \<Rightarrow> exn + bytes" where
  "insert_header out p =
     (let s = length out - p; brs = bytesRequired s in
      if s < c_rlpListImmLenCount
      then Inr (take p out @ [word_of_nat (c_rlpListStart + s)] @ drop p out)
      else if c_rlpListIndLenZero + brs \<le> 0xff
      then Inr (take p out @ [word_of_nat (c_rlpListIndLenZero + brs)] @ toBigEndian brs s @ drop p out)
      else Inl RLPException)"

fun note_loop :: "nat \<Rightarrow> bytes \<Rightarrow> (nat \<times> nat) list \<Rightarrow> exn + stream" where
  "note_loop c out [] = Inr (out, [])"
| "note_loop c out ((n, p) # st) =
     (if n < c then Inl RLPException
      else if n - c \<noteq> 0 then Inr (out, (n - c, p) # st)
      else bindE (insert_header out p) (\<lambda>out'. note_loop 1 out' st))"

definition noteAppended :: "nat \<Rightarrow> stream \<Rightarrow> exn + stream" where
  "noteAppended k s = (if k = 0 then Inr s else note_loop k (fst s) (snd s))"

definition appendRaw :: "bytes \<Rightarrow> nat \<Rightarrow> stream \<Rightarrow> exn + stream" where
  "appendRaw bs k s = noteAppended k (fst s @ bs, snd s)"

definition pushCount :: "nat \<Rightarrow> nat \<Rightarrow> stream \<Rightarrow> exn + stream" where
  "pushCount cnt base s =
     (let br = bytesRequired cnt in
      if br + base > 0xff then Inl RLPException
      else Inr (fst s @ [word_of_nat (br + base)] @ toBigEndian br cnt, snd s))"

definition appendList_bytes :: "bytes \<Rightarrow> stream \<Rightarrow> exn + stream" where
  "appendList_bytes r s =
     bindE (if length r < c_rlpListImmLenCount
            then Inr (fst s @ [word_of_nat (length r + c_rlpListStart)], snd s)
            else pushCount (length r) c_rlpListIndLenZero s)
       (appendRaw r 1)"

definition appendList :: "nat \<Rightarrow> stream \<Rightarrow> exn + stream" where
  "appendList n s =
     (if n \<noteq> 0 then Inr (fst s, (n, length (fst s)) # snd s) else appendList_bytes [] s)"

definition append_bytes :: "bytes \<Rightarrow> bool \<Rightarrow> stream \<Rightarrow> exn + stream" where
  "append_bytes bs compact s =
     (let d = (if compact then dropWhile (\<lambda>b. b = 0) bs else bs); n = length d in
      bindE
        (if n = 1 \<and> unat (d ! 0) < c_rlpDataImmLenStart then Inr (fst s @ [d ! 0], snd s)
         else bindE (if n < c_rlpDataImmLenCount
                     then Inr (fst s @ [word_of_nat (n + c_rlpDataImmLenStart)], snd s)
                     else pushCount n c_rlpDataIndLenZero s)
                (appendRaw d 0))
        (noteAppended 1))"

text \<open>\<open>append(bigint)\<close>; a negative number falls in the second branch, whose cast keeps the low byte.\<close>

definition append_bigint :: "int \<Rightarrow> stream \<Rightarrow> exn + stream" where
  "append_bigint i s =
     bindE
       (if i = 0 then Inr (fst s @ [word_of_nat c_rlpDataImmLenStart], snd s)
        else if i < int c_rlpDataImmLenStart then Inr (fst s @ [word_of_int i], snd s)
        else let br = bytesRequired (nat i) in
          bindE
            (if br < c_rlpDataImmLenCount
             then Inr (fst s @ [word_of_nat (br + c_rlpDataImmLenStart)], snd s)
             else let brbr = bytesRequired br in
               if c_rlpDataIndLenZero + brbr > 0xff then Inl RLPException
               else Inr (fst s @ [word_of_nat (c_rlpDataIndLenZero + brbr)] @ toBigEndian brbr br, snd s))
            (\<lambda>s'. Inr (fst s' @ toBigEndian br (nat i), snd s')))
       (noteAppended 1)"

definition out :: "stream \<Rightarrow> exn + bytes" where
  "out s = (if snd s \<noteq> [] then Inl RLPException else Inr (fst s))"

text \<open>Filling a stream with a sequence of \<open>append\<close> calls.\<close>

fun seqE :: "('s \<Rightarrow> 'e + 's) list \<Rightarrow> 's \<Rightarrow> 'e + 's" where
  "seqE [] s = Inr s"
| "seqE (f # fs) s = bindE (f s) (seqE fs)"

section \<open>The format\<close>

definition rlp_header :: "nat \<Rightarrow> nat \<Rightarrow> nat \<Rightarrow> bytes" where
  "rlp_header short long n =
     (if n < 56 then [word_of_nat (short + n)]
      else word_of_nat (long + bytesRequired n) # toBigEndian (bytesRequired n) n)"

definition rlp_str :: "bytes \<Rightarrow> bytes" where
  "rlp_str bs = (if length bs = 1 \<and> unat (bs ! 0) < 0x80 then bs
                 else rlp_header 0x80 0xb7 (length bs) @ bs)"

definition rlp_list :: "bytes \<Rightarrow> bytes" where
  "rlp_list p = rlp_header 0xc0 0xf7 (length p) @ p"

definition rlp_int :: "nat \<Rightarrow> bytes" where
  "rlp_int n = rlp_str (toBigEndian (bytesRequired n) n)"

datatype rlp_tree = Str bytes | Lst "rlp_tree list"

fun rlp_tree_bytes :: "rlp_tree \<Rightarrow> bytes" where
  "rlp_tree_bytes (Str bs) = rlp_str bs"
| "rlp_tree_bytes (Lst ts) = rlp_list (concat (map rlp_tree_bytes ts))"

text \<open>The format's size bound: what the reader's 64-bit length field accepts.\<close>

definition rlp_max :: nat where "rlp_max = 2 ^ 64 - 1 - 0x100"

lemma seqE_Nil_bind [simp]: "bindE m (seqE []) = m"
  by (cases m) auto

lemma single_nth: "length bs = Suc 0 \<Longrightarrow> [bs ! 0] = bs"
  by (cases bs) auto

lemma br_le_8: "n < rlp_max \<Longrightarrow> bytesRequired n \<le> 8"
  by (rule bytesRequired_le) (simp add: rlp_max_def)

section \<open>Each append writes one item\<close>

text \<open>\<open>appends f e\<close>: the operation adds the bytes e as one item of the innermost open list.\<close>

definition appends :: "(stream \<Rightarrow> exn + stream) \<Rightarrow> bytes \<Rightarrow> bool" where
  "appends f e \<longleftrightarrow> (\<forall>o1 st. f (o1, st) = note_loop 1 (o1 @ e) st)"

named_theorems appends_intros \<open>encodings written by the append operations\<close>

lemma appendsD: "appends f e \<Longrightarrow> f (o1, st) = note_loop 1 (o1 @ e) st"
  by (simp add: appends_def)

lemma appends_raw [appends_intros]: "appends (appendRaw bs 1) bs"
  by (simp add: appends_def appendRaw_def noteAppended_def)

lemma pushCount_ok:
  assumes "n < rlp_max" "base \<le> 0xf7"
  shows "pushCount n base s = Inr (fst s @ [word_of_nat (base + bytesRequired n)] @
           toBigEndian (bytesRequired n) n, snd s)"
  using br_le_8 [OF assms(1)] assms(2) by (simp add: pushCount_def Let_def add.commute)

lemma appends_bytes [appends_intros]:
  assumes "length bs < rlp_max"
  shows "appends (append_bytes bs False) (rlp_str bs)"
proof (cases "length bs = 1 \<and> unat (bs ! 0) < 0x80")
  case True
  then show ?thesis
    by (simp add: appends_def append_bytes_def rlp_str_def noteAppended_def rlp_consts single_nth)
next
  case False
  then have "rlp_str bs = rlp_header 0x80 0xb7 (length bs) @ bs"
    unfolding rlp_str_def by (rule if_not_P)
  moreover have "bindE (if length bs < c_rlpDataImmLenCount
          then Inr (o1 @ [word_of_nat (length bs + c_rlpDataImmLenStart)], st)
          else pushCount (length bs) c_rlpDataIndLenZero (o1, st)) (appendRaw bs 0) =
      Inr (o1 @ rlp_header 0x80 0xb7 (length bs) @ bs, st)" for o1 st
    using assms
    by (simp add: pushCount_ok appendRaw_def noteAppended_def rlp_header_def rlp_consts add.commute)
  moreover have "(length bs = 1 \<and> unat (bs ! 0) < c_rlpDataImmLenStart) = False"
    using False by (simp add: rlp_consts)
  ultimately show ?thesis
    by (simp only: appends_def append_bytes_def Let_def if_False fst_conv snd_conv bindE_simps
        noteAppended_def one_neq_zero simp_thms)
qed

lemma appends_list_bytes: "length r < rlp_max \<Longrightarrow> appends (appendList_bytes r) (rlp_list r)"
  by (auto simp: appends_def appendList_bytes_def rlp_list_def rlp_header_def appendRaw_def
      noteAppended_def rlp_consts pushCount_ok Let_def add.commute)

lemma insert_header_ok:
  assumes "length p < rlp_max"
  shows "insert_header (o1 @ p) (length o1) = Inr (o1 @ rlp_list p)"
  using br_le_8 [OF assms]
  by (simp add: insert_header_def rlp_list_def rlp_header_def rlp_consts Let_def)

text \<open>Integers are written big-endian without leading zeros.\<close>

lemma rlp_int_small: "n \<noteq> 0 \<Longrightarrow> n < 0x80 \<Longrightarrow> rlp_int n = [word_of_nat n]"
proof -
  assume n: "n \<noteq> 0" "n < 0x80"
  then have "bytesRequired n = 1" by (simp add: bytesRequired_pos)
  then show ?thesis using n
    by (simp add: rlp_int_def rlp_str_def low_byte unsigned_of_nat take_bit_eq_mod)
qed

lemma rlp_int_not_single:
  assumes "0x80 \<le> n"
  shows "\<not> (length (toBigEndian (bytesRequired n) n) = 1 \<and>
            unat (toBigEndian (bytesRequired n) n ! 0) < 0x80)"
proof
  let ?bs = "toBigEndian (bytesRequired n) n"
  assume a: "length ?bs = 1 \<and> unat (?bs ! 0) < 0x80"
  then obtain b where b: "?bs = [b]" by (auto simp: length_Suc_conv)
  then have "n = unat b" using be_val_compact [of n] by simp
  moreover have "unat b < 0x80" using a by (simp only: b nth_Cons_0)
  ultimately show False using assms by simp
qed

lemma rlp_int_big:
  "0x80 \<le> n \<Longrightarrow> bytesRequired n < 56 \<Longrightarrow>
   rlp_int n = word_of_nat (0x80 + bytesRequired n) # toBigEndian (bytesRequired n) n"
  unfolding rlp_int_def rlp_str_def
  by (subst if_not_P) (rule rlp_int_not_single, simp, simp add: rlp_header_def)

lemma appends_bigint [appends_intros]:
  assumes "n < 256 ^ 55"
  shows "appends (append_bigint (int n)) (rlp_int n)"
proof -
  have br: "bytesRequired n < 56" using bytesRequired_le [OF assms] by simp
  have nat: "append_bigint (int n) (o1, st) = note_loop 1 (o1 @ rlp_int n) st" for o1 st
  proof (cases "n = 0")
    case True
    then show ?thesis
      by (simp add: append_bigint_def rlp_int_def rlp_str_def rlp_header_def rlp_consts noteAppended_def)
  next
    case False
    show ?thesis
    proof (cases "n < 0x80")
      case True
      then show ?thesis using False
        by (simp add: append_bigint_def rlp_int_small rlp_consts noteAppended_def)
    next
      case ge: False
      then show ?thesis using False br
        by (simp add: append_bigint_def rlp_int_big rlp_consts noteAppended_def Let_def add.commute)
    qed
  qed
  then show ?thesis by (simp add: appends_def)
qed

lemma appends_u64 [appends_intros]: "appends (append_bigint (uint (w :: u64))) (rlp_int (unat w))"
proof -
  have "unat w < 2 ^ 64" using unsigned_less [of w] by simp
  then have "unat w < 256 ^ 55" by (rule less_trans) simp
  from appends_bigint [OF this] show ?thesis by (simp only: uint_nat)
qed

subsection \<open>Lists\<close>

lemma seqE_close:
  assumes "list_all2 appends fs es" "fs \<noteq> []" "length (pre @ concat es) < rlp_max"
  shows "seqE fs (o1 @ pre, (length fs, length o1) # st) =
         note_loop 1 (o1 @ rlp_list (pre @ concat es)) st"
  using assms
proof (induction fs arbitrary: es pre)
  case (Cons f fs)
  then obtain e es' where es: "es = e # es'" "appends f e" "list_all2 appends fs es'"
    by (auto simp: list_all2_Cons1)
  show ?case
  proof (cases "fs = []")
    case True
    then have "es' = []" using es(3) by simp
    then show ?thesis using True Cons.prems es
      by (simp add: appendsD insert_header_ok [of "pre @ e" o1, simplified])
  next
    case False
    have step: "f (o1 @ pre, (length (f # fs), length o1) # st) =
        Inr (o1 @ (pre @ e), (length fs, length o1) # st)"
      using es(2) False by (simp add: appendsD)
    show ?thesis
      using Cons.IH [OF es(3) False, of "pre @ e"] Cons.prems(3) es step by simp
  qed
qed simp

lemma appends_list [appends_intros]:
  assumes "list_all2 appends fs es" "length (concat es) < rlp_max" "n = length fs"
  shows "appends (\<lambda>s. bindE (appendList n s) (seqE fs)) (rlp_list (concat es))"
proof (cases "fs = []")
  case True
  then show ?thesis using assms appends_list_bytes [of "[]"]
    by (auto simp: appends_def appendList_def bindE_def rlp_max_def split: sum.splits)
next
  case False
  then show ?thesis
    using seqE_close [OF assms(1) False, of "[]"] assms(2,3)
    by (simp add: appends_def appendList_def)
qed

lemma out_appends: "appends f e \<Longrightarrow> bindE (f empty_stream) out = Inr e"
  by (simp add: appends_def empty_stream_def out_def)

end
