(* ===== verification/RLPRoundTrip.thy ===== *)
theory RLPRoundTrip
  imports RLPItems RLPStream
begin

text \<open>
  The RLP reader inverts the RLP writer: every encoded item delimits itself, the payload of a
  list is split into the encodings that were appended to it, and each conversion of the reader
  returns the value that was appended.
\<close>

section \<open>Encoded items delimit themselves\<close>

text \<open>\<open>reads e p\<close>: in front of any bytes, e is read as one item with the payload p.\<close>

definition reads :: "bytes \<Rightarrow> bytes \<Rightarrow> bool" where
  "reads e p \<longleftrightarrow> e \<noteq> [] \<and> length p \<le> length e \<and> p = drop (payloadOffset e) e \<and>
     (\<forall>rest. requireGood (e @ rest) = Inr () \<and> actualSize (e @ rest) = Inr (length e) \<and>
        rlp_length (e @ rest) = Inr (length p))"

lemma long_length_ok:
  assumes "n < rlp_max" "56 \<le> n"
  shows "long_length (t # toBigEndian (bytesRequired n) n @ xs) (bytesRequired n) 56 = Inr n"
proof -
  let ?b = "toBigEndian (bytesRequired n) n"
  have b8: "bytesRequired n \<le> 8" by (rule br_le_8) (fact assms)
  have b1: "1 \<le> bytesRequired n" using bytesRequired_ge1 assms(2) by auto
  then have ne: "?b \<noteq> []" by (simp add: length_0_conv [symmetric] del: length_0_conv)
  have hd: "(?b @ xs) ! 0 \<noteq> 0"
    using compact_hd_nonzero [of n] ne b1 assms(2) by (simp add: nth_append hd_conv_nth)
  have n64: "n < 2 ^ 64" using assms(1) by (simp add: rlp_max_def)
  have "unat (fromBigEndian ?b :: u64) = n"
    using n64 by (simp add: fromBigEndian_val be_val_compact unsigned_of_nat take_bit_eq_mod)
  then show ?thesis using b8 b1 hd assms
    by (simp add: long_length_def Let_def rlp_max_def)
qed

lemma tag_unat: "n < 256 \<Longrightarrow> unat (word_of_nat n :: byte) = n"
  by (simp add: unsigned_of_nat take_bit_eq_mod)


lemma tag_unat_numeral: "numeral k + n < 256 \<Longrightarrow> unat (numeral k + word_of_nat n :: byte) = numeral k + n"
  using tag_unat [of "numeral k + n"] by simp

text \<open>A header with a short length; the tag is below the indirect ones.\<close>

lemma reads_short:
  assumes "length p < 56" "base = 0x80 \<or> base = 0xc0"
    and "base = 0x80 \<Longrightarrow> length p = 1 \<Longrightarrow> 0x80 \<le> unat (p ! 0)"
  shows "reads (word_of_nat (base + length p) # p) p"
proof -
  let ?t = "word_of_nat (base + length p) :: byte"
  have t: "unat ?t = base + length p" using assms by (intro tag_unat) auto
  have good: "requireGood (?t # p @ rest) = Inr ()" for rest
    using assms t by (auto simp: requireGood_def isNull_def rlp_consts nth_append)
  have off: "payloadOffset (?t # q) = 1" for q
    using assms(1,2) t
    by (auto simp: payloadOffset_def lengthSize_def isSingleByte_def isData_def isList_def isNull_def
        rlp_consts)
  have len: "rlp_length (?t # p @ rest) = Inr (length p)" for rest
    using assms(1,2) t good by (auto simp: rlp_length_def isNull_def rlp_consts Let_def)
  have "actualSize (?t # p @ rest) = Inr (Suc (length p))" for rest
    using assms(2) t len off
    by (auto simp: actualSize_def isNull_def isSingleByte_def isData_def isList_def rlp_consts)
  then show ?thesis using good off len by (simp add: reads_def)
qed

lemma reads_long:
  assumes "56 \<le> length p" "length p < rlp_max" "base = 0xb7 \<or> base = 0xf7"
  shows "reads (word_of_nat (base + bytesRequired (length p)) #
           toBigEndian (bytesRequired (length p)) (length p) @ p) p"
proof -
  let ?k = "bytesRequired (length p)"
  let ?t = "word_of_nat (base + ?k) :: byte" and ?b = "toBigEndian ?k (length p)"
  have k: "1 \<le> ?k" "?k \<le> 8" using br_le_8 [OF assms(2)] bytesRequired_ge1 [of "length p"] assms(1) by force+
  then have t: "unat ?t = base + ?k" using assms(3) by (intro tag_unat) auto
  have good: "requireGood (?t # q) = Inr ()" for q
    using assms(3) k t by (auto simp: requireGood_def isNull_def rlp_consts)
  have off: "payloadOffset (?t # q) = Suc ?k" for q
    using assms(3) t k
    by (auto simp: payloadOffset_def lengthSize_def isSingleByte_def isData_def isList_def isNull_def
        rlp_consts)
  have len: "rlp_length (?t # ?b @ q) = Inr (length p)" for q
    using assms(3) t k good long_length_ok [OF assms(2,1), of ?t q]
    by (auto simp: rlp_length_def isNull_def rlp_consts Let_def)
  have "actualSize (?t # ?b @ p @ rest) = Inr (length (?t # ?b @ p))" for rest
    using assms(3) t k len off
    by (auto simp: actualSize_def isNull_def isSingleByte_def isData_def isList_def rlp_consts)
  then show ?thesis using good off len by (simp add: reads_def)
qed

lemma reads_str:
  assumes "length bs < rlp_max"
  shows "reads (rlp_str bs) bs"
proof (cases "length bs = 1 \<and> unat (bs ! 0) < 0x80")
  case True
  then obtain b where "bs = [b]" "unat b < 0x80" by (auto simp: length_Suc_conv)
  then show ?thesis
    by (simp add: rlp_str_def reads_def requireGood_def actualSize_def rlp_length_def payloadOffset_def
        isNull_def isSingleByte_def rlp_consts)
next
  case False
  then have eq: "rlp_str bs = rlp_header 0x80 0xb7 (length bs) @ bs"
    unfolding rlp_str_def by (rule if_not_P)
  show ?thesis
  proof (cases "length bs < 56")
    case True
    then show ?thesis using reads_short [of bs "0x80"] False by (simp add: eq rlp_header_def not_less)
  next
    case long: False
    then show ?thesis using reads_long [of bs "0xb7"] assms by (simp add: eq rlp_header_def)
  qed
qed

lemma reads_list: "length p < rlp_max \<Longrightarrow> reads (rlp_list p) p"
  using reads_short [of p "0xc0"] reads_long [of p "0xf7"]
  by (cases "length p < 56") (auto simp: rlp_list_def rlp_header_def)

lemma isList_list: "length p < rlp_max \<Longrightarrow> isList (rlp_list p @ rest)"
  using br_le_8 [of "length p"]
  by (auto simp: isList_def isNull_def rlp_list_def rlp_header_def rlp_consts tag_unat_numeral)

lemma isData_str: "length bs < rlp_max \<Longrightarrow> isData (rlp_str bs)"
  using br_le_8 [of "length bs"]
  by (auto simp: isData_def isNull_def rlp_str_def rlp_header_def rlp_consts tag_unat_numeral nth_append)

section \<open>Payloads\<close>

lemma reads_payload:
  assumes "reads e p"
  shows "payload e = Inr p"
proof -
  have "rlp_length (e @ []) = Inr (length p)" using assms unfolding reads_def by blast
  then show ?thesis using assms by (auto simp: payload_def cropped_def reads_def)
qed

lemma reads_sizeAsEncoded: "reads e p \<Longrightarrow> sizeAsEncoded (e @ rest) = Inr (length e)"
  by (simp add: sizeAsEncoded_eq reads_def)

lemma split_items_reads:
  "\<forall>e \<in> set es. \<exists>p. reads e p \<Longrightarrow> split_items (concat es) = Inr es"
proof (induction es)
  case (Cons e es)
  then obtain p where p: "reads e p" by auto
  then have "e \<noteq> []" by (simp add: reads_def)
  then show ?case using Cons reads_sizeAsEncoded [OF p, of "concat es"]
    by (subst split_items.simps) simp
qed simp

text \<open>Reading the fields of an encoded list.\<close>

lemma rlp_at_list:
  assumes "\<forall>e \<in> set es. \<exists>p. reads e p" "length (concat es) < rlp_max" "i < length es"
  shows "rlp_at (rlp_list (concat es)) i = Inr (es ! i)"
proof -
  have "length es \<le> length (concat es)" using assms(1)
    by (induction es) (auto simp: reads_def neq_Nil_conv)
  then have "length es < 2 ^ 64" using assms(2) by (simp add: rlp_max_def)
  then show ?thesis
    using rlp_at_split reads_payload reads_list split_items_reads assms by blast
qed

lemma itemCount_list:
  "\<forall>e \<in> set es. \<exists>p. reads e p \<Longrightarrow> length (concat es) < rlp_max \<Longrightarrow>
   itemCount (rlp_list (concat es)) = Inr (length es)"
  using itemCount_split isList_list [of "concat es" "[]"] reads_payload reads_list split_items_reads
  by fastforce

section \<open>Conversions\<close>

lemma reads_requireGood: "reads e p \<Longrightarrow> requireGood e = Inr ()"
  unfolding reads_def by (metis append_Nil2)

lemma toBytes_str: "length bs < rlp_max \<Longrightarrow> toBytes flags (rlp_str bs) = Inr bs"
  by (simp add: toBytes_def isData_str reads_payload [OF reads_str])

lemma toHash_str:
  assumes "length bs = N" "N < rlp_max"
  shows "toHash N VeryStrict (rlp_str bs) = Inr bs"
  using assms reads_str [of bs]
  by (simp add: toHash_def reads_requireGood reads_payload isData_str)

lemma word_of_toBigEndian:
  "LENGTH('a) \<le> 8 * n \<Longrightarrow> (fromBigEndian (toBigEndian n (unat w)) :: 'a :: len word) = w"
proof -
  assume n: "LENGTH('a) \<le> 8 * n"
  have "unat w < 2 ^ LENGTH('a)" by (rule unsigned_less)
  also have "(2 :: nat) ^ LENGTH('a) \<le> 2 ^ (8 * n)" using n by (rule power_increasing) simp
  also have "(2 :: nat) ^ (8 * n) = 256 ^ n" by (simp add: power_mult)
  finally show ?thesis by (simp add: fromBigEndian_val be_val_toBigEndian)
qed

lemma toHash160_str [simp]: "toHash160 (rlp_str (toBigEndian 20 (unat a))) = Inr a"
  by (simp add: toHash160_def toHash_str rlp_max_def word_of_toBigEndian)

lemma toHash256_str [simp]: "toHash256 (rlp_str (toBigEndian 32 (unat a))) = Inr a"
  by (simp add: toHash256_def toHash_str rlp_max_def word_of_toBigEndian)

lemma isInt_rlp_int:
  assumes "bytesRequired n < 56"
  shows "isInt (rlp_int n) = Inr True"
proof -
  have good: "requireGood (rlp_int n) = Inr ()"
    unfolding rlp_int_def using assms by (intro reads_requireGood [OF reads_str]) (simp add: rlp_max_def)
  show ?thesis
  proof (cases "n < 0x80")
    case small: True
    show ?thesis
    proof (cases "n = 0")
      case True
      then have "rlp_int n = [0x80]" by (simp add: rlp_int_def rlp_str_def rlp_header_def)
      then show ?thesis by (simp add: isInt_def isNull_def requireGood_def rlp_consts)
    next
      case False
      then have "rlp_int n = [word_of_nat n]" using small by (intro rlp_int_small)
      moreover have "unat (word_of_nat n :: byte) = n" using small by (intro tag_unat) simp
      ultimately show ?thesis using small False
        by (simp add: isInt_def isNull_def requireGood_def rlp_consts Let_def)
    qed
  next
    case False
    then have n: "n \<noteq> 0" "0x80 \<le> n" by auto
    have eq: "rlp_int n = word_of_nat (0x80 + bytesRequired n) # toBigEndian (bytesRequired n) n"
      by (rule rlp_int_big [OF n(2) assms])
    have t: "unat (word_of_nat (0x80 + bytesRequired n) :: byte) = 0x80 + bytesRequired n"
      using assms by (intro tag_unat) simp
    have len: "1 \<le> bytesRequired n" by (rule bytesRequired_ge1 [OF n(1)])
    have "toBigEndian (bytesRequired n) n ! 0 \<noteq> 0"
      using compact_hd_nonzero [OF n(1)] len hd_conv_nth [of "toBigEndian (bytesRequired n) n"]
      by (metis length_toBigEndian list.size(3) not_one_le_zero)
    then show ?thesis using good t len assms unfolding eq isInt_def
      by (simp add: isNull_def rlp_consts Let_def)
  qed
qed

lemma toInt_rlp_int:
  assumes "n < 256 ^ k" "k < 56"
  shows "toInt k conv flags (rlp_int n) = Inr (conv (toBigEndian (bytesRequired n) n))"
proof -
  have br: "bytesRequired n \<le> k" by (rule bytesRequired_le [OF assms(1)])
  then have r: "reads (rlp_int n) (toBigEndian (bytesRequired n) n)"
    unfolding rlp_int_def using assms(2) by (intro reads_str) (simp add: rlp_max_def)
  have "isData (rlp_int n)"
    unfolding rlp_int_def using br assms(2) by (intro isData_str) (simp add: rlp_max_def)
  then have "\<not> isList (rlp_int n)" "\<not> isNull (rlp_int n)" by (auto simp: isData_def isList_def)
  then show ?thesis using r br assms(2)
    by (simp add: toInt_def reads_requireGood reads_payload isInt_rlp_int)
qed

lemma u64_bound: "unat (w :: u64) < 256 ^ 8"
  using unsigned_less [of w] by simp

lemma toInt_u64_int [simp]: "toInt_u64 (rlp_int (unat w)) = Inr w"
  by (simp add: toInt_u64_def toInt_rlp_int [OF u64_bound] fromBigEndian_val be_val_compact)

lemma toInt_i64_int:
  assumes "n < 2 ^ 63"
  shows "toInt_i64 (rlp_int n) = Inr (int n)"
proof -
  have "n < 256 ^ 8" using assms by simp
  note toInt_rlp_int [OF this, of "\<lambda>p. sint (fromBigEndian p :: u64)" Strict]
  moreover have "signed_take_bit 63 (int n) = int n"
    using assms by (intro signed_take_bit_int_eq_self) auto
  then have "sint (word_of_nat n :: u64) = int n"
    by (simp add: signed_of_nat)
  ultimately show ?thesis
    by (simp add: toInt_i64_def fromBigEndian_val be_val_compact)
qed

lemma toPositiveInt64_int:
  "unat w < 2 ^ 63 \<Longrightarrow> toPositiveInt64 (rlp_int (unat w)) = Inr w"
  by (simp add: toPositiveInt64_def toInt_i64_int)

section \<open>Nested structures\<close>

text \<open>A nested structure is streamed with \<open>appendList\<close> and \<open>append\<close>, and read with \<open>itemCount\<close>,
  \<open>operator[]\<close> and \<open>toBytes\<close>, as the clients of \<open>core/RLP\<close> do; the fuel of the reader bounds the
  nesting.\<close>

fun append_tree :: "rlp_tree \<Rightarrow> stream \<Rightarrow> exn + stream" where
  "append_tree (Str bs) = append_bytes bs False"
| "append_tree (Lst ts) = (\<lambda>s. bindE (appendList (length ts) s) (seqE (map append_tree ts)))"

fun read_tree :: "nat \<Rightarrow> bytes \<Rightarrow> exn + rlp_tree" where
  "read_tree 0 d = Inl BadRLP"
| "read_tree (Suc k) d =
     (if isList d
      then bindE (itemCount d) (\<lambda>n. bindE (mapE (rlp_at d) [0..<n]) (\<lambda>xs.
             bindE (mapE (read_tree k) xs) (\<lambda>ts. Inr (Lst ts))))
      else bindE (toBytes Strict d) (\<lambda>bs. Inr (Str bs)))"

fun depth :: "rlp_tree \<Rightarrow> nat" where
  "depth (Str bs) = 1"
| "depth (Lst ts) = Suc (foldr max (map depth ts) 0)"

lemma rlp_str_longer: "length bs \<le> length (rlp_str bs)"
  by (simp add: rlp_str_def)

lemma rlp_list_longer: "length p \<le> length (rlp_list p)"
  by (simp add: rlp_list_def)

lemma length_concat_member: "e \<in> set es \<Longrightarrow> length e \<le> length (concat es)"
  by (induction es) auto

lemma tree_children:
  assumes "length (rlp_tree_bytes (Lst ts)) < rlp_max" "t \<in> set ts"
  shows "length (rlp_tree_bytes t) < rlp_max"
  using assms rlp_list_longer [of "concat (map rlp_tree_bytes ts)"]
    length_concat_member [of "rlp_tree_bytes t" "map rlp_tree_bytes ts"]
  by simp

lemma appends_tree: "length (rlp_tree_bytes t) < rlp_max \<Longrightarrow> appends (append_tree t) (rlp_tree_bytes t)"
proof (induction t)
  case (Str bs)
  then show ?case using rlp_str_longer [of bs] by (simp add: appends_bytes)
next
  case (Lst ts)
  have "list_all2 appends (map append_tree ts) (map rlp_tree_bytes ts)"
    using Lst tree_children [OF Lst.prems] by (auto simp: list_all2_conv_all_nth)
  then show ?case
    using Lst.prems rlp_list_longer [of "concat (map rlp_tree_bytes ts)"]
      appends_list [of "map append_tree ts" "map rlp_tree_bytes ts" "length ts"]
    by simp
qed

lemma reads_tree: "length (rlp_tree_bytes t) < rlp_max \<Longrightarrow> \<exists>p. reads (rlp_tree_bytes t) p"
  by (cases t)
    (auto intro!: exI reads_str reads_list intro: le_less_trans [OF rlp_str_longer]
      le_less_trans [OF rlp_list_longer])

lemma depth_child: "t \<in> set ts \<Longrightarrow> depth (Lst ts) \<le> Suc k \<Longrightarrow> depth t \<le> k"
  by (induction ts) auto

lemma read_tree_bytes:
  "length (rlp_tree_bytes t) < rlp_max \<Longrightarrow> depth t \<le> k \<Longrightarrow> read_tree k (rlp_tree_bytes t) = Inr t"
proof (induction t arbitrary: k)
  case (Str bs)
  then obtain j where k: "k = Suc j" by (cases k) auto
  have l: "length bs < rlp_max" using Str rlp_str_longer [of bs] by simp
  then have "\<not> isList (rlp_str bs)" using isData_str [of bs] by (auto simp: isData_def isList_def)
  then show ?case using l by (simp add: k toBytes_str)
next
  case (Lst ts)
  then obtain j where k: "k = Suc j" by (cases k) auto
  let ?es = "map rlp_tree_bytes ts"
  have l: "length (concat ?es) < rlp_max"
    using Lst.prems rlp_list_longer [of "concat ?es"] by simp
  have r: "\<forall>e \<in> set ?es. \<exists>p. reads e p" using reads_tree tree_children [OF Lst.prems(1)] by auto
  have "mapE (rlp_at (rlp_list (concat ?es))) [0..<length ts] = Inr (map ((!) ?es) [0..<length ts])"
    using rlp_at_list [OF r l] by (intro mapE_Inr) simp
  then have at: "mapE (rlp_at (rlp_list (concat ?es))) [0..<length ts] = Inr ?es"
    using map_nth [of ?es] by simp
  have "mapE (read_tree j) ?es = Inr ts"
    using Lst.IH tree_children [OF Lst.prems(1)] depth_child Lst.prems(2)
    by (intro mapE_map_Inr) (auto simp: k)
  then show ?case
    using at itemCount_list [OF r l] isList_list [OF l, of "[]"] by (simp add: k)
qed

text \<open>C4. What the stream writes, the reader reads: appending any nested structure below the size
  bound to an empty stream and taking \<open>out()\<close> succeeds, and reading the bytes item by item
  gives the same structure.\<close>

theorem rlp_tree_roundtrip:
  assumes "length (rlp_tree_bytes t) < rlp_max" and "depth t \<le> k"
  shows "bindE (bindE (append_tree t empty_stream) out) (read_tree k) = Inr t"
  using out_appends [OF appends_tree [OF assms(1)]] read_tree_bytes [OF assms] by simp

theorem rlp_tree_roundtrip_witness:
  "bindE (bindE (append_tree (Lst [Str [1, 2], Lst [], Str [200]]) empty_stream) out) (read_tree 2) =
   Inr (Lst [Str [1, 2], Lst [], Str [200]])"
  by (rule rlp_tree_roundtrip) (simp_all add: rlp_str_def rlp_list_def rlp_header_def rlp_max_def)

end
