(* ===== verification/Containers.thy ===== *)
theory Containers
  imports Prelude
begin

text \<open>
  The containers the node is built on. \<open>std::map\<close> is an association list in strictly
  ascending key order, which is also the order its iterators visit; \<open>core::Queue\<close> and
  \<open>core::FixedQueue\<close> (\<open>core/include/core/Queue.h\<close>) wrap \<open>std::list\<close>. The interface that
  the other components use is the locale \<open>ordered_map\<close>, interpreted here on the
  association lists.
\<close>

section \<open>\<open>std::map\<close>\<close>

type_synonym ('k, 'v) stdmap = "('k \<times> 'v) list"

definition om_find :: "('k, 'v) stdmap \<Rightarrow> 'k \<Rightarrow> 'v option" where
  "om_find m k = map_of m k"

text \<open>\<open>m[k] = v\<close>: overwrite the entry, or insert it in key order.\<close>

fun om_put :: "'k :: linorder \<Rightarrow> 'v \<Rightarrow> ('k, 'v) stdmap \<Rightarrow> ('k, 'v) stdmap" where
  "om_put k v [] = [(k, v)]"
| "om_put k v ((k', v') # m) =
     (if k = k' then (k, v) # m
      else if k < k' then (k, v) # (k', v') # m
      else (k', v') # om_put k v m)"

text \<open>\<open>m.emplace(k, v)\<close>: insert only when the key is absent.\<close>

definition om_emplace :: "'k :: linorder \<Rightarrow> 'v \<Rightarrow> ('k, 'v) stdmap \<Rightarrow> ('k, 'v) stdmap" where
  "om_emplace k v m = (case om_find m k of None \<Rightarrow> om_put k v m | Some _ \<Rightarrow> m)"

definition om_erase :: "'k \<Rightarrow> ('k, 'v) stdmap \<Rightarrow> ('k, 'v) stdmap" where
  "om_erase k m = filter (\<lambda>p. fst p \<noteq> k) m"

definition om_inv :: "('k :: linorder, 'v) stdmap \<Rightarrow> bool" where
  "om_inv m \<longleftrightarrow> sorted_wrt (<) (map fst m)"

subsection \<open>The interface\<close>

locale ordered_map =
  fixes empty :: "'m"
    and find :: "'m \<Rightarrow> 'k :: linorder \<Rightarrow> 'v option"
    and put :: "'k \<Rightarrow> 'v \<Rightarrow> 'm \<Rightarrow> 'm"
    and erase :: "'k \<Rightarrow> 'm \<Rightarrow> 'm"
    and entries :: "'m \<Rightarrow> ('k \<times> 'v) list"
    and invar :: "'m \<Rightarrow> bool"
  assumes find_empty: "find empty k = None"
    and find_put: "find (put k v m) k' = (if k' = k then Some v else find m k')"
    and find_erase: "invar m \<Longrightarrow> find (erase k m) k' = (if k' = k then None else find m k')"
    and find_entries: "invar m \<Longrightarrow> find m k = Some v \<longleftrightarrow> (k, v) \<in> set (entries m)"
    and entries_sorted: "invar m \<Longrightarrow> sorted_wrt (<) (map fst (entries m))"
    and invar_empty: "invar empty"
    and invar_put: "invar m \<Longrightarrow> invar (put k v m)"
    and invar_erase: "invar m \<Longrightarrow> invar (erase k m)"
begin

text \<open>Writing every entry of one map into another (\<open>for (auto i : m) target.put(i.second)\<close>).\<close>

definition write_all :: "'m \<Rightarrow> 'm \<Rightarrow> 'm" where
  "write_all src dst = fold (\<lambda>(k, v). put k v) (entries src) dst"

lemma find_fold_put:
  "distinct (map fst es) \<Longrightarrow>
   find (fold (\<lambda>(k, v). put k v) es dst) k =
     (case map_of es k of None \<Rightarrow> find dst k | Some v \<Rightarrow> Some v)"
proof (induction es arbitrary: dst)
  case (Cons e es)
  obtain k1 v1 where e: "e = (k1, v1)" by (cases e)
  have "k = k1 \<Longrightarrow> map_of es k = None"
    using Cons.prems e by (auto simp: map_of_eq_None_iff)
  then show ?case using Cons e by (auto simp: find_put split: option.splits)
qed simp

lemma find_write_all:
  assumes "invar src"
  shows "find (write_all src dst) k = (case find src k of None \<Rightarrow> find dst k | Some v \<Rightarrow> Some v)"
proof -
  have d: "distinct (map fst (entries src))"
    using strict_sorted_iff entries_sorted [OF assms] by blast
  have "map_of (entries src) k = find src k"
    using find_entries [OF assms, of k] d
    by (metis map_of_SomeD map_of_eq_Some_iff option.exhaust)
  then show ?thesis using find_fold_put [OF d] by (simp add: write_all_def)
qed

lemma invar_write_all: "invar dst \<Longrightarrow> invar (write_all src dst)"
proof -
  have "invar dst \<Longrightarrow> invar (fold (\<lambda>(k, v). put k v) es dst)" for es
    by (induction es arbitrary: dst) (auto intro: invar_put)
  then show "invar dst \<Longrightarrow> invar (write_all src dst)" by (simp add: write_all_def)
qed

end

subsection \<open>The association lists implement it\<close>

lemma om_find_put [simp]: "om_find (om_put k v m) k' = (if k' = k then Some v else om_find m k')"
  by (induction k v m rule: om_put.induct) (auto simp: om_find_def)

lemma om_find_Nil [simp]: "om_find [] k = None"
  by (simp add: om_find_def)

lemma om_find_erase [simp]: "om_find (om_erase k m) k' = (if k' = k then None else om_find m k')"
  by (induction m) (auto simp: om_find_def om_erase_def)

lemma fst_om_put [simp]: "fst ` set (om_put k v m) = insert k (fst ` set m)"
  by (induction k v m rule: om_put.induct) auto

lemma om_inv_Nil [simp]: "om_inv []"
  by (simp add: om_inv_def)

lemma om_inv_Cons: "om_inv ((k, v) # m) \<longleftrightarrow> (\<forall>x \<in> fst ` set m. k < x) \<and> om_inv m"
  by (auto simp: om_inv_def)

lemma om_inv_put [simp]: "om_inv m \<Longrightarrow> om_inv (om_put k v m)"
  by (induction k v m rule: om_put.induct) (auto simp: om_inv_Cons)

lemma om_inv_erase [simp]: "om_inv m \<Longrightarrow> om_inv (om_erase k m)"
  by (simp add: om_inv_def om_erase_def sorted_wrt_map sorted_wrt_filter)

lemma om_distinct: "om_inv m \<Longrightarrow> distinct (map fst m)"
  using strict_sorted_iff unfolding om_inv_def by blast

interpretation om: ordered_map "[]" om_find om_put om_erase "\<lambda>m. m" om_inv
proof
  fix m :: "('a \<times> 'b) list" and k :: 'a and v :: 'b
  assume "om_inv m"
  then show "om_find m k = Some v \<longleftrightarrow> (k, v) \<in> set m"
    using om_distinct [of m] by (simp add: om_find_def)
qed (simp_all add: om_inv_def [symmetric])

text \<open>A map is determined by its lookups, so equal content means equal iteration.\<close>

lemma om_ext:
  assumes "om_inv m" "om_inv m'" "\<And>k. om_find m k = om_find m' k"
  shows "m = m'"
  using assms
proof (induction m arbitrary: m')
  case Nil
  show ?case
  proof (cases m')
    case (Cons q ms)
    then show ?thesis using Nil.prems(3) [of "fst q"] by (simp add: om_find_def)
  qed simp
next
  case (Cons p m)
  obtain k v where p: "p = (k, v)" by (cases p)
  have min: "\<forall>x \<in> fst ` set m. k < x" using Cons.prems p by (simp add: om_inv_Cons)
  have kv: "om_find m' k = Some v" using Cons.prems(3) [of k] p by (simp add: om_find_def)
  then obtain k' v' m'' where m': "m' = (k', v') # m''"
    by (cases m') auto
  have min': "\<forall>x \<in> fst ` set m''. k' < x" using Cons.prems(2) m' by (simp add: om_inv_Cons)
  have "map_of (p # m) k' = Some v'"
    using Cons.prems(3) [of k'] m' by (simp add: om_find_def)
  then have "k' \<in> fst ` set (p # m)" by (force dest: map_of_SomeD)
  moreover have "k \<in> fst ` set m'"
    using kv by (force simp: om_find_def dest: map_of_SomeD)
  ultimately have kk: "k' = k" using min min' m' p by (auto dest: less_asym)
  then have vv: "v' = v" using kv m' by (simp add: om_find_def)
  have "om_find m x = om_find m'' x" for x
  proof (cases "x = k")
    case True
    then have "x \<notin> fst ` set m" "x \<notin> fst ` set m''" using min min' kk by auto
    then show ?thesis by (metis map_of_eq_None_iff om_find_def)
  next
    case False
    then show ?thesis using Cons.prems(3) [of x] p m' kk by (simp add: om_find_def)
  qed
  then have "m = m''"
    using Cons.IH Cons.prems p m' by (simp add: om_inv_Cons)
  then show ?case using p m' kk vv by simp
qed

subsection \<open>Sums over the values\<close>

definition om_sum :: "('k, 'v :: comm_monoid_add) stdmap \<Rightarrow> 'v" where
  "om_sum m = sum_list (map snd m)"

lemma om_sum_Nil [simp]: "om_sum [] = 0"
  by (simp add: om_sum_def)

lemma om_sum_put_new:
  "om_find m k = None \<Longrightarrow> om_sum (om_put k v m) = om_sum m + v"
  by (induction k v m rule: om_put.induct)
    (auto simp: om_sum_def om_find_def ac_simps split: if_splits)

lemma om_sum_erase:
  fixes m :: "('k :: linorder, 'v :: ab_group_add) stdmap"
  assumes "om_inv m" "om_find m k = Some v"
  shows "om_sum (om_erase k m) = om_sum m - v"
  using assms
proof (induction m)
  case (Cons p m)
  obtain k1 v1 where p: "p = (k1, v1)" by (cases p)
  show ?case
  proof (cases "k1 = k")
    case True
    then have "\<forall>q \<in> set m. fst q \<noteq> k" using Cons.prems(1) p by (auto simp: om_inv_Cons)
    then have "om_erase k m = m" by (simp add: om_erase_def)
    then show ?thesis using True Cons.prems(2) p
      by (simp add: om_erase_def om_sum_def om_find_def)
  next
    case False
    then have "om_sum (om_erase k m) = om_sum m - v"
      using Cons p by (simp add: om_inv_Cons om_find_def)
    then show ?thesis using False p by (simp add: om_erase_def om_sum_def algebra_simps)
  qed
qed simp

section \<open>\<open>core::Queue\<close>\<close>

text \<open>\<open>front()\<close> and \<open>back()\<close> of an empty \<open>std::list\<close> are undefined; the model says so with \<open>None\<close>.\<close>

type_synonym 'a queue = "'a list"

definition queue_front :: "'a queue \<Rightarrow> 'a option" where
  "queue_front q = (case q of [] \<Rightarrow> None | x # _ \<Rightarrow> Some x)"

definition queue_back :: "'a queue \<Rightarrow> 'a option" where
  "queue_back q = (if q = [] then None else Some (last q))"

definition queue_push :: "'a \<Rightarrow> 'a queue \<Rightarrow> 'a queue" where
  "queue_push x q = q @ [x]"

definition queue_pop_front :: "'a queue \<Rightarrow> 'a queue" where
  "queue_pop_front q = tl q"

definition queue_pop_back :: "'a queue \<Rightarrow> 'a queue" where
  "queue_pop_back q = butlast q"

section \<open>\<open>core::FixedQueue\<close>\<close>

definition fixed_pop_front :: "'a list \<Rightarrow> 'a list" where
  "fixed_pop_front q = (if q = [] then q else tl q)"

definition fixed_push :: "nat \<Rightarrow> 'a \<Rightarrow> 'a list \<Rightarrow> 'a list" where
  "fixed_push N x q = (if length q \<ge> N then fixed_pop_front q else q) @ [x]"

definition fixed_isExist :: "'a \<Rightarrow> 'a list \<Rightarrow> bool" where
  "fixed_isExist x q = (x \<in> set q)"

lemma fixed_push_bound: "0 < N \<Longrightarrow> length q \<le> N \<Longrightarrow> length (fixed_push N x q) \<le> N"
  by (auto simp: fixed_push_def fixed_pop_front_def)

lemma fixed_push_drop:
  assumes "0 < N" "q = drop (length xs - N) xs"
  shows "fixed_push N x q = drop (length (xs @ [x]) - N) (xs @ [x])"
proof (cases "N \<le> length xs")
  case True
  then have "length q = N" using assms by simp
  then show ?thesis using True assms
    by (auto simp: fixed_push_def fixed_pop_front_def tl_drop drop_Suc [symmetric] Suc_diff_le)
next
  case False
  then show ?thesis using assms by (simp add: fixed_push_def)
qed

end
