(* ===== verification/CodecBase.thy ===== *)
theory CodecBase
  imports RLPRoundTrip Containers
begin

text \<open>
  What the object codecs share: the overloads of \<open>RLPStream::append\<close> that the objects use, the
  reading idioms of their constructors, and the locale \<open>codec\<close>, the contract between an object's
  serialiser and its constructor from bytes, with what follows from it for sequences of objects.
\<close>

section \<open>Writing\<close>

definition append_unsigned :: "u32 \<Rightarrow> stream \<Rightarrow> exn + stream" where
  "append_unsigned n = append_bigint (uint n)"

definition append_u64 :: "u64 \<Rightarrow> stream \<Rightarrow> exn + stream" where
  "append_u64 n = append_bigint (uint n)"

definition append_u256 :: "256 word \<Rightarrow> stream \<Rightarrow> exn + stream" where
  "append_u256 n = append_bigint (uint n)"

text \<open>\<open>append(FixedHash<N>)\<close>\<close>

definition append_hash :: "nat \<Rightarrow> 'a :: len word \<Rightarrow> stream \<Rightarrow> exn + stream" where
  "append_hash N h = append_bytes (toBigEndian N (unat h)) False"

text \<open>The bytes of an object: stream it into a fresh stream and take \<open>out()\<close>; a nested object is
  appended raw.\<close>

definition getRLPData :: "(stream \<Rightarrow> exn + stream) \<Rightarrow> exn + bytes" where
  "getRLPData f = bindE (f empty_stream) out"

definition append_nested :: "exn + bytes \<Rightarrow> stream \<Rightarrow> exn + stream" where
  "append_nested d s = bindE d (\<lambda>b. appendRaw b 1 s)"

definition append_all :: "('a \<Rightarrow> exn + bytes) \<Rightarrow> 'a list \<Rightarrow> stream \<Rightarrow> exn + stream" where
  "append_all enc xs s = bindE (appendList (length xs) s) (seqE (map (\<lambda>x. append_nested (enc x)) xs))"

section \<open>Reading\<close>

definition field :: "bytes \<Rightarrow> nat \<Rightarrow> (bytes \<Rightarrow> exn + 'a) \<Rightarrow> exn + 'a" where
  "field r i conv = bindE (rlp_at r i) conv"

definition isListOf :: "nat \<Rightarrow> bytes \<Rightarrow> exn + bool" where
  "isListOf n r = (if isList r then bindE (itemCount r) (\<lambda>k. Inr (k = n)) else Inr False)"

definition read_all :: "(bytes \<Rightarrow> exn + 'a) \<Rightarrow> bytes \<Rightarrow> exn + 'a list" where
  "read_all dec r = bindE (itemCount r) (\<lambda>n. mapE (\<lambda>i. field r i dec) [0..<n])"

section \<open>Specified encodings\<close>

definition rlp_hash :: "nat \<Rightarrow> 'a :: len word \<Rightarrow> bytes" where
  "rlp_hash N h = rlp_str (toBigEndian N (unat h))"

definition rlp_word :: "'a :: len word \<Rightarrow> bytes" where
  "rlp_word w = rlp_int (unat w)"

definition item :: "bytes \<Rightarrow> bool" where
  "item e \<longleftrightarrow> (\<exists>bs. e = rlp_str bs) \<or> (\<exists>p. e = rlp_list p)"

lemma item_intros [simp, intro]:
  "item (rlp_str bs)" "item (rlp_list p)" "item (rlp_hash N h)" "item (rlp_word w)" "item (rlp_int n)"
  by (auto simp: item_def rlp_hash_def rlp_word_def rlp_int_def)

lemma reads_item: "item e \<Longrightarrow> length e < rlp_max \<Longrightarrow> \<exists>p. reads e p"
  using reads_str [OF le_less_trans [OF rlp_str_longer]] reads_list [OF le_less_trans [OF rlp_list_longer]]
  unfolding item_def by blast

lemma reads_items:
  assumes "\<forall>e \<in> set es. item e" "length (rlp_list (concat es)) < rlp_max"
  shows "\<forall>e \<in> set es. \<exists>p. reads e p"
  using assms reads_item length_concat_member rlp_list_longer [of "concat es"]
  by (meson le_less_trans)

lemma reads_RLP_new:
  assumes "reads e p"
  shows "RLP_new e VeryStrict = Inr e"
proof -
  have "actualSize (e @ []) = Inr (length e)" using assms unfolding reads_def by blast
  then show ?thesis by (simp add: RLP_new_def VeryStrict_def)
qed

text \<open>Opening an encoded list and reading its fields.\<close>

lemma list_reader:
  assumes "\<forall>e \<in> set es. item e" "length (rlp_list (concat es)) < rlp_max"
  shows "RLP_new (rlp_list (concat es)) VeryStrict = Inr (rlp_list (concat es))"
    and "isList (rlp_list (concat es))"
    and "itemCount (rlp_list (concat es)) = Inr (length es)"
    and "isListOf n (rlp_list (concat es)) = Inr (length es = n)"
    and "i < length es \<Longrightarrow> field (rlp_list (concat es)) i conv = conv (es ! i)"
proof -
  have l: "length (concat es) < rlp_max" using assms(2) rlp_list_longer [of "concat es"] by simp
  note r = reads_items [OF assms]
  show "RLP_new (rlp_list (concat es)) VeryStrict = Inr (rlp_list (concat es))"
    by (rule reads_RLP_new [OF reads_list [OF l]])
  show il: "isList (rlp_list (concat es))" using isList_list [OF l, of "[]"] by simp
  show c: "itemCount (rlp_list (concat es)) = Inr (length es)" by (rule itemCount_list [OF r l])
  show "isListOf n (rlp_list (concat es)) = Inr (length es = n)" using il c by (simp add: isListOf_def)
  show "i < length es \<Longrightarrow> field (rlp_list (concat es)) i conv = conv (es ! i)"
    using rlp_at_list [OF r l] by (simp add: field_def)
qed

lemma read_all_items:
  assumes "\<forall>e \<in> set es. item e" "length (rlp_list (concat es)) < rlp_max"
    and "\<And>i. i < length es \<Longrightarrow> dec (es ! i) = Inr (xs ! i)" and "length xs = length es"
  shows "read_all dec (rlp_list (concat es)) = Inr xs"
proof -
  have "mapE (\<lambda>i. field (rlp_list (concat es)) i dec) [0..<length es] = Inr (map ((!) xs) [0..<length es])"
    by (intro mapE_Inr) (simp add: list_reader(5) [OF assms(1,2)] assms(3))
  moreover have "map ((!) xs) [0..<length es] = xs" using map_nth [of xs] assms(4) by simp
  ultimately show ?thesis by (simp add: read_all_def list_reader(3) [OF assms(1,2)])
qed

section \<open>The appends of the objects\<close>

lemma rlp_max_small: "n < 100 \<Longrightarrow> n < rlp_max"
  by (simp add: rlp_max_def)

lemma appends_hash: "N < 100 \<Longrightarrow> appends (append_hash N h) (rlp_hash N h)"
  by (simp add: append_hash_def rlp_hash_def appends_bytes rlp_max_small)

lemma appends_word:
  fixes w :: "'a :: len word"
  assumes "LENGTH('a) \<le> 256"
  shows "appends (append_bigint (uint w)) (rlp_word w)"
proof -
  have "unat w < 2 ^ LENGTH('a)" by (rule unsigned_less)
  also have "(2 :: nat) ^ LENGTH('a) \<le> 2 ^ 256" using assms by (rule power_increasing) simp
  also have "(2 :: nat) ^ 256 \<le> 256 ^ 55" by simp
  finally show ?thesis using appends_bigint [of "unat w"] by (simp only: rlp_word_def uint_nat)
qed

lemma appends_words [simp]:
  "appends (append_unsigned n) (rlp_word n)" "appends (append_u64 w) (rlp_word w)"
  "appends (append_u256 h) (rlp_word h)"
  by (simp_all add: append_unsigned_def append_u64_def append_u256_def appends_word)

text \<open>The range of a time stamp for which \<open>append(bigint)\<close> and \<open>toInt<int64_t>\<close> are inverse.\<close>

definition timestamp_ok :: "int \<Rightarrow> bool" where
  "timestamp_ok t \<longleftrightarrow> 0 \<le> t \<and> t < 2 ^ 63"

lemma appends_timestamp: "timestamp_ok t \<Longrightarrow> appends (append_bigint t) (rlp_int (nat t))"
proof -
  assume t: "timestamp_ok t"
  then have "nat t < 2 ^ 63" by (simp add: timestamp_ok_def nat_less_iff)
  then have "nat t < 256 ^ 55" by (rule less_trans) simp
  from appends_bigint [OF this] show ?thesis using t by (simp add: timestamp_ok_def)
qed

lemma appends_out: "appends f e \<Longrightarrow> getRLPData f = Inr e"
  by (simp add: getRLPData_def out_appends)

lemma appends_nested: "d = Inr e \<Longrightarrow> appends (append_nested d) e"
  using appends_raw by (simp add: append_nested_def appends_def)

lemma appends_list':
  "list_all2 appends fs es \<Longrightarrow> length (rlp_list (concat es)) < rlp_max \<Longrightarrow> n = length fs \<Longrightarrow>
   appends (\<lambda>s. bindE (appendList n s) (seqE fs)) (rlp_list (concat es))"
  by (rule appends_list) (use rlp_list_longer [of "concat es"] in auto)

section \<open>The conversions of the objects\<close>

lemma toHash160_hash [simp]: "toHash160 (rlp_hash 20 a) = Inr a"
  by (simp add: rlp_hash_def)

lemma toHash256_hash [simp]: "toHash256 (rlp_hash 32 a) = Inr a"
  by (simp add: rlp_hash_def)

lemma toInt_word:
  fixes w :: "'a :: len word"
  assumes "LENGTH('a) \<le> 8 * k" "k < 56"
  shows "toInt k fromBigEndian flags (rlp_word w) = Inr w"
proof -
  have "unat w < 2 ^ LENGTH('a)" by (rule unsigned_less)
  also have "(2 :: nat) ^ LENGTH('a) \<le> 2 ^ (8 * k)" using assms(1) by (rule power_increasing) simp
  also have "(2 :: nat) ^ (8 * k) = 256 ^ k" by (simp add: power_mult)
  finally show ?thesis
    by (simp add: toInt_rlp_int [OF _ assms(2)] rlp_word_def fromBigEndian_val be_val_compact)
qed

lemma toInt_words [simp]:
  "toInt_u8 (rlp_word b) = Inr b" "toInt_u32 (rlp_word n) = Inr n" "toInt_u64 (rlp_word w) = Inr w"
  "toInt_u256 (rlp_word h) = Inr h"
  by (simp_all add: toInt_u8_def toInt_u32_def toInt_u64_def toInt_u256_def toInt_word)

lemma toPositiveInt64_word: "unat w < 2 ^ 63 \<Longrightarrow> toPositiveInt64 (rlp_word w) = Inr w"
  by (simp add: rlp_word_def toPositiveInt64_int)

lemma toInt_i64_timestamp: "timestamp_ok t \<Longrightarrow> toInt_i64 (rlp_int (nat t)) = Inr t"
  by (simp add: timestamp_ok_def toInt_i64_int nat_less_iff)

section \<open>The contract of a codec\<close>

text \<open>
  \<open>spec x\<close> is the encoding of an object, \<open>ok x\<close> the range in which its members can be stored,
  and \<open>norm x\<close> what comes back: equal to \<open>x\<close> for all objects but those whose constructor from bytes
  does not restore a member as it was.
\<close>

locale codec =
  fixes enc :: "'a \<Rightarrow> exn + bytes"
    and dec :: "bytes \<Rightarrow> exn + 'a"
    and spec :: "'a \<Rightarrow> bytes"
    and norm :: "'a \<Rightarrow> 'a"
    and ok :: "'a \<Rightarrow> bool"
  assumes enc_spec: "ok x \<Longrightarrow> enc x = Inr (spec x)"
    and spec_item: "ok x \<Longrightarrow> item (spec x)"
    and dec_spec: "ok x \<Longrightarrow> dec (spec x) = Inr (norm x)"
begin

lemma roundtrip: "ok x \<Longrightarrow> bindE (enc x) dec = Inr (norm x)"
  by (simp add: enc_spec dec_spec)

lemma enc_injective: "ok x \<Longrightarrow> ok y \<Longrightarrow> enc x = enc y \<Longrightarrow> norm x = norm y"
  by (metis roundtrip Inr_inject)

lemma appends_all:
  assumes "\<forall>x \<in> set xs. ok x" "length (rlp_list (concat (map spec xs))) < rlp_max"
  shows "appends (append_all enc xs) (rlp_list (concat (map spec xs)))"
proof -
  have "list_all2 appends (map (\<lambda>x. append_nested (enc x)) xs) (map spec xs)"
    using assms(1) appends_nested enc_spec by (simp add: list_all2_conv_all_nth)
  from appends_list' [OF this assms(2)] show ?thesis
    by (simp add: append_all_def [abs_def])
qed

lemma read_all_spec:
  assumes "\<forall>x \<in> set xs. ok x" "length (rlp_list (concat (map spec xs))) < rlp_max"
  shows "read_all dec (rlp_list (concat (map spec xs))) = Inr (map norm xs)"
  using assms spec_item dec_spec by (intro read_all_items) auto

end

end
