(* ===== verification/Objects.thy ===== *)
theory Objects
  imports Containers "HOL-Library.Product_Lexorder"
begin

text \<open>
  The chain's data objects (\<open>core/Account\<close>, \<open>core/Producer\<close>, \<open>core/Ballot\<close>,
  \<open>core/Transaction\<close>, \<open>core/TransactionReceipt\<close>, \<open>core/Block\<close>) as records, with the
  member functions that do not serialise. Field names carry a prefix per class in place
  of the common \<open>m_\<close>. The order on producers is shown to be a strict total order, and a
  producer snapshot keeps one entry per address.
\<close>

section \<open>Constants of \<open>config/Constant.h\<close>\<close>

definition GENESIS_TIMESTAMP :: int where "GENESIS_TIMESTAMP = 1538352000000"
definition MAX_TRANSACTIONS_PER_BLOCK :: nat where "MAX_TRANSACTIONS_PER_BLOCK = 400"
definition NUM_DELEGATED_BLOCKS :: nat where "NUM_DELEGATED_BLOCKS = 7"
definition PRODUCER_INTERVAL :: int where "PRODUCER_INTERVAL = 2000"
definition TIME_PER_ROUND :: int where
  "TIME_PER_ROUND = PRODUCER_INTERVAL * int NUM_DELEGATED_BLOCKS"
definition SCHEDULE_UPDATE_ROUNDS :: nat where "SCHEDULE_UPDATE_ROUNDS = 20"
definition TRANSACTION_FEE :: u64 where "TRANSACTION_FEE = 500000"
definition BLOCK_BONUS_BASE :: u64 where "BLOCK_BONUS_BASE = 512000000"
definition PRODUCER_COST :: u64 where "PRODUCER_COST = 1024000000"
definition MILLISECONDS_PER_YEAR :: int where "MILLISECONDS_PER_YEAR = 31536000000"

lemmas constant_defs = GENESIS_TIMESTAMP_def MAX_TRANSACTIONS_PER_BLOCK_def
  NUM_DELEGATED_BLOCKS_def PRODUCER_INTERVAL_def TIME_PER_ROUND_def SCHEDULE_UPDATE_ROUNDS_def
  TRANSACTION_FEE_def BLOCK_BONUS_BASE_def PRODUCER_COST_def MILLISECONDS_PER_YEAR_def

section \<open>Account\<close>

definition ExternalType :: u32 where "ExternalType = 1"
definition ContractType :: u32 where "ContractType = 2"

record account =
  a_address :: address
  a_type :: u32
  a_code :: bytes
  a_alive :: bool
  a_balance :: u64
  a_timestamp :: int
  a_contractAddresses :: "address list"
  a_votes :: u64
  a_candidates :: "(address, u64) stdmap"

text \<open>The global \<open>EmptyAccount\<close> has static storage, so the members without initialiser are zero.\<close>

definition EmptyAccount :: account where
  "EmptyAccount = \<lparr>a_address = 0, a_type = ExternalType, a_code = [], a_alive = False,
     a_balance = 0, a_timestamp = 0, a_contractAddresses = [], a_votes = 0, a_candidates = []\<rparr>"

definition new_account :: "address \<Rightarrow> u64 \<Rightarrow> int \<Rightarrow> account" where
  "new_account addr balance timestamp =
     \<lparr>a_address = addr, a_type = ExternalType, a_code = [], a_alive = True,
      a_balance = balance, a_timestamp = timestamp, a_contractAddresses = [], a_votes = 0,
      a_candidates = []\<rparr>"

text \<open>\<open>operator=\<close> copies every member but \<open>m_contractAddresses\<close>.\<close>

definition account_assign :: "account \<Rightarrow> account \<Rightarrow> account" where
  "account_assign this a =
     this\<lparr>a_address := a_address a, a_type := a_type a, a_code := a_code a, a_alive := a_alive a,
          a_balance := a_balance a, a_timestamp := a_timestamp a,
          a_candidates := a_candidates a, a_votes := a_votes a\<rparr>"

definition account_eq :: "account \<Rightarrow> account \<Rightarrow> bool" where
  "account_eq a b \<longleftrightarrow> a_address a = a_address b \<and> a_type a = a_type b \<and> a_alive a = a_alive b \<and>
     a_balance a = a_balance b \<and> a_timestamp a = a_timestamp b"

definition account_addVoter :: "address \<Rightarrow> u64 \<Rightarrow> account \<Rightarrow> account" where
  "account_addVoter addr value a =
     a\<lparr>a_candidates := om_put addr value (a_candidates a), a_votes := a_votes a + value\<rparr>"

definition account_clearVote :: "account \<Rightarrow> account" where
  "account_clearVote a = a\<lparr>a_candidates := [], a_votes := 0\<rparr>"

definition account_setBalance :: "u64 \<Rightarrow> account \<Rightarrow> account" where
  "account_setBalance v a = a\<lparr>a_balance := v\<rparr>"

lemma alive_not_empty: "a_alive a \<Longrightarrow> \<not> account_eq a EmptyAccount"
  by (simp add: account_eq_def EmptyAccount_def)

lemma account_assign_fresh: "account_assign EmptyAccount a = a\<lparr>a_contractAddresses := []\<rparr>"
  by (simp add: account_assign_def EmptyAccount_def)

section \<open>Producer\<close>

record producer =
  p_address :: address
  p_timestamp :: int
  p_votes :: u64
  p_voters :: "(address, u64) stdmap"

definition EmptyProducer :: producer where
  "EmptyProducer = \<lparr>p_address = 0, p_timestamp = 0, p_votes = 0, p_voters = []\<rparr>"

definition new_producer :: "address \<Rightarrow> int \<Rightarrow> producer" where
  "new_producer addr timestamp =
     \<lparr>p_address = addr, p_timestamp = timestamp, p_votes = 0, p_voters = []\<rparr>"

definition producer_eq :: "producer \<Rightarrow> producer \<Rightarrow> bool" where
  "producer_eq p q \<longleftrightarrow> p_address p = p_address q \<and> p_timestamp p = p_timestamp q"

definition producer_gt :: "producer \<Rightarrow> producer \<Rightarrow> bool" where
  "producer_gt p q =
     (if p_votes p > p_votes q then True
      else if p_votes p = p_votes q then p_address p > p_address q
      else False)"

definition producer_lt :: "producer \<Rightarrow> producer \<Rightarrow> bool" where
  "producer_lt p q =
     (if p_votes p < p_votes q then True
      else if p_votes p = p_votes q then p_address p < p_address q
      else False)"

definition producer_setVotes :: "u64 \<Rightarrow> producer \<Rightarrow> producer" where
  "producer_setVotes votes p = p\<lparr>p_votes := votes\<rparr>"

definition producer_addVoter :: "address \<Rightarrow> u64 \<Rightarrow> producer \<Rightarrow> producer" where
  "producer_addVoter voter value p =
     p\<lparr>p_voters := om_put voter value (p_voters p), p_votes := p_votes p + value\<rparr>"

definition producer_eraseVoter :: "address \<Rightarrow> producer \<Rightarrow> producer" where
  "producer_eraseVoter voter p =
     (case om_find (p_voters p) voter of
        None \<Rightarrow> p
      | Some v \<Rightarrow> p\<lparr>p_votes := p_votes p - v, p_voters := om_erase voter (p_voters p)\<rparr>)"

text \<open>The recorded total of a producer or an account is the sum of its ballot entries.\<close>

definition producer_tally :: "producer \<Rightarrow> bool" where
  "producer_tally p \<longleftrightarrow> om_inv (p_voters p) \<and> p_votes p = om_sum (p_voters p)"

definition account_tally :: "account \<Rightarrow> bool" where
  "account_tally a \<longleftrightarrow> om_inv (a_candidates a) \<and> a_votes a = om_sum (a_candidates a)"

named_theorems tally_intros \<open>operations that keep the recorded vote totals exact\<close>

lemma producer_tally_addVoter [tally_intros]:
  "producer_tally p \<Longrightarrow> om_find (p_voters p) voter = None \<Longrightarrow>
   producer_tally (producer_addVoter voter value p)"
  by (simp add: producer_tally_def producer_addVoter_def om_sum_put_new)

lemma producer_tally_eraseVoter [tally_intros]:
  "producer_tally p \<Longrightarrow> producer_tally (producer_eraseVoter voter p)"
  by (auto simp: producer_tally_def producer_eraseVoter_def om_sum_erase split: option.splits)

lemma producer_tally_new [tally_intros]: "producer_tally (new_producer addr ts)"
  by (simp add: producer_tally_def new_producer_def)

lemma account_tally_addVoter [tally_intros]:
  "account_tally a \<Longrightarrow> om_find (a_candidates a) c = None \<Longrightarrow>
   account_tally (account_addVoter c value a)"
  by (simp add: account_tally_def account_addVoter_def om_sum_put_new)

lemma account_tally_clearVote [tally_intros]: "account_tally (account_clearVote a)"
  by (simp add: account_tally_def account_clearVote_def)

subsection \<open>The producer order\<close>

text \<open>The comparators order by (votes, address), so they are strict and total on distinct keys.\<close>

definition producer_rank :: "producer \<Rightarrow> u64 \<times> address" where
  "producer_rank p = (p_votes p, p_address p)"

lemma producer_gt_rank: "producer_gt p q \<longleftrightarrow> producer_rank q < producer_rank p"
  by (auto simp: producer_gt_def producer_rank_def less_prod_def)

lemma producer_lt_rank: "producer_lt p q \<longleftrightarrow> producer_rank p < producer_rank q"
  by (auto simp: producer_lt_def producer_rank_def less_prod_def)

section \<open>Producer snapshots\<close>

record producer_snapshot =
  ps_timestamp :: int
  ps_producers :: "producer list"

definition ps_isExist :: "address \<Rightarrow> producer_snapshot \<Rightarrow> bool" where
  "ps_isExist addr ps = (\<exists>p \<in> set (ps_producers ps). p_address p = addr)"

definition ps_addProducer :: "producer \<Rightarrow> producer_snapshot \<Rightarrow> producer_snapshot" where
  "ps_addProducer p ps =
     (if \<not> ps_isExist (p_address p) ps then ps\<lparr>ps_producers := ps_producers ps @ [p]\<rparr> else ps)"

text \<open>\<open>std::find\<close> with \<open>Producer::operator==\<close>, then erase the element found.\<close>

fun erase_first :: "('a \<Rightarrow> bool) \<Rightarrow> 'a list \<Rightarrow> 'a list" where
  "erase_first P [] = []"
| "erase_first P (x # xs) = (if P x then xs else x # erase_first P xs)"

definition ps_deleteProducer :: "producer \<Rightarrow> producer_snapshot \<Rightarrow> producer_snapshot" where
  "ps_deleteProducer p ps =
     ps\<lparr>ps_producers := erase_first (\<lambda>q. producer_eq q p) (ps_producers ps)\<rparr>"

definition ps_clear :: "producer_snapshot \<Rightarrow> producer_snapshot" where
  "ps_clear ps = ps\<lparr>ps_producers := []\<rparr>"

definition ps_setTimestamp :: "int \<Rightarrow> producer_snapshot \<Rightarrow> producer_snapshot" where
  "ps_setTimestamp t ps = ps\<lparr>ps_timestamp := t\<rparr>"

definition ps_size :: "producer_snapshot \<Rightarrow> nat" where
  "ps_size ps = length (ps_producers ps)"

definition ps_inv :: "producer_snapshot \<Rightarrow> bool" where
  "ps_inv ps \<longleftrightarrow> distinct (map p_address (ps_producers ps))"

lemma set_erase_first: "set (erase_first P xs) \<subseteq> set xs"
  by (induction xs) auto

lemma distinct_erase_first: "distinct (map f xs) \<Longrightarrow> distinct (map f (erase_first P xs))"
  by (induction xs) (use set_erase_first in fastforce)+

lemma ps_inv_addProducer: "ps_inv ps \<Longrightarrow> ps_inv (ps_addProducer p ps)"
  by (auto simp: ps_inv_def ps_addProducer_def ps_isExist_def)

lemma ps_inv_deleteProducer: "ps_inv ps \<Longrightarrow> ps_inv (ps_deleteProducer p ps)"
  by (simp add: ps_inv_def ps_deleteProducer_def distinct_erase_first)

lemma ps_inv_clear: "ps_inv (ps_clear ps)"
  by (simp add: ps_inv_def ps_clear_def)

lemma ps_isExist_addProducer: "ps_isExist (p_address p) (ps_addProducer p ps)"
  by (auto simp: ps_isExist_def ps_addProducer_def)

section \<open>Ballot\<close>

record candidate =
  c_address :: address
  c_value :: u64

type_synonym ballot = "candidate list"

definition ballot_put :: "address \<Rightarrow> u64 \<Rightarrow> ballot \<Rightarrow> ballot" where
  "ballot_put addr value b = b @ [\<lparr>c_address = addr, c_value = value\<rparr>]"

section \<open>Signature, transaction, receipt\<close>

record sigstruct =
  sig_r :: h256
  sig_s :: h256
  sig_v :: byte

definition s_max :: h256 where
  "s_max = 0xfffffffffffffffffffffffffffffffebaaedce6af48a03bbfd25e8cd0364141"

definition sig_isValid :: "sigstruct \<Rightarrow> bool" where
  "sig_isValid sg \<longleftrightarrow>
     sig_v sg \<le> 1 \<and> sig_r sg > 0 \<and> sig_s sg > 0 \<and> sig_r sg < s_max \<and> sig_s sg < s_max"

definition empty_sig :: sigstruct where
  "empty_sig = \<lparr>sig_r = 0, sig_s = 0, sig_v = 0\<rparr>"

definition VoteType :: u32 where "VoteType = 0x0"
definition TransferType :: u32 where "TransferType = 0x01"
definition BeenProducerType :: u32 where "BeenProducerType = 0x02"

record transaction =
  t_chainID :: u64
  t_type :: u32
  t_sender :: address
  t_recipient :: address
  t_timestamp :: int
  t_data :: bytes
  t_value :: u64
  t_signature :: sigstruct

definition EmptyTransaction :: transaction where
  "EmptyTransaction = \<lparr>t_chainID = 0, t_type = 0, t_sender = 0, t_recipient = 0, t_timestamp = 0,
     t_data = [], t_value = 0, t_signature = empty_sig\<rparr>"

record receipt =
  rc_code :: u32
  rc_stateRoot :: h256
  rc_isCode :: bool

section \<open>Block\<close>

definition GSE_UNKNOWN_NETWORK :: u64 where "GSE_UNKNOWN_NETWORK = 0xFFFFFFFFFFFFFFFF"

record block_header =
  h_chainID :: u64
  h_producer :: address
  h_parentHash :: h256
  h_mklRoot :: h256
  h_transactionsRoot :: h256
  h_receiptRoot :: h256
  h_number :: u64
  h_timestamp :: int
  h_extra :: bytes
  h_signature :: sigstruct

record block =
  b_header :: block_header
  b_transactions :: "transaction list"
  b_receipts :: "receipt list"
  b_syncBlock :: bool

definition empty_header :: block_header where
  "empty_header = \<lparr>h_chainID = GSE_UNKNOWN_NETWORK, h_producer = 0, h_parentHash = 0, h_mklRoot = 0,
     h_transactionsRoot = 0, h_receiptRoot = 0, h_number = 0, h_timestamp = 0, h_extra = [],
     h_signature = empty_sig\<rparr>"

definition EmptyBlock :: block where
  "EmptyBlock = \<lparr>b_header = empty_header, b_transactions = [], b_receipts = [], b_syncBlock = False\<rparr>"

definition block_number :: "block \<Rightarrow> u64" where
  "block_number b = h_number (b_header b)"

definition block_timestamp :: "block \<Rightarrow> int" where
  "block_timestamp b = h_timestamp (b_header b)"

definition block_producer :: "block \<Rightarrow> address" where
  "block_producer b = h_producer (b_header b)"

definition block_parentHash :: "block \<Rightarrow> h256" where
  "block_parentHash b = h_parentHash (b_header b)"

lemmas block_getters = block_number_def block_timestamp_def block_producer_def block_parentHash_def

definition header_setRoots :: "h256 \<Rightarrow> h256 \<Rightarrow> h256 \<Rightarrow> block_header \<Rightarrow> block_header" where
  "header_setRoots mkl t r h = h\<lparr>h_mklRoot := mkl, h_transactionsRoot := t, h_receiptRoot := r\<rparr>"

definition header_clear :: "block_header \<Rightarrow> block_header" where
  "header_clear h = \<lparr>h_chainID = 0, h_producer = 0, h_parentHash = 0, h_mklRoot = 0,
     h_transactionsRoot = 0, h_receiptRoot = 0, h_number = 0, h_timestamp = 0, h_extra = [],
     h_signature = empty_sig\<rparr>"

definition header_eq :: "block_header \<Rightarrow> block_header \<Rightarrow> bool" where
  "header_eq a b \<longleftrightarrow> h_chainID a = h_chainID b \<and> h_producer a = h_producer b \<and>
     h_parentHash a = h_parentHash b \<and> h_mklRoot a = h_mklRoot b \<and>
     h_transactionsRoot a = h_transactionsRoot b \<and> h_receiptRoot a = h_receiptRoot b \<and>
     h_number a = h_number b \<and> h_timestamp a = h_timestamp b \<and> h_extra a = h_extra b"

definition block_addTransaction :: "transaction \<Rightarrow> block \<Rightarrow> block" where
  "block_addTransaction tx b = b\<lparr>b_transactions := b_transactions b @ [tx]\<rparr>"

definition block_setSyncBlock :: "block \<Rightarrow> block" where
  "block_setSyncBlock b = b\<lparr>b_syncBlock := True\<rparr>"

end
