(* ===== verification/Codecs.thy ===== *)
theory Codecs
  imports CodecBase Objects
begin

text \<open>
  \<open>streamRLP\<close> and the constructors from bytes of the chain's objects, each pair interpreted as a
  \<open>codec\<close>. The encodings are specified independently of the stream as the list of items an object
  consists of.
\<close>

section \<open>Vote tables\<close>

text \<open>\<open>for (auto i : m) stream << i.first << (bigint)i.second\<close>, and the loop that reads two items per
  turn.\<close>

definition stream_votes :: "(address, u64) stdmap \<Rightarrow> stream \<Rightarrow> exn + stream" where
  "stream_votes m s = bindE (appendList (length m * 2) s)
     (seqE (concat (map (\<lambda>(k, v). [append_hash 20 k, append_u64 v]) m)))"

function votes_loop ::
  "(bytes \<Rightarrow> exn + u64) \<Rightarrow> bytes \<Rightarrow> nat \<Rightarrow> nat \<Rightarrow> (address, u64) stdmap \<Rightarrow> exn + (address, u64) stdmap" where
  "votes_loop conv r n i m =
     (if i < n
      then bindE (field r i toHash160) (\<lambda>a. bindE (field r (i + 1) conv) (\<lambda>v.
             votes_loop conv r n (i + 2) (om_put a v m)))
      else Inr m)"
  by pat_completeness auto
termination by (relation "measure (\<lambda>(conv, r, n, i, m). n - i)") auto

declare votes_loop.simps [simp del]

definition read_votes :: "(bytes \<Rightarrow> exn + u64) \<Rightarrow> bytes \<Rightarrow> exn + (address, u64) stdmap" where
  "read_votes conv d =
     bindE (RLP_new d VeryStrict) (\<lambda>r. bindE (itemCount r) (\<lambda>n. votes_loop conv r n 0 []))"

definition votes_items :: "(address, u64) stdmap \<Rightarrow> bytes list" where
  "votes_items m = concat (map (\<lambda>(k, v). [rlp_hash 20 k, rlp_word v]) m)"

lemma length_votes_items [simp]: "length (votes_items m) = length m * 2"
  by (induction m) (auto simp: votes_items_def)

lemma votes_items_nth:
  "i < length m \<Longrightarrow> votes_items m ! (2 * i) = rlp_hash 20 (fst (m ! i)) \<and>
     votes_items m ! Suc (2 * i) = rlp_word (snd (m ! i))"
proof (induction m arbitrary: i)
  case (Cons p m)
  then show ?case by (cases i) (auto simp: votes_items_def split: prod.splits)
qed simp

lemma votes_items_item: "\<forall>e \<in> set (votes_items m). item e"
  by (auto simp: votes_items_def)

lemma appends_votes:
  assumes "length (rlp_list (concat (votes_items m))) < rlp_max"
  shows "appends (stream_votes m) (rlp_list (concat (votes_items m)))"
proof -
  let ?fs = "concat (map (\<lambda>(k, v). [append_hash 20 k, append_u64 v]) m)"
  have "list_all2 appends ?fs (votes_items m)"
    by (induction m) (auto simp: votes_items_def appends_hash)
  moreover have "length m * 2 = length ?fs" by (induction m) auto
  ultimately show ?thesis
    using appends_list' assms by (simp add: stream_votes_def [abs_def])
qed

text \<open>Reading inserts the entries in key order, which rebuilds the map.\<close>

lemma votes_loop_items:
  assumes l: "length (rlp_list (concat (votes_items m))) < rlp_max"
    and conv: "\<And>k v. (k, v) \<in> set m \<Longrightarrow> conv (rlp_word v) = Inr v" and "i \<le> length m"
  shows "votes_loop conv (rlp_list (concat (votes_items m))) (length m * 2) (2 * i) acc =
         Inr (fold (\<lambda>(k, v). om_put k v) (drop i m) acc)"
  using assms(3)
proof (induction "length m - i" arbitrary: i acc)
  case 0
  then show ?case by (subst votes_loop.simps) simp
next
  case (Suc n)
  then have i: "i < length m" by simp
  let ?r = "rlp_list (concat (votes_items m))"
  have "conv (rlp_word (snd (m ! i))) = Inr (snd (m ! i))"
    using i by (intro conv [of "fst (m ! i)"]) simp
  then have "field ?r (2 * i) toHash160 = Inr (fst (m ! i))"
    "field ?r (2 * i + 1) conv = Inr (snd (m ! i))"
    using i by (simp_all add: list_reader(5) [OF votes_items_item l] votes_items_nth)
  moreover have "votes_loop conv ?r (length m * 2) (2 * Suc i) (om_put (fst (m ! i)) (snd (m ! i)) acc) =
      Inr (fold (\<lambda>(k, v). om_put k v) (drop (Suc i) m) (om_put (fst (m ! i)) (snd (m ! i)) acc))"
    using Suc by (intro Suc.hyps(1)) auto
  ultimately show ?case using i
    by (subst votes_loop.simps) (simp add: Cons_nth_drop_Suc [symmetric] split: prod.splits)
qed

lemma fold_put_self: "om_inv m \<Longrightarrow> fold (\<lambda>(k, v). om_put k v) m [] = m"
proof -
  assume m: "om_inv m"
  have "om_find (fold (\<lambda>(k, v). om_put k v) m []) k = om_find m k" for k
    using om.find_write_all [OF m, of "[]" k] unfolding om.write_all_def
    by (simp split: option.splits)
  moreover have "om_inv (fold (\<lambda>(k, v). om_put k v) m [])"
    using om.invar_write_all [of "[]" m] unfolding om.write_all_def by simp
  ultimately show ?thesis using m by (intro om_ext)
qed

lemma read_votes_items:
  assumes "length (rlp_list (concat (votes_items m))) < rlp_max" "om_inv m"
    and "\<And>k v. (k, v) \<in> set m \<Longrightarrow> conv (rlp_word v) = Inr v"
  shows "read_votes conv (rlp_list (concat (votes_items m))) = Inr m"
  using votes_loop_items [where i = 0 and acc = "[]" and conv = conv, OF assms(1,3)]
  by (simp add: read_votes_def fold_put_self [OF assms(2)] list_reader [OF votes_items_item assms(1)])

section \<open>Account\<close>

definition ACCOUNT_COMMON_FIELDS :: nat where "ACCOUNT_COMMON_FIELDS = 9"

definition stream_addresses :: "address list \<Rightarrow> stream \<Rightarrow> exn + stream" where
  "stream_addresses xs s = bindE (appendList (length xs) s) (seqE (map (append_hash 20) xs))"

definition account_streamRLP :: "account \<Rightarrow> stream \<Rightarrow> exn + stream" where
  "account_streamRLP a s =
     bindE (appendList ACCOUNT_COMMON_FIELDS s) (seqE
       [append_hash 20 (a_address a),
        append_unsigned (a_type a),
        append_bytes (a_code a) False,
        append_unsigned (if a_alive a then 1 else 0),
        append_u64 (a_balance a),
        append_bigint (a_timestamp a),
        append_nested (getRLPData (stream_addresses (a_contractAddresses a))),
        append_u64 (a_votes a),
        append_nested (getRLPData (stream_votes (a_candidates a)))])"

definition account_getRLPData :: "account \<Rightarrow> exn + bytes" where
  "account_getRLPData a = getRLPData (account_streamRLP a)"

definition account_decode :: "bytes \<Rightarrow> exn + account" where
  "account_decode data = rethrow_Exception
     (bindE (RLP_new data VeryStrict) (\<lambda>r.
      bindE (isListOf ACCOUNT_COMMON_FIELDS r) (\<lambda>good.
      if \<not> good then Inl RangeError else
      bindE (field r 0 toHash160) (\<lambda>addr.
      bindE (field r 1 toInt_u32) (\<lambda>ty.
      bindE (field r 2 Inr) (\<lambda>code.
      bindE (field r 3 toInt_u8) (\<lambda>alive.
      bindE (field r 4 toPositiveInt64) (\<lambda>balance.
      bindE (field r 5 toInt_i64) (\<lambda>ts.
      bindE (field r 6 (\<lambda>d. bindE (RLP_new d VeryStrict) (read_all toHash160))) (\<lambda>cas.
      bindE (field r 7 toPositiveInt64) (\<lambda>votes.
      bindE (field r 8 (read_votes toPositiveInt64)) (\<lambda>cands.
        Inr \<lparr>a_address = addr, a_type = ty, a_code = code, a_alive = (alive \<noteq> 0),
             a_balance = balance, a_timestamp = ts, a_contractAddresses = cas, a_votes = votes,
             a_candidates = cands\<rparr>))))))))))))"

definition account_items :: "account \<Rightarrow> bytes list" where
  "account_items a =
     [rlp_hash 20 (a_address a), rlp_word (a_type a), rlp_str (a_code a),
      rlp_word (if a_alive a then 1 else 0 :: u32), rlp_word (a_balance a), rlp_int (nat (a_timestamp a)),
      rlp_list (concat (map (rlp_hash 20) (a_contractAddresses a))), rlp_word (a_votes a),
      rlp_list (concat (votes_items (a_candidates a)))]"

definition account_rlp :: "account \<Rightarrow> bytes" where
  "account_rlp a = rlp_list (concat (account_items a))"

text \<open>The accounts that can be stored: balances and votes are read back as positive signed numbers.\<close>

definition account_ok :: "account \<Rightarrow> bool" where
  "account_ok a \<longleftrightarrow> om_inv (a_candidates a) \<and> timestamp_ok (a_timestamp a) \<and>
     unat (a_balance a) < 2 ^ 63 \<and> unat (a_votes a) < 2 ^ 63 \<and>
     (\<forall>(k, v) \<in> set (a_candidates a). unat v < 2 ^ 63) \<and> length (account_rlp a) < rlp_max"

text \<open>\<open>m_code = rlp[2].data()\<close> keeps the item's header in front of the code.\<close>

definition account_stored :: "account \<Rightarrow> account" where
  "account_stored a = a\<lparr>a_code := rlp_str (a_code a)\<rparr>"

lemma item_bound:
  assumes "length (rlp_list (concat es)) < rlp_max" "e \<in> set es"
  shows "length e < rlp_max"
  using assms length_concat_member [OF assms(2)] rlp_list_longer [of "concat es"] by linarith

lemma length_account_items [simp]: "length (account_items a) = 9"
  by (simp add: account_items_def)

lemma account_items_item: "\<forall>e \<in> set (account_items a). item e"
  by (simp add: account_items_def)

lemma appends_addresses:
  assumes "length (rlp_list (concat (map (rlp_hash 20) xs))) < rlp_max"
  shows "appends (stream_addresses xs) (rlp_list (concat (map (rlp_hash 20) xs)))"
proof -
  have "list_all2 appends (map (append_hash 20) xs) (map (rlp_hash 20) xs)"
    by (induction xs) (simp_all add: appends_hash)
  from appends_list' [OF this assms] show ?thesis by (simp add: stream_addresses_def [abs_def])
qed

lemma account_bounds:
  assumes "account_ok a"
  shows "length (rlp_list (concat (map (rlp_hash 20) (a_contractAddresses a)))) < rlp_max"
    and "length (rlp_list (concat (votes_items (a_candidates a)))) < rlp_max"
    and "length (a_code a) < rlp_max"
proof -
  have l: "length (rlp_list (concat (account_items a))) < rlp_max"
    using assms by (simp add: account_ok_def account_rlp_def)
  note b = item_bound [OF l]
  show "length (rlp_list (concat (map (rlp_hash 20) (a_contractAddresses a)))) < rlp_max"
    "length (rlp_list (concat (votes_items (a_candidates a)))) < rlp_max"
    by (rule b, simp add: account_items_def)+
  have "length (rlp_str (a_code a)) < rlp_max" by (rule b) (simp add: account_items_def)
  then show "length (a_code a) < rlp_max" using rlp_str_longer [of "a_code a"] by simp
qed

lemma appends_account:
  assumes "account_ok a"
  shows "appends (account_streamRLP a) (account_rlp a)"
  unfolding account_streamRLP_def [abs_def] account_rlp_def ACCOUNT_COMMON_FIELDS_def
proof (rule appends_list')
  note b = account_bounds [OF assms]
  show "list_all2 appends
       [append_hash 20 (a_address a), append_unsigned (a_type a), append_bytes (a_code a) False,
        append_unsigned (if a_alive a then 1 else 0), append_u64 (a_balance a),
        append_bigint (a_timestamp a),
        append_nested (getRLPData (stream_addresses (a_contractAddresses a))),
        append_u64 (a_votes a), append_nested (getRLPData (stream_votes (a_candidates a)))]
     (account_items a)"
    unfolding account_items_def
    using assms appends_timestamp [of "a_timestamp a"] appends_bytes [OF b(3)]
      appends_nested [OF appends_out [OF appends_addresses [OF b(1)]]]
      appends_nested [OF appends_out [OF appends_votes [OF b(2)]]]
    by (simp add: appends_hash account_ok_def)
qed (use assms in \<open>simp_all add: account_ok_def account_rlp_def\<close>)

lemma read_addresses:
  assumes "length (rlp_list (concat (map (rlp_hash 20) xs))) < rlp_max"
  shows "bindE (RLP_new (rlp_list (concat (map (rlp_hash 20) xs))) VeryStrict) (read_all toHash160) = Inr xs"
proof -
  have i: "\<forall>e \<in> set (map (rlp_hash 20) xs). item e" by auto
  have "read_all toHash160 (rlp_list (concat (map (rlp_hash 20) xs))) = Inr xs"
    by (rule read_all_items [OF i assms]) simp_all
  then show ?thesis unfolding list_reader(1) [OF i assms] by simp
qed

lemma account_decode_rlp:
  assumes "account_ok a"
  shows "account_decode (account_rlp a) = Inr (account_stored a)"
proof -
  have l: "length (rlp_list (concat (account_items a))) < rlp_max"
    using assms by (simp add: account_ok_def account_rlp_def)
  note r = list_reader [OF account_items_item l]
  note b = account_bounds [OF assms]
  have v: "read_votes toPositiveInt64 (rlp_list (concat (votes_items (a_candidates a)))) =
      Inr (a_candidates a)"
    using assms by (intro read_votes_items [OF b(2)]) (auto simp: account_ok_def intro!: toPositiveInt64_word)
  have alive: "toInt_u8 (rlp_word (if a_alive a then 1 else 0 :: u32)) = Inr (if a_alive a then 1 else 0)"
    using toInt_words(1) [of "if a_alive a then 1 else 0"] by (simp add: rlp_word_def split: if_splits)
  show ?thesis
    using assms
    by (simp add: account_decode_def account_rlp_def r ACCOUNT_COMMON_FIELDS_def)
      (simp add: account_items_def v alive read_addresses [OF b(1)] toPositiveInt64_word
        toInt_i64_timestamp account_ok_def account_stored_def)
qed

interpretation account_codec: codec account_getRLPData account_decode account_rlp account_stored account_ok
  by unfold_locales
    (simp_all add: account_getRLPData_def account_decode_rlp appends_out [OF appends_account] account_rlp_def
      account_decode_rlp [unfolded account_rlp_def])

section \<open>Producer\<close>

definition PRODUCER_FIELDS :: nat where "PRODUCER_FIELDS = 4"

definition producer_streamRLP :: "producer \<Rightarrow> stream \<Rightarrow> exn + stream" where
  "producer_streamRLP p s =
     bindE (appendList PRODUCER_FIELDS s) (seqE
       [append_hash 20 (p_address p),
        append_bigint (p_timestamp p),
        append_u64 (p_votes p),
        append_nested (getRLPData (stream_votes (p_voters p)))])"

definition producer_getRLPData :: "producer \<Rightarrow> exn + bytes" where
  "producer_getRLPData p = getRLPData (producer_streamRLP p)"

definition producer_decode :: "bytes \<Rightarrow> exn + producer" where
  "producer_decode data = rethrow_Exception
     (bindE (RLP_new data VeryStrict) (\<lambda>r.
      bindE (isListOf PRODUCER_FIELDS r) (\<lambda>good.
      if \<not> good then Inl RangeError else
      bindE (field r 0 toHash160) (\<lambda>addr.
      bindE (field r 1 toInt_i64) (\<lambda>ts.
      bindE (field r 2 toInt_u64) (\<lambda>votes.
      bindE (field r 3 (read_votes toInt_u64)) (\<lambda>voters.
        Inr \<lparr>p_address = addr, p_timestamp = ts, p_votes = votes, p_voters = voters\<rparr>)))))))"

definition producer_items :: "producer \<Rightarrow> bytes list" where
  "producer_items p =
     [rlp_hash 20 (p_address p), rlp_int (nat (p_timestamp p)), rlp_word (p_votes p),
      rlp_list (concat (votes_items (p_voters p)))]"

definition producer_rlp :: "producer \<Rightarrow> bytes" where
  "producer_rlp p = rlp_list (concat (producer_items p))"

definition producer_ok :: "producer \<Rightarrow> bool" where
  "producer_ok p \<longleftrightarrow> om_inv (p_voters p) \<and> timestamp_ok (p_timestamp p) \<and>
     length (producer_rlp p) < rlp_max"

lemma length_producer_items [simp]: "length (producer_items p) = 4"
  by (simp add: producer_items_def)

lemma producer_items_item: "\<forall>e \<in> set (producer_items p). item e"
  by (simp add: producer_items_def)

lemma producer_bound:
  assumes "producer_ok p"
  shows "length (rlp_list (concat (votes_items (p_voters p)))) < rlp_max"
  by (rule item_bound [of "producer_items p"])
    (use assms in \<open>simp_all add: producer_ok_def producer_rlp_def producer_items_def\<close>)

lemma appends_producer:
  assumes "producer_ok p"
  shows "appends (producer_streamRLP p) (producer_rlp p)"
  unfolding producer_streamRLP_def [abs_def] producer_rlp_def PRODUCER_FIELDS_def
proof (rule appends_list')
  show "list_all2 appends
     [append_hash 20 (p_address p), append_bigint (p_timestamp p), append_u64 (p_votes p),
      append_nested (getRLPData (stream_votes (p_voters p)))] (producer_items p)"
    unfolding producer_items_def
    using assms appends_timestamp [of "p_timestamp p"]
      appends_nested [OF appends_out [OF appends_votes [OF producer_bound [OF assms]]]]
    by (simp add: appends_hash producer_ok_def)
qed (use assms in \<open>simp_all add: producer_ok_def producer_rlp_def\<close>)

lemma producer_decode_rlp:
  assumes "producer_ok p"
  shows "producer_decode (producer_rlp p) = Inr p"
proof -
  have l: "length (rlp_list (concat (producer_items p))) < rlp_max"
    using assms by (simp add: producer_ok_def producer_rlp_def)
  note r = list_reader [OF producer_items_item l]
  have v: "read_votes toInt_u64 (rlp_list (concat (votes_items (p_voters p)))) = Inr (p_voters p)"
    using assms by (intro read_votes_items [OF producer_bound [OF assms]]) (auto simp: producer_ok_def)
  show ?thesis
    using assms
    by (simp add: producer_decode_def producer_rlp_def r PRODUCER_FIELDS_def)
      (simp add: producer_items_def v toInt_i64_timestamp producer_ok_def)
qed

interpretation producer_codec: codec producer_getRLPData producer_decode producer_rlp "\<lambda>p. p" producer_ok
  by unfold_locales
    (simp_all add: producer_getRLPData_def producer_decode_rlp appends_out [OF appends_producer]
      producer_rlp_def producer_decode_rlp [unfolded producer_rlp_def])

section \<open>Producer snapshots\<close>

definition snapshot_streamRLP :: "producer_snapshot \<Rightarrow> stream \<Rightarrow> exn + stream" where
  "snapshot_streamRLP ps s =
     bindE (appendList (1 + length (ps_producers ps)) s) (seqE
       (append_bigint (ps_timestamp ps) #
        map (\<lambda>p. append_nested (producer_getRLPData p)) (ps_producers ps)))"

definition snapshot_getRLPData :: "producer_snapshot \<Rightarrow> exn + bytes" where
  "snapshot_getRLPData ps = getRLPData (snapshot_streamRLP ps)"

text \<open>\<open>push_back\<close> in a loop that the first exception leaves; the handler \<open>catch (...)\<close> swallows it, and
  what was pushed before stays.\<close>

fun push_until :: "('i \<Rightarrow> exn + 'a) \<Rightarrow> 'i list \<Rightarrow> 'a list \<Rightarrow> 'a list" where
  "push_until f [] acc = acc"
| "push_until f (i # is) acc = (case f i of Inl _ \<Rightarrow> acc | Inr x \<Rightarrow> push_until f is (acc @ [x]))"

definition snapshot_populate :: "bytes \<Rightarrow> producer_snapshot \<Rightarrow> producer_snapshot" where
  "snapshot_populate data ps0 =
     (let ps = ps0\<lparr>ps_producers := []\<rparr> in
      case bindE (RLP_new data VeryStrict) (\<lambda>r. bindE (itemCount r) (\<lambda>n. Inr (r, n))) of
        Inl _ \<Rightarrow> ps
      | Inr (r, n) \<Rightarrow>
          if isList r \<and> n > 0
          then (case field r 0 toInt_i64 of
                  Inl _ \<Rightarrow> ps
                | Inr t \<Rightarrow> ps\<lparr>ps_timestamp := t,
                               ps_producers := push_until (\<lambda>i. field r i producer_decode) [1..<n] []\<rparr>)
          else ps)"

definition snapshot_items :: "producer_snapshot \<Rightarrow> bytes list" where
  "snapshot_items ps = rlp_int (nat (ps_timestamp ps)) # map producer_rlp (ps_producers ps)"

definition snapshot_rlp :: "producer_snapshot \<Rightarrow> bytes" where
  "snapshot_rlp ps = rlp_list (concat (snapshot_items ps))"

definition snapshot_ok :: "producer_snapshot \<Rightarrow> bool" where
  "snapshot_ok ps \<longleftrightarrow> timestamp_ok (ps_timestamp ps) \<and> list_all producer_ok (ps_producers ps) \<and>
     length (snapshot_rlp ps) < rlp_max"

lemma push_until_all:
  "(\<And>i. i \<in> set is \<Longrightarrow> f i = Inr (g i)) \<Longrightarrow> push_until f is acc = acc @ map g is"
  by (induction "is" arbitrary: acc) simp_all

lemma snapshot_items_item: "\<forall>e \<in> set (snapshot_items ps). item e"
  by (auto simp: snapshot_items_def producer_rlp_def)

lemma snapshot_getRLPData_ok:
  assumes "snapshot_ok ps"
  shows "snapshot_getRLPData ps = Inr (snapshot_rlp ps)"
proof -
  let ?ops = "map (\<lambda>p. append_nested (producer_getRLPData p)) (ps_producers ps)"
  have "list_all2 appends ?ops (map producer_rlp (ps_producers ps))"
    using assms appends_nested producer_codec.enc_spec
    by (simp add: list_all2_conv_all_nth snapshot_ok_def list_all_length)
  then have "list_all2 appends (append_bigint (ps_timestamp ps) # ?ops) (snapshot_items ps)"
    using assms appends_timestamp by (simp add: snapshot_items_def snapshot_ok_def)
  from appends_list' [OF this] have "appends (snapshot_streamRLP ps) (snapshot_rlp ps)"
    using assms by (simp add: snapshot_streamRLP_def [abs_def] snapshot_rlp_def snapshot_ok_def)
  then show ?thesis by (simp add: snapshot_getRLPData_def appends_out)
qed

lemma snapshot_populate_rlp:
  assumes "snapshot_ok ps"
  shows "snapshot_populate (snapshot_rlp ps) ps0 = ps"
proof -
  have l: "length (rlp_list (concat (snapshot_items ps))) < rlp_max"
    using assms by (simp add: snapshot_ok_def snapshot_rlp_def)
  note r = list_reader [OF snapshot_items_item l]
  have n: "length (snapshot_items ps) = Suc (length (ps_producers ps))"
    by (simp add: snapshot_items_def)
  have t: "field (snapshot_rlp ps) 0 toInt_i64 = Inr (ps_timestamp ps)"
    using assms r(5) [of 0 toInt_i64] n
    by (simp add: snapshot_rlp_def) (simp add: snapshot_items_def toInt_i64_timestamp snapshot_ok_def)
  have p: "field (snapshot_rlp ps) i producer_decode = Inr (ps_producers ps ! (i - 1))"
    if "i \<in> set [1..<Suc (length (ps_producers ps))]" for i
  proof -
    have i: "i < length (snapshot_items ps)" "0 < i" using that n by auto
    then have "producer_ok (ps_producers ps ! (i - 1))"
      using assms n by (simp add: snapshot_ok_def list_all_length)
    then show ?thesis
      using i n by (simp add: snapshot_rlp_def r(5) [OF i(1)])
        (simp add: snapshot_items_def nth_Cons' producer_decode_rlp)
  qed
  have "push_until (\<lambda>i. field (snapshot_rlp ps) i producer_decode) [1..<Suc (length (ps_producers ps))] [] =
      map (\<lambda>i. ps_producers ps ! (i - 1)) [1..<Suc (length (ps_producers ps))]"
    by (rule trans [OF push_until_all [OF p]]) simp_all
  also have "\<dots> = ps_producers ps"
    by (rule nth_equalityI) (simp_all del: upt_Suc)
  finally show ?thesis
    using t by (simp add: snapshot_populate_def snapshot_rlp_def r n Let_def)
qed

end
