(* ===== verification/BlockCodecs.thy ===== *)
theory BlockCodecs
  imports Codecs
begin

text \<open>
  The codecs of ballots, transactions, receipts, block headers and blocks, and of the attribute
  states kept in the database.
\<close>

section \<open>Candidate and ballot\<close>

definition candidate_streamRLP :: "candidate \<Rightarrow> stream \<Rightarrow> exn + stream" where
  "candidate_streamRLP c s =
     bindE (appendList 2 s) (seqE [append_hash 20 (c_address c), append_u64 (c_value c)])"

definition candidate_getRLPData :: "candidate \<Rightarrow> exn + bytes" where
  "candidate_getRLPData c = getRLPData (candidate_streamRLP c)"

text \<open>\<open>catch (DeserializeException e) { throw e; } catch (Exception e) { throw DeserializeException; }\<close>\<close>

definition as_Deserialize :: "exn + 'a \<Rightarrow> exn + 'a" where
  "as_Deserialize m = catchE m (\<lambda>e. Inl (if is_Exception e then DeserializeException else e))"

lemma as_Deserialize_Inr [simp]: "as_Deserialize (Inr a) = Inr a"
  by (simp add: as_Deserialize_def)

definition candidate_decode :: "bytes \<Rightarrow> exn + candidate" where
  "candidate_decode data = as_Deserialize
     (bindE (RLP_new data VeryStrict) (\<lambda>r.
      bindE (isListOf 2 r) (\<lambda>good.
      if \<not> good then Inl DeserializeException else
      bindE (field r 0 toHash160) (\<lambda>addr.
      bindE (field r 1 toInt_u64) (\<lambda>value.
        Inr \<lparr>c_address = addr, c_value = value\<rparr>)))))"

definition candidate_items :: "candidate \<Rightarrow> bytes list" where
  "candidate_items c = [rlp_hash 20 (c_address c), rlp_word (c_value c)]"

definition candidate_rlp :: "candidate \<Rightarrow> bytes" where
  "candidate_rlp c = rlp_list (concat (candidate_items c))"

definition ballot_streamRLP :: "ballot \<Rightarrow> stream \<Rightarrow> exn + stream" where
  "ballot_streamRLP b = append_all candidate_getRLPData b"

definition ballot_getRLPData :: "ballot \<Rightarrow> exn + bytes" where
  "ballot_getRLPData b = getRLPData (ballot_streamRLP b)"

definition ballot_decode :: "bytes \<Rightarrow> exn + ballot" where
  "ballot_decode data = as_Deserialize
     (bindE (RLP_new data VeryStrict) (\<lambda>r.
      bindE (itemCount r) (\<lambda>n.
      if isList r \<and> n > 0 then read_all candidate_decode r else Inl DeserializeException)))"

definition ballot_rlp :: "ballot \<Rightarrow> bytes" where
  "ballot_rlp b = rlp_list (concat (map candidate_rlp b))"

definition ballot_ok :: "ballot \<Rightarrow> bool" where
  "ballot_ok b \<longleftrightarrow> b \<noteq> [] \<and> length (ballot_rlp b) < rlp_max"

lemma length_candidate_items [simp]: "length (candidate_items c) = 2"
  by (simp add: candidate_items_def)

lemma candidate_items_item: "\<forall>e \<in> set (candidate_items c). item e"
  by (simp add: candidate_items_def)

lemma rlp_str_le: "length bs < 56 \<Longrightarrow> length (rlp_str bs) \<le> length bs + 1"
  by (simp add: rlp_str_def rlp_header_def)

lemma rlp_list_le: "length p < 56 \<Longrightarrow> length (rlp_list p) \<le> length p + 1"
  by (simp add: rlp_list_def rlp_header_def)

lemma candidate_length: "length (candidate_rlp c) \<le> 31"
proof -
  have "unat (c_value c) < 256 ^ 8" by (rule u64_bound)
  then have "bytesRequired (unat (c_value c)) \<le> 8" by (rule bytesRequired_le)
  then have "length (rlp_word (c_value c)) \<le> 9"
    using rlp_str_le [of "toBigEndian (bytesRequired (unat (c_value c))) (unat (c_value c))"]
    by (simp add: rlp_word_def rlp_int_def)
  moreover have "length (rlp_hash 20 (c_address c)) \<le> 21"
    using rlp_str_le [of "toBigEndian 20 (unat (c_address c))"] by (simp add: rlp_hash_def)
  ultimately have "length (concat (candidate_items c)) \<le> 30" by (simp add: candidate_items_def)
  then show ?thesis
    using rlp_list_le [of "concat (candidate_items c)"] by (simp add: candidate_rlp_def)
qed

lemma candidate_bound: "length (candidate_rlp c) < rlp_max"
  using candidate_length [of c] by (simp add: rlp_max_def)

lemma appends_candidate: "appends (candidate_streamRLP c) (candidate_rlp c)"
  unfolding candidate_streamRLP_def [abs_def] candidate_rlp_def
proof (rule appends_list')
  show "list_all2 appends [append_hash 20 (c_address c), append_u64 (c_value c)] (candidate_items c)"
    by (simp add: candidate_items_def appends_hash)
qed (use candidate_bound [of c] in \<open>simp_all add: candidate_rlp_def\<close>)

lemma candidate_decode_rlp: "candidate_decode (candidate_rlp c) = Inr c"
proof -
  note r = list_reader [OF candidate_items_item candidate_bound [unfolded candidate_rlp_def]]
  show ?thesis
    by (simp add: candidate_decode_def candidate_rlp_def r) (simp add: candidate_items_def)
qed

interpretation candidate_codec: codec candidate_getRLPData candidate_decode candidate_rlp "\<lambda>c. c" "\<lambda>c. True"
  by unfold_locales
    (simp_all add: candidate_getRLPData_def appends_out [OF appends_candidate] candidate_decode_rlp
      candidate_rlp_def candidate_decode_rlp [unfolded candidate_rlp_def])

lemma ballot_decode_rlp:
  assumes "ballot_ok b"
  shows "ballot_decode (ballot_rlp b) = Inr b"
proof -
  have l: "length (rlp_list (concat (map candidate_rlp b))) < rlp_max"
    using assms by (simp add: ballot_ok_def ballot_rlp_def)
  have i: "\<forall>e \<in> set (map candidate_rlp b). item e" by (auto simp: candidate_rlp_def)
  have "read_all candidate_decode (rlp_list (concat (map candidate_rlp b))) = Inr b"
    using candidate_codec.read_all_spec [of b] l by simp
  then show ?thesis
    using assms by (simp add: ballot_decode_def ballot_rlp_def list_reader [OF i l] ballot_ok_def)
qed

interpretation ballot_codec: codec ballot_getRLPData ballot_decode ballot_rlp "\<lambda>b. b" ballot_ok
proof
  fix b assume "ballot_ok b"
  then show "ballot_getRLPData b = Inr (ballot_rlp b)"
    using candidate_codec.appends_all [of b]
    by (simp add: ballot_getRLPData_def ballot_streamRLP_def ballot_rlp_def ballot_ok_def appends_out)
qed (simp_all add: ballot_decode_rlp, simp add: ballot_rlp_def)

section \<open>Transaction\<close>

definition TRANSACTION_FIELDS_WITHOUT_SIG :: nat where "TRANSACTION_FIELDS_WITHOUT_SIG = 7"
definition TRANSACTION_FIELDS_ALL :: nat where "TRANSACTION_FIELDS_ALL = 8"

text \<open>A \<open>SignatureStruct\<close> lies in memory as the 65 bytes r, s, v of a \<open>Signature\<close>.\<close>

definition sig_bytes :: "sigstruct \<Rightarrow> bytes" where
  "sig_bytes sg = toBigEndian 32 (unat (sig_r sg)) @ toBigEndian 32 (unat (sig_s sg)) @ [sig_v sg]"

definition sig_of_bytes :: "bytes \<Rightarrow> sigstruct" where
  "sig_of_bytes b =
     \<lparr>sig_r = fromBigEndian (take 32 b), sig_s = fromBigEndian (take 32 (drop 32 b)), sig_v = b ! 64\<rparr>"

definition transaction_content :: "transaction \<Rightarrow> (stream \<Rightarrow> exn + stream) list" where
  "transaction_content t =
     [append_u64 (t_chainID t), append_unsigned (t_type t), append_hash 20 (t_sender t),
      append_hash 20 (t_recipient t), append_bigint (t_timestamp t), append_bytes (t_data t) False,
      append_u64 (t_value t)]"

definition transaction_streamRLP :: "transaction \<Rightarrow> stream \<Rightarrow> exn + stream" where
  "transaction_streamRLP t s =
     bindE (appendList TRANSACTION_FIELDS_ALL s)
       (seqE (transaction_content t @ [append_bytes (sig_bytes (t_signature t)) False]))"

definition transaction_streamRLPContent :: "transaction \<Rightarrow> stream \<Rightarrow> exn + stream" where
  "transaction_streamRLPContent t s =
     bindE (appendList TRANSACTION_FIELDS_WITHOUT_SIG s) (seqE (transaction_content t))"

definition transaction_getRLPData :: "transaction \<Rightarrow> exn + bytes" where
  "transaction_getRLPData t = getRLPData (transaction_streamRLP t)"

definition transaction_decode :: "bytes \<Rightarrow> exn + transaction" where
  "transaction_decode data =
     bindE (RLP_new data VeryStrict) (\<lambda>r. rethrow_Exception
     (bindE (isListOf TRANSACTION_FIELDS_ALL r) (\<lambda>good.
      if \<not> good then Inl RangeError else
      bindE (field r 0 toInt_u64) (\<lambda>chain.
      bindE (field r 1 toInt_u32) (\<lambda>ty.
      bindE (field r 2 toHash160) (\<lambda>sender.
      bindE (field r 3 toHash160) (\<lambda>recipient.
      bindE (field r 4 toInt_i64) (\<lambda>ts.
      bindE (field r 5 (toBytes LaissezFaire)) (\<lambda>d.
      bindE (field r 6 toInt_u64) (\<lambda>value.
      bindE (field r 7 (toHash 65 VeryStrict)) (\<lambda>sig.
        Inr \<lparr>t_chainID = chain, t_type = ty, t_sender = sender, t_recipient = recipient,
             t_timestamp = ts, t_data = d, t_value = value, t_signature = sig_of_bytes sig\<rparr>)))))))))))"

definition transaction_content_items :: "transaction \<Rightarrow> bytes list" where
  "transaction_content_items t =
     [rlp_word (t_chainID t), rlp_word (t_type t), rlp_hash 20 (t_sender t), rlp_hash 20 (t_recipient t),
      rlp_int (nat (t_timestamp t)), rlp_str (t_data t), rlp_word (t_value t)]"

definition transaction_items :: "transaction \<Rightarrow> bytes list" where
  "transaction_items t = transaction_content_items t @ [rlp_str (sig_bytes (t_signature t))]"

definition transaction_rlp :: "transaction \<Rightarrow> bytes" where
  "transaction_rlp t = rlp_list (concat (transaction_items t))"

definition transaction_ok :: "transaction \<Rightarrow> bool" where
  "transaction_ok t \<longleftrightarrow> timestamp_ok (t_timestamp t) \<and> length (transaction_rlp t) < rlp_max"

lemma length_sig_bytes [simp]: "length (sig_bytes sg) = 65"
  by (simp add: sig_bytes_def)

lemma sig_of_sig_bytes [simp]: "sig_of_bytes (sig_bytes sg) = sg"
  by (simp add: sig_of_bytes_def sig_bytes_def word_of_toBigEndian nth_append)

lemma length_transaction_items [simp]: "length (transaction_items t) = 8"
  by (simp add: transaction_items_def transaction_content_items_def)

lemma transaction_items_item: "\<forall>e \<in> set (transaction_items t). item e"
  by (simp add: transaction_items_def transaction_content_items_def)

lemma transaction_data_bound:
  assumes "transaction_ok t"
  shows "length (t_data t) < rlp_max"
proof -
  have "length (rlp_str (t_data t)) < rlp_max"
    by (rule item_bound [of "transaction_items t"])
      (use assms in \<open>simp_all add: transaction_ok_def transaction_rlp_def transaction_items_def
        transaction_content_items_def\<close>)
  then show ?thesis using rlp_str_longer [of "t_data t"] by simp
qed

lemma appends_transaction_content:
  assumes "transaction_ok t"
  shows "list_all2 appends (transaction_content t) (transaction_content_items t)"
  using assms appends_timestamp [of "t_timestamp t"] appends_bytes [OF transaction_data_bound [OF assms]]
  by (simp add: transaction_content_def transaction_content_items_def appends_hash transaction_ok_def)

lemma appends_sig: "appends (append_bytes (sig_bytes sg) False) (rlp_str (sig_bytes sg))"
  by (rule appends_bytes) (simp add: rlp_max_def)

lemma appends_transaction:
  assumes "transaction_ok t"
  shows "appends (transaction_streamRLP t) (transaction_rlp t)"
  unfolding transaction_streamRLP_def [abs_def] transaction_rlp_def
proof (rule appends_list')
  show "list_all2 appends (transaction_content t @ [append_bytes (sig_bytes (t_signature t)) False])
      (transaction_items t)"
    unfolding transaction_items_def
    by (intro list_all2_appendI appends_transaction_content assms) (simp add: appends_sig)
qed (use assms in \<open>simp_all add: transaction_ok_def transaction_rlp_def TRANSACTION_FIELDS_ALL_def
      transaction_content_def\<close>)

lemma transaction_decode_rlp:
  assumes "transaction_ok t"
  shows "transaction_decode (transaction_rlp t) = Inr t"
proof -
  have l: "length (rlp_list (concat (transaction_items t))) < rlp_max"
    using assms by (simp add: transaction_ok_def transaction_rlp_def)
  note r = list_reader [OF transaction_items_item l]
  have sig: "toHash 65 VeryStrict (rlp_str (sig_bytes (t_signature t))) = Inr (sig_bytes (t_signature t))"
    by (rule toHash_str) (simp_all add: rlp_max_def)
  show ?thesis
    using assms
    by (simp add: transaction_decode_def transaction_rlp_def r TRANSACTION_FIELDS_ALL_def)
      (simp add: transaction_items_def transaction_content_items_def sig toInt_i64_timestamp
        toBytes_str [OF transaction_data_bound [OF assms]] transaction_ok_def)
qed

interpretation transaction_codec:
  codec transaction_getRLPData transaction_decode transaction_rlp "\<lambda>t. t" transaction_ok
  by unfold_locales
    (simp_all add: transaction_getRLPData_def transaction_decode_rlp appends_out [OF appends_transaction]
      transaction_rlp_def transaction_decode_rlp [unfolded transaction_rlp_def])

section \<open>Transaction receipt\<close>

definition TRANSACTION_RECEIPT_FIELDS :: nat where "TRANSACTION_RECEIPT_FIELDS = 1"

definition receipt_streamRLP :: "receipt \<Rightarrow> stream \<Rightarrow> exn + stream" where
  "receipt_streamRLP rc s =
     bindE (appendList TRANSACTION_RECEIPT_FIELDS s)
       (seqE [if rc_isCode rc then append_unsigned (rc_code rc) else append_hash 32 (rc_stateRoot rc)])"

definition receipt_getRLPData :: "receipt \<Rightarrow> exn + bytes" where
  "receipt_getRLPData rc = getRLPData (receipt_streamRLP rc)"

text \<open>\<open>RLP::size\<close>. In the second branch of the constructor \<open>m_receiptCode\<close> has no initialiser; the
  branch reads the item 1 of a list of one item, which throws.\<close>

definition rlp_size :: "bytes \<Rightarrow> exn + nat" where
  "rlp_size d = (if isData d then rlp_length d else Inr 0)"

definition receipt_decode :: "bytes \<Rightarrow> exn + receipt" where
  "receipt_decode data = rethrow_Exception
     (bindE (RLP_new data VeryStrict) (\<lambda>r.
      bindE (isListOf TRANSACTION_RECEIPT_FIELDS r) (\<lambda>good.
      if \<not> good then Inl RangeError else
      bindE (field r 0 rlp_size) (\<lambda>n.
      if n = 4
      then bindE (field r 0 toInt_u32) (\<lambda>code.
             Inr \<lparr>rc_code = code, rc_stateRoot = 0, rc_isCode = True\<rparr>)
      else bindE (field r 1 (toHash 32 Strict)) (\<lambda>root.
             Inr \<lparr>rc_code = 0, rc_stateRoot = fromBigEndian root, rc_isCode = False\<rparr>)))))"

definition receipt_item :: "receipt \<Rightarrow> bytes" where
  "receipt_item rc = (if rc_isCode rc then rlp_word (rc_code rc) else rlp_hash 32 (rc_stateRoot rc))"

definition receipt_rlp :: "receipt \<Rightarrow> bytes" where
  "receipt_rlp rc = rlp_list (concat [receipt_item rc])"

definition receipt_ok :: "receipt \<Rightarrow> bool" where
  "receipt_ok rc \<longleftrightarrow> rc_isCode rc \<and> 2 ^ 24 \<le> unat (rc_code rc)"

definition receipt_stored :: "receipt \<Rightarrow> receipt" where
  "receipt_stored rc = rc\<lparr>rc_stateRoot := 0\<rparr>"

lemma receipt_bound: "length (receipt_rlp rc) < rlp_max"
proof -
  have "unat (rc_code rc) < 256 ^ 4" using unsigned_less [of "rc_code rc"] by simp
  then have "bytesRequired (unat (rc_code rc)) \<le> 4" by (rule bytesRequired_le)
  then have "length (rlp_word (rc_code rc)) \<le> 5"
    using rlp_str_le [of "toBigEndian (bytesRequired (unat (rc_code rc))) (unat (rc_code rc))"]
    by (simp add: rlp_word_def rlp_int_def)
  moreover have "length (rlp_hash 32 (rc_stateRoot rc)) \<le> 33"
    using rlp_str_le [of "toBigEndian 32 (unat (rc_stateRoot rc))"] by (simp add: rlp_hash_def)
  ultimately have "length (receipt_item rc) \<le> 33" by (simp add: receipt_item_def)
  then have "length (receipt_rlp rc) \<le> 34"
    using rlp_list_le [of "concat [receipt_item rc]"] by (simp add: receipt_rlp_def)
  then show ?thesis by (simp add: rlp_max_def)
qed

lemma receipt_item_item: "\<forall>e \<in> set [receipt_item rc]. item e"
  by (simp add: receipt_item_def)

lemmas receipt_reader = list_reader [OF receipt_item_item receipt_bound [unfolded receipt_rlp_def]]

lemma appends_receipt: "appends (receipt_streamRLP rc) (receipt_rlp rc)"
  unfolding receipt_streamRLP_def [abs_def] receipt_rlp_def TRANSACTION_RECEIPT_FIELDS_def
proof (rule appends_list')
  show "list_all2 appends
     [if rc_isCode rc then append_unsigned (rc_code rc) else append_hash 32 (rc_stateRoot rc)]
     [receipt_item rc]"
    by (simp add: receipt_item_def appends_hash)
qed (use receipt_bound [of rc] in \<open>simp_all add: receipt_rlp_def\<close>)

lemma size_str: "length bs < rlp_max \<Longrightarrow> rlp_size (rlp_str bs) = Inr (length bs)"
  using reads_str [of bs] isData_str [of bs] unfolding reads_def rlp_size_def
  by (metis append_Nil2)

lemma bytesRequired_eq: "256 ^ n \<le> v \<Longrightarrow> v < 256 ^ Suc n \<Longrightarrow> bytesRequired v = Suc n"
proof (rule antisym)
  assume v: "256 ^ n \<le> v" "v < 256 ^ Suc n"
  show "bytesRequired v \<le> Suc n" by (rule bytesRequired_le [OF v(2)])
  have "(256 :: nat) ^ n < 256 ^ bytesRequired v" using v(1) bytesRequired_upper [of v] by linarith
  then show "Suc n \<le> bytesRequired v" by (simp add: Suc_le_eq)
qed

lemma receipt_size:
  assumes "rc_isCode rc"
  shows "rlp_size (receipt_item rc) = Inr (bytesRequired (unat (rc_code rc)))"
proof -
  have "unat (rc_code rc) < 256 ^ 4" using unsigned_less [of "rc_code rc"] by simp
  then have "bytesRequired (unat (rc_code rc)) \<le> 4" by (rule bytesRequired_le)
  then show ?thesis using assms
    by (simp add: receipt_item_def rlp_word_def rlp_int_def size_str rlp_max_def)
qed

lemma receipt_decode_rlp:
  assumes "receipt_ok rc"
  shows "receipt_decode (receipt_rlp rc) = Inr (receipt_stored rc)"
proof -
  have "unat (rc_code rc) < 256 ^ Suc 3" using unsigned_less [of "rc_code rc"] by simp
  then have "bytesRequired (unat (rc_code rc)) = 4"
    using assms bytesRequired_eq [of 3 "unat (rc_code rc)"] by (simp add: receipt_ok_def)
  then have n: "rlp_size (receipt_item rc) = Inr 4" using receipt_size assms by (simp add: receipt_ok_def)
  show ?thesis
    using assms n
    by (simp add: receipt_decode_def receipt_rlp_def receipt_reader TRANSACTION_RECEIPT_FIELDS_def
        del: concat.simps)
      (simp add: receipt_item_def receipt_ok_def receipt_stored_def)
qed

interpretation receipt_codec: codec receipt_getRLPData receipt_decode receipt_rlp receipt_stored receipt_ok
  by unfold_locales
    (simp_all add: receipt_getRLPData_def receipt_decode_rlp appends_out [OF appends_receipt]
      receipt_rlp_def del: concat.simps, simp add: receipt_decode_rlp [unfolded receipt_rlp_def] del: concat.simps)

text \<open>A receipt code below \<open>2\<^sup>2\<^sup>4\<close> is written and cannot be read back.\<close>

lemma receipt_small_code:
  assumes "rc_isCode rc" "unat (rc_code rc) < 2 ^ 24"
  shows "receipt_getRLPData rc = Inr (receipt_rlp rc) \<and> receipt_decode (receipt_rlp rc) = Inl CoreException"
proof -
  have "bytesRequired (unat (rc_code rc)) \<le> 3" using assms(2) by (intro bytesRequired_le) simp
  then have n: "rlp_size (receipt_item rc) = Inr k \<Longrightarrow> k \<noteq> 4" for k using receipt_size [OF assms(1)] by simp
  obtain k where k: "rlp_size (receipt_item rc) = Inr k" using receipt_size [OF assms(1)] by blast
  have null: "field (rlp_list (concat [receipt_item rc])) 1 (toHash 32 Strict) = Inl BadRLP"
  proof -
    have r: "\<forall>e \<in> set [receipt_item rc]. \<exists>p. reads e p"
      by (rule reads_items [OF receipt_item_item receipt_bound [unfolded receipt_rlp_def]])
    have l: "length (concat [receipt_item rc]) < rlp_max"
      using receipt_bound [of rc] rlp_list_longer [of "concat [receipt_item rc]"]
      unfolding receipt_rlp_def by linarith
    have "rlp_at (rlp_list (concat [receipt_item rc])) 1 = Inr []"
      using rlp_index_cached [OF reads_payload [OF reads_list [OF l]] split_items_reads [OF r]
          cache_ok_fresh, of 1]
      unfolding rlp_at_def by (auto simp: item_or_null_def)
    then show ?thesis by (simp add: field_def toHash_def requireGood_def isNull_def)
  qed
  show ?thesis
    using n [OF k] k appends_out [OF appends_receipt]
    by (simp add: receipt_getRLPData_def receipt_decode_def receipt_rlp_def receipt_reader null [simplified One_nat_def]
        TRANSACTION_RECEIPT_FIELDS_def rethrow_Exception_def is_Exception_def del: concat.simps)
qed

section \<open>Block header\<close>

definition BLOCK_HEADER_FIELDS_WITHOUT_SIG :: nat where "BLOCK_HEADER_FIELDS_WITHOUT_SIG = 9"
definition BLOCK_HEADER_FIELDS_ALL :: nat where "BLOCK_HEADER_FIELDS_ALL = 9 + 3"

definition header_content :: "block_header \<Rightarrow> (stream \<Rightarrow> exn + stream) list" where
  "header_content h =
     [append_u64 (h_chainID h), append_hash 20 (h_producer h), append_hash 32 (h_parentHash h),
      append_hash 32 (h_mklRoot h), append_hash 32 (h_transactionsRoot h), append_hash 32 (h_receiptRoot h),
      append_u64 (h_number h), append_bigint (h_timestamp h), append_bytes (h_extra h) False]"

definition header_streamRLP :: "block_header \<Rightarrow> stream \<Rightarrow> exn + stream" where
  "header_streamRLP h s =
     bindE (appendList BLOCK_HEADER_FIELDS_ALL s) (seqE (header_content h @
       [append_unsigned (ucast (sig_v (h_signature h))),
        append_u256 (sig_r (h_signature h)), append_u256 (sig_s (h_signature h))]))"

definition header_streamRLPContent :: "block_header \<Rightarrow> stream \<Rightarrow> exn + stream" where
  "header_streamRLPContent h s =
     bindE (appendList BLOCK_HEADER_FIELDS_WITHOUT_SIG s) (seqE (header_content h))"

definition header_getRLPData :: "block_header \<Rightarrow> exn + bytes" where
  "header_getRLPData h = getRLPData (header_streamRLP h)"

definition toInt_int :: "bytes \<Rightarrow> exn + int" where
  "toInt_int = toInt 4 (\<lambda>p. sint (fromBigEndian p :: u32)) Strict"

text \<open>\<open>populate\<close> leaves the header as it is when the data is not a list of twelve items. The handlers
  turn a \<open>GSException\<close> into a \<open>DeserializeException\<close> and rethrow an \<open>Exception\<close>.\<close>

definition header_populate :: "bytes \<Rightarrow> block_header \<Rightarrow> exn + block_header" where
  "header_populate data h0 = catchE
     (bindE (RLP_new data VeryStrict) (\<lambda>r.
      bindE (isListOf BLOCK_HEADER_FIELDS_ALL r) (\<lambda>good.
      if \<not> good then Inr h0 else
      bindE (field r 0 toInt_u64) (\<lambda>chain.
      bindE (field r 1 toHash160) (\<lambda>producer.
      bindE (field r 2 toHash256) (\<lambda>parent.
      bindE (field r 3 toHash256) (\<lambda>mkl.
      bindE (field r 4 toHash256) (\<lambda>tx.
      bindE (field r 5 toHash256) (\<lambda>rp.
      bindE (field r 6 toPositiveInt64) (\<lambda>number.
      bindE (field r 7 toInt_i64) (\<lambda>ts.
      bindE (field r 8 (toBytes LaissezFaire)) (\<lambda>extra.
      bindE (field r 9 toInt_int) (\<lambda>v.
      bindE (field r 10 toInt_u256) (\<lambda>sr.
      bindE (field r 11 toInt_u256) (\<lambda>ss.
        Inr \<lparr>h_chainID = chain, h_producer = producer, h_parentHash = parent, h_mklRoot = mkl,
             h_transactionsRoot = tx, h_receiptRoot = rp, h_number = number, h_timestamp = ts,
             h_extra = extra, h_signature = \<lparr>sig_r = sr, sig_s = ss, sig_v = word_of_int v\<rparr>\<rparr>)))))))))))))))
     (\<lambda>e. Inl (if is_GSException e then DeserializeException
               else if is_Exception e then CoreException else e))"

definition header_content_items :: "block_header \<Rightarrow> bytes list" where
  "header_content_items h =
     [rlp_word (h_chainID h), rlp_hash 20 (h_producer h), rlp_hash 32 (h_parentHash h),
      rlp_hash 32 (h_mklRoot h), rlp_hash 32 (h_transactionsRoot h), rlp_hash 32 (h_receiptRoot h),
      rlp_word (h_number h), rlp_int (nat (h_timestamp h)), rlp_str (h_extra h)]"

definition header_items :: "block_header \<Rightarrow> bytes list" where
  "header_items h = header_content_items h @
     [rlp_word (ucast (sig_v (h_signature h)) :: u32), rlp_word (sig_r (h_signature h)),
      rlp_word (sig_s (h_signature h))]"

definition header_rlp :: "block_header \<Rightarrow> bytes" where
  "header_rlp h = rlp_list (concat (header_items h))"

definition header_ok :: "block_header \<Rightarrow> bool" where
  "header_ok h \<longleftrightarrow> timestamp_ok (h_timestamp h) \<and> unat (h_number h) < 2 ^ 63 \<and>
     length (header_rlp h) < rlp_max"

lemma length_header_items [simp]: "length (header_items h) = 12"
  by (simp add: header_items_def header_content_items_def)

lemma header_items_item: "\<forall>e \<in> set (header_items h). item e"
  by (simp add: header_items_def header_content_items_def)

lemma header_extra_bound:
  assumes "header_ok h"
  shows "length (h_extra h) < rlp_max"
proof -
  have "length (rlp_str (h_extra h)) < rlp_max"
    by (rule item_bound [of "header_items h"])
      (use assms in \<open>simp_all add: header_ok_def header_rlp_def header_items_def header_content_items_def\<close>)
  then show ?thesis using rlp_str_longer [of "h_extra h"] by simp
qed

lemma appends_header_content:
  assumes "header_ok h"
  shows "list_all2 appends (header_content h) (header_content_items h)"
  using assms appends_timestamp [of "h_timestamp h"] appends_bytes [OF header_extra_bound [OF assms]]
  by (simp add: header_content_def header_content_items_def appends_hash header_ok_def)

lemma appends_header:
  assumes "header_ok h"
  shows "appends (header_streamRLP h) (header_rlp h)"
  unfolding header_streamRLP_def [abs_def] header_rlp_def
proof (rule appends_list')
  show "list_all2 appends (header_content h @
       [append_unsigned (ucast (sig_v (h_signature h))),
        append_u256 (sig_r (h_signature h)), append_u256 (sig_s (h_signature h))]) (header_items h)"
    unfolding header_items_def by (intro list_all2_appendI appends_header_content assms) simp
qed (use assms in \<open>simp_all add: header_ok_def header_rlp_def BLOCK_HEADER_FIELDS_ALL_def
      header_content_def\<close>)

lemma toInt_int_byte: "toInt_int (rlp_word (ucast (b :: byte) :: u32)) = Inr (uint b)"
proof -
  have b: "unat b < 256" using unsigned_less [of b] by simp
  then have "unat b mod 2 ^ 32 = unat b" by (intro mod_less less_trans [OF b]) simp
  then have u: "unat (ucast b :: u32) = unat b" by (simp add: unsigned_ucast_eq take_bit_eq_mod)
  have "unat b < 256 ^ 4" by (rule less_trans [OF b]) simp
  moreover have s: "sint (word_of_nat n :: u32) = int n" if "n < 256" for n
    using that by (simp add: signed_of_nat signed_take_bit_int_eq_self)
  note s [OF b]
  ultimately show ?thesis
    by (simp add: toInt_int_def rlp_word_def u toInt_rlp_int [of "unat b" 4] fromBigEndian_val
        be_val_compact)
qed

lemma header_populate_rlp:
  assumes "header_ok h"
  shows "header_populate (header_rlp h) h0 = Inr h"
proof -
  have l: "length (rlp_list (concat (header_items h))) < rlp_max"
    using assms by (simp add: header_ok_def header_rlp_def)
  note r = list_reader [OF header_items_item l]
  show ?thesis
    using assms
    by (simp add: header_populate_def header_rlp_def r BLOCK_HEADER_FIELDS_ALL_def)
      (simp add: header_items_def header_content_items_def toInt_i64_timestamp toPositiveInt64_word
        toBytes_str [OF header_extra_bound [OF assms]] toInt_int_byte header_ok_def)
qed

interpretation header_codec:
  codec header_getRLPData "\<lambda>d. header_populate d h0" header_rlp "\<lambda>h. h" header_ok
  by unfold_locales
    (simp_all add: header_getRLPData_def header_populate_rlp appends_out [OF appends_header]
      header_rlp_def header_populate_rlp [unfolded header_rlp_def])

section \<open>Block\<close>

definition BLOCK_FIELDS :: nat where "BLOCK_FIELDS = 3"

definition block_streamRLP :: "block \<Rightarrow> stream \<Rightarrow> exn + stream" where
  "block_streamRLP b s =
     bindE (appendList 3 s) (seqE
       [append_nested (header_getRLPData (b_header b)),
        append_nested (getRLPData (append_all transaction_getRLPData (b_transactions b))),
        append_nested (getRLPData (append_all receipt_getRLPData (b_receipts b)))])"

definition block_getRLPData :: "block \<Rightarrow> exn + bytes" where
  "block_getRLPData b = getRLPData (block_streamRLP b)"

text \<open>\<open>h0\<close> is the header as it stands before \<open>populate\<close>, whose number and time stamp have no
  initialiser.\<close>

definition block_decode :: "block_header \<Rightarrow> bytes \<Rightarrow> exn + block" where
  "block_decode h0 data = rethrow_Exception
     (bindE (RLP_new data VeryStrict) (\<lambda>r.
      bindE (isListOf BLOCK_FIELDS r) (\<lambda>good.
      if \<not> good then Inl DeserializeException else
      bindE (field r 0 Inr) (\<lambda>bytesHeader.
      bindE (field r 1 Inr) (\<lambda>bytesTransactions.
      bindE (field r 2 Inr) (\<lambda>bytesReceipts.
      bindE (header_populate bytesHeader h0) (\<lambda>h.
      bindE (bindE (RLP_new bytesTransactions VeryStrict) (read_all transaction_decode)) (\<lambda>txs.
      bindE (bindE (RLP_new bytesReceipts VeryStrict) (read_all receipt_decode)) (\<lambda>rps.
        Inr \<lparr>b_header = h, b_transactions = txs, b_receipts = rps, b_syncBlock = False\<rparr>)))))))))"

definition block_items :: "block \<Rightarrow> bytes list" where
  "block_items b =
     [header_rlp (b_header b), rlp_list (concat (map transaction_rlp (b_transactions b))),
      rlp_list (concat (map receipt_rlp (b_receipts b)))]"

definition block_rlp :: "block \<Rightarrow> bytes" where
  "block_rlp b = rlp_list (concat (block_items b))"

definition block_ok :: "block \<Rightarrow> bool" where
  "block_ok b \<longleftrightarrow> header_ok (b_header b) \<and> list_all transaction_ok (b_transactions b) \<and>
     list_all receipt_ok (b_receipts b) \<and> length (block_rlp b) < rlp_max"

definition block_stored :: "block \<Rightarrow> block" where
  "block_stored b = b\<lparr>b_receipts := map receipt_stored (b_receipts b), b_syncBlock := False\<rparr>"

lemma length_block_items [simp]: "length (block_items b) = 3"
  by (simp add: block_items_def)

lemma block_items_item: "\<forall>e \<in> set (block_items b). item e"
  by (simp add: block_items_def header_rlp_def)

lemma block_bounds:
  assumes "block_ok b"
  shows "length (rlp_list (concat (map transaction_rlp (b_transactions b)))) < rlp_max"
    and "length (rlp_list (concat (map receipt_rlp (b_receipts b)))) < rlp_max"
  by (rule item_bound [of "block_items b"],
      use assms in \<open>simp_all add: block_ok_def block_rlp_def block_items_def\<close>)+

lemma appends_block:
  assumes "block_ok b"
  shows "appends (block_streamRLP b) (block_rlp b)"
  unfolding block_streamRLP_def [abs_def] block_rlp_def
proof (rule appends_list')
  have "appends (append_all transaction_getRLPData (b_transactions b))
      (rlp_list (concat (map transaction_rlp (b_transactions b))))"
    using assms by (intro transaction_codec.appends_all block_bounds) (auto simp: block_ok_def list_all_iff)
  moreover have "appends (append_all receipt_getRLPData (b_receipts b))
      (rlp_list (concat (map receipt_rlp (b_receipts b))))"
    using assms by (intro receipt_codec.appends_all block_bounds) (auto simp: block_ok_def list_all_iff)
  ultimately show "list_all2 appends
     [append_nested (header_getRLPData (b_header b)),
      append_nested (getRLPData (append_all transaction_getRLPData (b_transactions b))),
      append_nested (getRLPData (append_all receipt_getRLPData (b_receipts b)))] (block_items b)"
    unfolding block_items_def
    using assms appends_nested [OF header_codec.enc_spec]
    by (simp add: block_ok_def appends_nested appends_out)
qed (use assms in \<open>simp_all add: block_ok_def block_rlp_def\<close>)

lemma block_decode_rlp:
  assumes "block_ok b"
  shows "block_decode h0 (block_rlp b) = Inr (block_stored b)"
proof -
  have l: "length (rlp_list (concat (block_items b))) < rlp_max"
    using assms by (simp add: block_ok_def block_rlp_def)
  note r = list_reader [OF block_items_item l]
  note b = block_bounds [OF assms]
  have it: "\<forall>e \<in> set (map transaction_rlp (b_transactions b)). item e"
    "\<forall>e \<in> set (map receipt_rlp (b_receipts b)). item e"
    by (auto simp: transaction_rlp_def receipt_rlp_def)
  have tx: "read_all transaction_decode (rlp_list (concat (map transaction_rlp (b_transactions b)))) =
      Inr (b_transactions b)"
    using transaction_codec.read_all_spec [OF _ b(1)] assms by (simp add: block_ok_def list_all_iff)
  have rp: "read_all receipt_decode (rlp_list (concat (map receipt_rlp (b_receipts b)))) =
      Inr (map receipt_stored (b_receipts b))"
    using receipt_codec.read_all_spec [OF _ b(2)] assms by (simp add: block_ok_def list_all_iff)
  show ?thesis
    using assms
    by (simp add: block_decode_def block_rlp_def r BLOCK_FIELDS_def)
      (simp add: block_items_def header_populate_rlp block_ok_def block_stored_def
        list_reader(1) [OF it(1) b(1)] list_reader(1) [OF it(2) b(2)] tx rp)
qed

interpretation block_codec: codec block_getRLPData "block_decode h0" block_rlp block_stored block_ok
  by unfold_locales
    (simp_all add: block_getRLPData_def block_decode_rlp appends_out [OF appends_block]
      block_rlp_def block_decode_rlp [unfolded block_rlp_def])

end
