(* ===== verification/Keccak.thy ===== *)
theory Keccak
  imports Bytes
begin

text \<open>
  The Keccak permutation and sponge of \<open>crypto/SHAx.cpp\<close> and the \<open>sha3\<close> of \<open>crypto/SHA3\<close>. The state is
  the 25 lanes the code sees through its \<open>uint64_t*\<close>, and the 200 bytes it absorbs into on a
  little-endian machine. The in-place permutation with its table-driven loop is shown to be the
  coordinate definition of the standard.
\<close>

unbundle bit_operations_syntax

section \<open>The permutation\<close>

definition rho_offsets :: "nat list" where
  "rho_offsets = [1, 3, 6, 10, 15, 21, 28, 36, 45, 55, 2, 14, 27, 41, 56, 8, 25, 43, 62, 18, 39, 61, 20, 44]"

definition pi_lanes :: "nat list" where
  "pi_lanes = [10, 7, 11, 17, 18, 3, 5, 16, 8, 21, 24, 4, 15, 23, 19, 13, 12, 2, 20, 14, 22, 9, 6, 1]"

definition RC :: "u64 list" where
  "RC = [1, 0x8082, 0x800000000000808a, 0x8000000080008000, 0x808b, 0x80000001, 0x8000000080008081,
     0x8000000000008009, 0x8a, 0x88, 0x80008009, 0x8000000a, 0x8000808b, 0x800000000000008b,
     0x8000000000008089, 0x8000000000008003, 0x8000000000008002, 0x8000000000000080, 0x800a,
     0x800000008000000a, 0x8000000080008081, 0x8000000000008080, 0x80000001, 0x8000000080008008]"

definition rol :: "u64 \<Rightarrow> nat \<Rightarrow> u64" where
  "rol x s = push_bit s x OR drop_bit (64 - s) x"

definition theta :: "u64 list \<Rightarrow> u64 list" where
  "theta a =
     (let b = map (\<lambda>x. fold (\<lambda>y c. c XOR a ! (x + y)) [0, 5, 10, 15, 20] 0) [0..<5] in
      map (\<lambda>i. let x = i mod 5 in a ! i XOR (b ! ((x + 4) mod 5) XOR rol (b ! ((x + 1) mod 5)) 1)) [0..<25])"

text \<open>One turn of the unrolled loop, with the lane in flight \<open>t\<close>.\<close>

definition rho_pi_step :: "nat \<Rightarrow> u64 list \<times> u64 \<Rightarrow> u64 list \<times> u64" where
  "rho_pi_step x = (\<lambda>(a, t). (a[pi_lanes ! x := rol t (rho_offsets ! x)], a ! (pi_lanes ! x)))"

definition rho_pi :: "u64 list \<Rightarrow> u64 list" where
  "rho_pi a = fst (fold rho_pi_step [0..<24] (a, a ! 1))"

definition chi :: "u64 list \<Rightarrow> u64 list" where
  "chi a = map (\<lambda>i. let x = i mod 5; b = map (\<lambda>x. a ! (i - i mod 5 + x)) [0..<5] in
     b ! x XOR (NOT (b ! ((x + 1) mod 5)) AND b ! ((x + 2) mod 5))) [0..<25]"

definition iota :: "nat \<Rightarrow> u64 list \<Rightarrow> u64 list" where
  "iota i a = a[0 := a ! 0 XOR RC ! i]"

definition keccak_round :: "nat \<Rightarrow> u64 list \<Rightarrow> u64 list" where
  "keccak_round i a = iota i (chi (rho_pi (theta a)))"

definition keccakf :: "u64 list \<Rightarrow> u64 list" where
  "keccakf a = fold keccak_round [0..<24] a"

section \<open>The sponge\<close>

definition fromLittleEndian :: "bytes \<Rightarrow> u64" where
  "fromLittleEndian bs = fromBigEndian (rev bs)"

definition toLittleEndian :: "u64 \<Rightarrow> bytes" where
  "toLittleEndian w = rev (toBigEndian 8 (unat w))"

definition lanes_of :: "bytes \<Rightarrow> u64 list" where
  "lanes_of a = map (\<lambda>i. fromLittleEndian (take 8 (drop (8 * i) a))) [0..<25]"

definition bytes_of :: "u64 list \<Rightarrow> bytes" where
  "bytes_of ls = concat (map toLittleEndian ls)"

definition permute :: "bytes \<Rightarrow> bytes" where
  "permute a = bytes_of (keccakf (lanes_of a))"

definition Plen :: nat where "Plen = 200"

definition xorin :: "bytes \<Rightarrow> bytes \<Rightarrow> bytes" where
  "xorin dst src = map (\<lambda>i. if i < length src then dst ! i XOR src ! i else dst ! i) [0..<length dst]"

text \<open>\<open>foldP\<close> over the full blocks of the input: the state and the remaining input.\<close>

function absorb :: "nat \<Rightarrow> bytes \<Rightarrow> bytes \<Rightarrow> bytes \<times> bytes" where
  "absorb rate a inp =
     (if 0 < rate \<and> rate \<le> length inp then absorb rate (permute (xorin a (take rate inp))) (drop rate inp)
      else (a, inp))"
  by pat_completeness auto
termination by (relation "measure (\<lambda>(rate, a, inp). length inp)") auto

declare absorb.simps [simp del]

text \<open>\<open>foldP\<close> over the output.\<close>

function squeeze :: "nat \<Rightarrow> bytes \<Rightarrow> nat \<Rightarrow> bytes" where
  "squeeze rate a outlen =
     (if 0 < rate \<and> rate \<le> outlen then take rate a @ squeeze rate (permute a) (outlen - rate)
      else take outlen a)"
  by pat_completeness auto
termination by (relation "measure (\<lambda>(rate, a, outlen). outlen)") auto

declare squeeze.simps [simp del]

definition keccak_hash :: "nat \<Rightarrow> bytes \<Rightarrow> nat \<Rightarrow> byte \<Rightarrow> bytes option" where
  "keccak_hash outlen inp rate delim =
     (if rate \<ge> Plen then None
      else let (a, rest) = absorb rate (replicate Plen 0) inp;
               a1 = a[length rest := a ! length rest XOR delim];
               a2 = a1[rate - 1 := a1 ! (rate - 1) XOR 0x80];
               a3 = permute (xorin a2 rest)
           in Some (squeeze rate a3 outlen))"

definition SHA3_RATE :: "nat \<Rightarrow> nat" where
  "SHA3_RATE x = 200 - x div 4"

definition sha3_256 :: "bytes \<Rightarrow> bytes option" where
  "sha3_256 inp = keccak_hash 32 inp (SHA3_RATE 256) 0x1"

definition sha3_512 :: "bytes \<Rightarrow> bytes option" where
  "sha3_512 inp = keccak_hash 64 inp (SHA3_RATE 512) 0x1"

text \<open>\<open>sha3(bytesConstRef)\<close>: the 32 bytes written into a fresh \<open>h256\<close>.\<close>

definition sha3 :: "bytes \<Rightarrow> h256" where
  "sha3 inp = (case sha3_256 inp of Some d \<Rightarrow> fromBigEndian d | None \<Rightarrow> 0)"

section \<open>Sizes\<close>

lemma length_permute [simp]: "length (permute a) = 200"
proof -
  have step: "length (keccak_round i b) = 25" for i b
    unfolding keccak_round_def iota_def chi_def by simp
  have "length (fold keccak_round is b) = 25" if "is \<noteq> [] \<or> length b = 25" for "is" b
    using that by (induction "is" arbitrary: b) (auto simp: step)
  then have "length (keccakf b) = 25" for b by (simp add: keccakf_def)
  moreover have "length (bytes_of ls) = 8 * length ls" for ls
    by (induction ls) (auto simp: bytes_of_def toLittleEndian_def)
  ultimately show ?thesis by (simp add: permute_def)
qed

lemma absorb_rest: "0 < rate \<Longrightarrow> length (snd (absorb rate a inp)) < rate"
proof (induction rate a inp rule: absorb.induct)
  case (1 rate a inp)
  then show ?case by (subst absorb.simps) auto
qed

lemma length_squeeze: "length a = 200 \<Longrightarrow> rate < 200 \<Longrightarrow> outlen \<le> 200 \<Longrightarrow> length (squeeze rate a outlen) = outlen"
proof (induction rate a outlen rule: squeeze.induct)
  case (1 rate a outlen)
  then show ?case by (subst squeeze.simps) auto
qed

text \<open>Both hash functions return a digest of their size for every input.\<close>

lemma sha3_total:
  "\<exists>d. sha3_256 inp = Some d \<and> length d = 32" "\<exists>d. sha3_512 inp = Some d \<and> length d = 64"
  by (auto simp: sha3_256_def sha3_512_def keccak_hash_def SHA3_RATE_def Plen_def length_squeeze
      Let_def split: prod.splits)

section \<open>Agreement with the standard\<close>

text \<open>FIPS 202 gives the steps on lanes with two coordinates. Rho and pi move the lane at the t-th
  position of the walk \<open>(x, y) \<mapsto> (y, 2x + 3y)\<close> from (1, 0) to the next one, rotated by the t-th
  triangular number.\<close>

definition lane :: "u64 list \<Rightarrow> nat \<Rightarrow> nat \<Rightarrow> u64" where
  "lane a x y = a ! (x + 5 * y)"

definition column_parity :: "u64 list \<Rightarrow> nat \<Rightarrow> u64" where
  "column_parity a x = lane a x 0 XOR lane a x 1 XOR lane a x 2 XOR lane a x 3 XOR lane a x 4"

primrec walk :: "nat \<Rightarrow> nat \<times> nat" where
  "walk 0 = (1, 0)"
| "walk (Suc t) = (case walk t of (x, y) \<Rightarrow> (y, (2 * x + 3 * y) mod 5))"

lemma theta_lane:
  assumes "x < 5" "y < 5"
  shows "lane (theta a) x y =
    lane a x y XOR column_parity a ((x + 4) mod 5) XOR rol (column_parity a ((x + 1) mod 5)) 1"
proof -
  have "x + 5 * y < 25" "(x + 5 * y) mod 5 = x" using assms by auto
  then show ?thesis
    by (simp add: lane_def theta_def column_parity_def Let_def xor.assoc add.commute)
qed

lemma chi_lane:
  assumes "x < 5" "y < 5"
  shows "lane (chi a) x y =
    lane a x y XOR (NOT (lane a ((x + 1) mod 5) y) AND lane a ((x + 2) mod 5) y)"
proof -
  have "x + 5 * y < 25" "(x + 5 * y) mod 5 = x" "x + 5 * y - x = 5 * y" using assms by auto
  then show ?thesis using assms by (simp add: lane_def chi_def Let_def add.commute)
qed

text \<open>The lane in flight at turn k of the loop comes from the lane written at the turn before.\<close>

definition source_lane :: "nat \<Rightarrow> nat" where
  "source_lane k = (if k = 0 then 1 else pi_lanes ! (k - 1))"

lemma pi_lanes_facts: "length pi_lanes = 24" "distinct pi_lanes" "\<forall>i \<in> set pi_lanes. i < 25" "0 \<notin> set pi_lanes"
  by (simp_all add: pi_lanes_def)

lemma rho_pi_loop:
  assumes "length a = 25" "k \<le> 24"
  shows "\<exists>a'. fold rho_pi_step [0..<k] (a, a ! 1) = (a', a ! source_lane k) \<and> length a' = 25 \<and>
           (\<forall>j < k. a' ! (pi_lanes ! j) = rol (a ! source_lane j) (rho_offsets ! j)) \<and>
           (\<forall>i < 25. i \<notin> set (take k pi_lanes) \<longrightarrow> a' ! i = a ! i)"
  using assms(2)
proof (induction k)
  case 0
  then show ?case using assms by (simp add: source_lane_def)
next
  case (Suc k)
  then obtain a' where a': "fold rho_pi_step [0..<k] (a, a ! 1) = (a', a ! source_lane k)" "length a' = 25"
    "\<forall>j < k. a' ! (pi_lanes ! j) = rol (a ! source_lane j) (rho_offsets ! j)"
    "\<forall>i < 25. i \<notin> set (take k pi_lanes) \<longrightarrow> a' ! i = a ! i" by auto
  let ?p = "pi_lanes ! k"
  have k: "k < length pi_lanes" using Suc.prems pi_lanes_facts(1) by simp
  have p: "?p < 25" using k pi_lanes_facts(3) nth_mem by blast
  have new: "?p \<notin> set (take k pi_lanes)"
    using k pi_lanes_facts(2) by (auto simp: in_set_conv_nth nth_eq_iff_index_eq)
  have other: "?p \<noteq> pi_lanes ! j" if "j < k" for j
    using that k pi_lanes_facts(2) by (simp add: nth_eq_iff_index_eq)
  have "fold rho_pi_step [0..<Suc k] (a, a ! 1) =
      (a'[?p := rol (a ! source_lane k) (rho_offsets ! k)], a ! source_lane (Suc k))"
    using a'(1,4) p new by (simp add: rho_pi_step_def source_lane_def)
  moreover have "set (take (Suc k) pi_lanes) = insert ?p (set (take k pi_lanes))"
    using k by (simp add: take_Suc_conv_app_nth)
  ultimately show ?case using a' p by (auto simp: less_Suc_eq nth_list_update other)
qed

lemma walk_lanes: "t < 24 \<Longrightarrow> fst (walk (Suc t)) + 5 * snd (walk (Suc t)) = pi_lanes ! t"
  and walk_offsets: "t < 24 \<Longrightarrow> (t + 1) * (t + 2) div 2 mod 64 = rho_offsets ! t"
proof -
  have w: "map (\<lambda>t. fst (walk (Suc t)) + 5 * snd (walk (Suc t))) [0..<24] = pi_lanes"
    "map (\<lambda>t. (t + 1) * (t + 2) div 2 mod 64) [0..<24] = rho_offsets" by code_simp+
  show "t < 24 \<Longrightarrow> fst (walk (Suc t)) + 5 * snd (walk (Suc t)) = pi_lanes ! t"
    "t < 24 \<Longrightarrow> (t + 1) * (t + 2) div 2 mod 64 = rho_offsets ! t"
    unfolding w [symmetric] by simp_all
qed

lemma walk_source: "t < 24 \<Longrightarrow> fst (walk t) + 5 * snd (walk t) = source_lane t"
  using walk_lanes by (cases t) (simp_all add: source_lane_def del: walk.simps(2))

lemma rho_pi_lane:
  assumes "length a = 25"
  shows "t < 24 \<Longrightarrow> lane (rho_pi a) (fst (walk (Suc t))) (snd (walk (Suc t))) =
           rol (lane a (fst (walk t)) (snd (walk t))) ((t + 1) * (t + 2) div 2 mod 64)"
    and "lane (rho_pi a) 0 0 = lane a 0 0"
proof -
  obtain a' where a': "rho_pi a = a'" "\<forall>j < 24. a' ! (pi_lanes ! j) = rol (a ! source_lane j) (rho_offsets ! j)"
    "\<forall>i < 25. i \<notin> set (take 24 pi_lanes) \<longrightarrow> a' ! i = a ! i"
    using rho_pi_loop [OF assms, of 24] by (auto simp: rho_pi_def simp del: upt_Suc)
  show "t < 24 \<Longrightarrow> lane (rho_pi a) (fst (walk (Suc t))) (snd (walk (Suc t))) =
           rol (lane a (fst (walk t)) (snd (walk t))) ((t + 1) * (t + 2) div 2 mod 64)"
    using a'(1,2) walk_lanes [of t] walk_offsets [of t] walk_source [of t]
    unfolding lane_def by metis
  show "lane (rho_pi a) 0 0 = lane a 0 0"
    using a'(1,3) pi_lanes_facts(1,4) by (simp add: lane_def)
qed

text \<open>C18. The permutation that hashes transactions and blocks is Keccak-f of the standard: on every
  state of 25 lanes the in-place theta, rho/pi and chi steps give at each coordinate the value of
  the coordinate definition.\<close>

theorem keccak_round_standard:
  assumes "length a = 25"
  shows "(\<forall>x < 5. \<forall>y < 5. lane (theta a) x y =
            lane a x y XOR column_parity a ((x + 4) mod 5) XOR rol (column_parity a ((x + 1) mod 5)) 1) \<and>
         lane (rho_pi a) 0 0 = lane a 0 0 \<and>
         (\<forall>t < 24. lane (rho_pi a) (fst (walk (Suc t))) (snd (walk (Suc t))) =
            rol (lane a (fst (walk t)) (snd (walk t))) ((t + 1) * (t + 2) div 2 mod 64)) \<and>
         (\<forall>x < 5. \<forall>y < 5. lane (chi a) x y =
            lane a x y XOR (NOT (lane a ((x + 1) mod 5) y) AND lane a ((x + 2) mod 5) y))"
  using theta_lane chi_lane rho_pi_lane [OF assms] by blast

theorem keccak_round_standard_witness:
  "length (replicate 25 7 :: u64 list) = 25 \<and>
   lane (rho_pi (replicate 25 7)) (fst (walk 24)) (snd (walk 24)) =
     rol (lane (replicate 25 7) (fst (walk 23)) (snd (walk 23))) 44 \<and>
   lane (chi (replicate 25 7)) 2 3 =
     lane (replicate 25 7) 2 3 XOR (NOT (lane (replicate 25 7) 3 3) AND lane (replicate 25 7) 4 3)"
proof -
  define a :: "u64 list" where "a = replicate 25 7"
  have len: "length a = 25" by (simp add: a_def)
  note std = keccak_round_standard [OF len]
  have "(23::nat) < 24 \<longrightarrow> lane (rho_pi a) (fst (walk (Suc 23))) (snd (walk (Suc 23))) =
          rol (lane a (fst (walk 23)) (snd (walk 23))) ((23 + 1) * (23 + 2) div 2 mod 64)"
    using std by blast
  then have "lane (rho_pi a) (fst (walk 24)) (snd (walk 24)) = rol (lane a (fst (walk 23)) (snd (walk 23))) 44"
    by (simp del: walk.simps)
  moreover have "(2::nat) < 5 \<longrightarrow> (3::nat) < 5 \<longrightarrow> lane (chi a) 2 3 =
      lane a 2 3 XOR (NOT (lane a ((2 + 1) mod 5) 3) AND lane a ((2 + 2) mod 5) 3)"
    using std by blast
  then have "lane (chi a) 2 3 = lane a 2 3 XOR (NOT (lane a 3 3) AND lane a 4 3)"
    by simp
  ultimately show ?thesis using len unfolding a_def by blast
qed

end
