(* ===== verification/Database.thy ===== *)
theory Database
  imports BlockCodecs Keccak "HOL-Library.List_Lexorder"
begin

text \<open>
  The stores of \<open>database/DatabaseController\<close> over \<open>database/Database\<close>. A leveldb database is a map
  from byte strings to byte strings, iterated in the lexicographic order of its keys; every object
  is kept as the bytes of its codec. The contract of a store is the locale \<open>object_store\<close>,
  interpreted for accounts, producers, transactions and blocks.
\<close>

section \<open>Keys\<close>

definition asBytes160 :: "address \<Rightarrow> bytes" where
  "asBytes160 a = toBigEndian 20 (unat a)"

definition asBytes256 :: "h256 \<Rightarrow> bytes" where
  "asBytes256 h = toBigEndian 32 (unat h)"

text \<open>\<open>toBytes(toString(key))\<close> for a number: its decimal digits.\<close>

fun decimal :: "nat \<Rightarrow> bytes" where
  "decimal n = (if n < 10 then [] else decimal (n div 10)) @ [word_of_nat (48 + n mod 10)]"

declare decimal.simps [simp del]

definition number_key :: "u64 \<Rightarrow> bytes" where
  "number_key n = decimal (unat n)"

lemma fromBigEndian_asBytes: "fromBigEndian (asBytes160 a) = a" "fromBigEndian (asBytes256 h) = h"
  by (simp_all add: asBytes160_def asBytes256_def word_of_toBigEndian)

lemma asBytes_inj: "asBytes160 a = asBytes160 b \<longleftrightarrow> a = b" "asBytes256 h = asBytes256 k \<longleftrightarrow> h = k"
  by (metis fromBigEndian_asBytes(1), metis fromBigEndian_asBytes(2))

lemma decimal_digit: "unat (word_of_nat (48 + n mod 10) :: byte) = 48 + n mod 10"
proof -
  have "48 + n mod 10 < 256" using mod_less_divisor [of 10 n] by linarith
  then show ?thesis by (rule tag_unat)
qed

lemma decimal_value: "foldl (\<lambda>v b. 10 * v + (unat b - 48)) 0 (decimal n) = n"
proof (induction n rule: decimal.induct)
  case (1 n)
  then show ?case by (subst decimal.simps) (simp only: foldl_append foldl.simps decimal_digit, simp)
qed

lemma number_key_inj: "number_key m = number_key n \<longleftrightarrow> m = n"
proof
  assume "number_key m = number_key n"
  then have "unat m = unat n" using decimal_value unfolding number_key_def by metis
  then show "m = n" by (simp add: word_unat_eq_iff)
qed simp

section \<open>Hashes of objects\<close>

text \<open>\<open>getHash\<close>; the stream of an object whose length fits a \<open>size_t\<close> does not throw.\<close>

definition hash_of :: "exn + bytes \<Rightarrow> h256" where
  "hash_of d = (case d of Inr b \<Rightarrow> sha3 b | Inl _ \<Rightarrow> 0)"

definition transaction_getHash :: "transaction \<Rightarrow> h256" where
  "transaction_getHash t = hash_of (getRLPData (transaction_streamRLPContent t))"

definition header_getHash :: "block_header \<Rightarrow> h256" where
  "header_getHash h = hash_of (getRLPData (header_streamRLPContent h))"

definition block_getHash :: "block \<Rightarrow> h256" where
  "block_getHash b = header_getHash (b_header b)"

definition transaction_eq :: "transaction \<Rightarrow> transaction \<Rightarrow> bool" where
  "transaction_eq s t \<longleftrightarrow> transaction_getHash s = transaction_getHash t"

section \<open>Attribute states\<close>

definition Uint64Type :: u32 where "Uint64Type = 0"
definition BytesType :: u32 where "BytesType = 1"

record attribute_state =
  as_key :: bytes
  as_type :: u32
  as_value :: u64
  as_data :: bytes

definition attribute_assign :: "attribute_state \<Rightarrow> attribute_state \<Rightarrow> attribute_state" where
  "attribute_assign this a =
     (let t = this\<lparr>as_key := as_key a, as_type := as_type a\<rparr> in
      if as_type t = Uint64Type then t\<lparr>as_value := as_value a\<rparr>
      else if as_type t = BytesType then t\<lparr>as_data := as_data a\<rparr> else t)"

definition attribute_streamRLP :: "attribute_state \<Rightarrow> stream \<Rightarrow> exn + stream" where
  "attribute_streamRLP a s =
     bindE (appendList 2 s) (seqE (append_unsigned (as_type a) #
       (if as_type a = Uint64Type then [append_u64 (as_value a)]
        else if as_type a = BytesType then [appendRaw (as_data a) 1] else [])))"

definition attribute_getRLPData :: "attribute_state \<Rightarrow> exn + bytes" where
  "attribute_getRLPData a = getRLPData (attribute_streamRLP a)"

definition attribute_decode :: "bytes \<Rightarrow> bytes \<Rightarrow> exn + attribute_state" where
  "attribute_decode key data = rethrow_Exception
     (bindE (RLP_new data VeryStrict) (\<lambda>r.
      bindE (isListOf 2 r) (\<lambda>good.
      if \<not> good then Inl AttributeStateException else
      bindE (field r 0 toInt_u32) (\<lambda>ty.
      if ty = Uint64Type then bindE (field r 1 toInt_u64) (\<lambda>v.
        Inr \<lparr>as_key = key, as_type = ty, as_value = v, as_data = []\<rparr>)
      else if ty = BytesType then bindE (field r 1 Inr) (\<lambda>d.
        Inr \<lparr>as_key = key, as_type = ty, as_value = 0, as_data = d\<rparr>)
      else Inr \<lparr>as_key = key, as_type = ty, as_value = 0, as_data = []\<rparr>))))"

section \<open>The controller\<close>

type_synonym store = "(bytes, bytes) stdmap"

text \<open>The last four members are the global attribute objects of \<open>core/AttributeState.cpp\<close> that the
  node changes while it runs.\<close>

record database =
  d_attributes :: store
  d_accounts :: store
  d_transactions :: store
  d_blocks :: store
  d_blockIndex :: store
  d_blockStates :: store
  d_blockStateIndex :: store
  d_subChains :: store
  d_producers :: store
  g_currentHeight :: attribute_state
  g_prevProducers :: attribute_state
  g_currentProducers :: attribute_state
  g_solidifyProducers :: attribute_state

definition store_get :: "store \<Rightarrow> bytes \<Rightarrow> bytes" where
  "store_get m k = (case om_find m k of None \<Rightarrow> [] | Some v \<Rightarrow> v)"

text \<open>\<open>Database::put\<close>: the object is serialised before the store is written.\<close>

definition store_put ::
  "((store \<Rightarrow> store) \<Rightarrow> database \<Rightarrow> database) \<Rightarrow> bytes \<Rightarrow> exn + bytes \<Rightarrow> (database, exn, unit) exec" where
  "store_put upd key val =
     (\<lambda>db. case val of Inl e \<Rightarrow> (Inl e, db) | Inr v \<Rightarrow> (Inr (), upd (om_put key v) db))"

definition db_getAccount :: "address \<Rightarrow> database \<Rightarrow> exn + account" where
  "db_getAccount addr db =
     (let data = store_get (d_accounts db) (asBytes160 addr) in
      if data = [] then Inr EmptyAccount else account_decode data)"

definition db_putAccount :: "account \<Rightarrow> (database, exn, unit) exec" where
  "db_putAccount a = store_put d_accounts_update (asBytes160 (a_address a)) (account_getRLPData a)"

definition db_getProducer :: "address \<Rightarrow> database \<Rightarrow> exn + producer" where
  "db_getProducer addr db =
     (let data = store_get (d_producers db) (asBytes160 addr) in
      if data = [] then Inr EmptyProducer else producer_decode data)"

definition db_putProducer :: "producer \<Rightarrow> (database, exn, unit) exec" where
  "db_putProducer p = store_put d_producers_update (asBytes160 (p_address p)) (producer_getRLPData p)"

definition db_getProducerList :: "database \<Rightarrow> exn + (address, producer) stdmap" where
  "db_getProducerList db =
     bindE (mapE producer_decode (map snd (d_producers db))) (\<lambda>ps.
       Inr (fold (\<lambda>p m. om_put (p_address p) p m) ps []))"

definition db_getTransaction :: "h256 \<Rightarrow> database \<Rightarrow> exn + transaction" where
  "db_getTransaction h db =
     (let data = store_get (d_transactions db) (asBytes256 h) in
      if data = [] then Inr EmptyTransaction else transaction_decode data)"

definition db_putTransaction :: "transaction \<Rightarrow> (database, exn, unit) exec" where
  "db_putTransaction t =
     store_put d_transactions_update (asBytes256 (transaction_getHash t)) (transaction_getRLPData t)"

definition db_getBlock :: "block_header \<Rightarrow> h256 \<Rightarrow> database \<Rightarrow> exn + block" where
  "db_getBlock h0 h db =
     (let data = store_get (d_blocks db) (asBytes256 h) in
      if data = [] then Inr EmptyBlock else block_decode h0 data)"

definition db_getBlockByNumber :: "block_header \<Rightarrow> u64 \<Rightarrow> database \<Rightarrow> exn + block" where
  "db_getBlockByNumber h0 n db =
     (let data = store_get (d_blockIndex db) (number_key n) in
      if data = [] then Inr EmptyBlock else block_decode h0 data)"

definition db_putBlock :: "block \<Rightarrow> (database, exn, unit) exec" where
  "db_putBlock b =
     thenX (store_put d_blocks_update (asBytes256 (block_getHash b)) (block_getRLPData b))
       (store_put d_blockIndex_update (number_key (block_number b)) (block_getRLPData b))"

definition db_getAttribute :: "bytes \<Rightarrow> database \<Rightarrow> exn + attribute_state" where
  "db_getAttribute key db = attribute_decode key (store_get (d_attributes db) key)"

definition db_putAttribute :: "attribute_state \<Rightarrow> (database, exn, unit) exec" where
  "db_putAttribute a = store_put d_attributes_update (as_key a) (attribute_getRLPData a)"

text \<open>\<open>incrementBlockHeight\<close> and \<open>decrementBlockHeight\<close> change the global first, then the store. The
  exception is a plain \<open>GSException\<close>.\<close>

definition incrementBlockHeight :: "u64 \<Rightarrow> (database, exn, unit) exec" where
  "incrementBlockHeight incr =
     bindX (\<lambda>db. (Inr (as_value (g_currentHeight db)), db)) (\<lambda>h.
       if h + incr < incr then throwX GSException
       else thenX (modifyX (\<lambda>db. db\<lparr>g_currentHeight := (g_currentHeight db)\<lparr>as_value := h + incr\<rparr>\<rparr>))
              (\<lambda>db. db_putAttribute (g_currentHeight db) db))"

definition decrementBlockHeight :: "u64 \<Rightarrow> (database, exn, unit) exec" where
  "decrementBlockHeight decr =
     bindX (\<lambda>db. (Inr (as_value (g_currentHeight db)), db)) (\<lambda>h.
       if h < decr then throwX GSException
       else thenX (modifyX (\<lambda>db. db\<lparr>g_currentHeight := (g_currentHeight db)\<lparr>as_value := h - decr\<rparr>\<rparr>))
              (\<lambda>db. db_putAttribute (g_currentHeight db) db))"

section \<open>The contract of a store\<close>

text \<open>\<open>get\<close> after \<open>put\<close> returns what the codec keeps of the object, and other keys are untouched.\<close>

locale object_store =
  fixes get :: "'k \<Rightarrow> 's \<Rightarrow> exn + 'v"
    and put :: "'v \<Rightarrow> ('s, exn, unit) exec"
    and key :: "'v \<Rightarrow> 'k"
    and norm :: "'v \<Rightarrow> 'v"
    and ok :: "'v \<Rightarrow> bool"
  assumes put_ok: "ok v \<Longrightarrow> fst (put v s) = Inr ()"
    and get_put_same: "ok v \<Longrightarrow> get (key v) (snd (put v s)) = Inr (norm v)"
    and get_put_other: "k \<noteq> key v \<Longrightarrow> get k (snd (put v s)) = get k s"
begin

text \<open>Writing a whole cache: every object is stored, and the lookups of other keys are unchanged.\<close>

lemma put_all_ok: "\<forall>v \<in> set vs. ok v \<Longrightarrow> fst (forX vs put s) = Inr ()"
  by (induction vs arbitrary: s) (auto simp: thenX_run put_ok split: prod.splits sum.splits dest: arg_cong [of _ _ fst])

lemma get_put_all_other:
  "\<forall>v \<in> set vs. ok v \<Longrightarrow> k \<notin> key ` set vs \<Longrightarrow> get k (snd (forX vs put s)) = get k s"
proof (induction vs arbitrary: s)
  case (Cons v vs)
  obtain s' where s': "put v s = (Inr (), s')" using put_ok [of v s] Cons.prems by (cases "put v s") auto
  then show ?case using Cons get_put_other [of k v s] by simp
qed simp

lemma get_put_all:
  "\<forall>v \<in> set vs. ok v \<Longrightarrow> distinct (map key vs) \<Longrightarrow> v \<in> set vs \<Longrightarrow>
   get (key v) (snd (forX vs put s)) = Inr (norm v)"
proof (induction vs arbitrary: s)
  case (Cons w vs)
  obtain s' where s': "put w s = (Inr (), s')" using put_ok [of w s] Cons.prems by (cases "put w s") auto
  show ?case
  proof (cases "v = w")
    case True
    then have "key v \<notin> key ` set vs" using Cons.prems by auto
    then show ?thesis using Cons.prems get_put_all_other [of vs "key v" s'] get_put_same [of w s] s' True
      by simp
  next
    case False
    then show ?thesis using Cons s' by simp
  qed
qed simp

end

lemma store_put_Inr: "store_put upd key (Inr v) db = (Inr (), upd (om_put key v) db)"
  by (simp add: store_put_def)

lemma store_get_put: "store_get (om_put k v m) k' = (if k' = k then v else store_get m k')"
  by (simp add: store_get_def)

lemma item_not_Nil: "item e \<Longrightarrow> e \<noteq> []"
  by (auto simp: item_def rlp_str_def rlp_list_def rlp_header_def split: if_splits)

interpretation account_store:
  object_store db_getAccount db_putAccount a_address account_stored account_ok
proof
  fix a s k
  show "account_ok a \<Longrightarrow> fst (db_putAccount a s) = Inr ()"
    by (simp add: db_putAccount_def store_put_Inr account_codec.enc_spec)
  show "account_ok a \<Longrightarrow> db_getAccount (a_address a) (snd (db_putAccount a s)) = Inr (account_stored a)"
    using item_not_Nil [OF account_codec.spec_item, of a]
    by (simp add: db_putAccount_def db_getAccount_def store_put_Inr account_codec.enc_spec store_get_put
        account_codec.dec_spec)
  show "k \<noteq> a_address a \<Longrightarrow> db_getAccount k (snd (db_putAccount a s)) = db_getAccount k s"
    by (simp add: db_putAccount_def db_getAccount_def store_put_def store_get_put asBytes_inj
        split: sum.splits)
qed

interpretation producer_store:
  object_store db_getProducer db_putProducer p_address "\<lambda>p. p" producer_ok
proof
  fix p s k
  show "producer_ok p \<Longrightarrow> fst (db_putProducer p s) = Inr ()"
    by (simp add: db_putProducer_def store_put_Inr producer_codec.enc_spec)
  show "producer_ok p \<Longrightarrow> db_getProducer (p_address p) (snd (db_putProducer p s)) = Inr p"
    using item_not_Nil [OF producer_codec.spec_item, of p]
    by (simp add: db_putProducer_def db_getProducer_def store_put_Inr producer_codec.enc_spec store_get_put
        producer_codec.dec_spec)
  show "k \<noteq> p_address p \<Longrightarrow> db_getProducer k (snd (db_putProducer p s)) = db_getProducer k s"
    by (simp add: db_putProducer_def db_getProducer_def store_put_def store_get_put asBytes_inj
        split: sum.splits)
qed

interpretation transaction_store:
  object_store db_getTransaction db_putTransaction transaction_getHash "\<lambda>t. t" transaction_ok
proof
  fix t s k
  show "transaction_ok t \<Longrightarrow> fst (db_putTransaction t s) = Inr ()"
    by (simp add: db_putTransaction_def store_put_Inr transaction_codec.enc_spec)
  show "transaction_ok t \<Longrightarrow> db_getTransaction (transaction_getHash t) (snd (db_putTransaction t s)) = Inr t"
    using item_not_Nil [OF transaction_codec.spec_item, of t]
    by (simp add: db_putTransaction_def db_getTransaction_def store_put_Inr transaction_codec.enc_spec
        store_get_put transaction_codec.dec_spec)
  show "k \<noteq> transaction_getHash t \<Longrightarrow> db_getTransaction k (snd (db_putTransaction t s)) = db_getTransaction k s"
    by (simp add: db_putTransaction_def db_getTransaction_def store_put_def store_get_put asBytes_inj
        split: sum.splits)
qed

interpretation block_store:
  object_store "db_getBlock h0" db_putBlock block_getHash block_stored block_ok
proof
  fix b s k
  show "block_ok b \<Longrightarrow> fst (db_putBlock b s) = Inr ()"
    by (simp add: db_putBlock_def store_put_Inr thenX_run block_codec.enc_spec)
  show "block_ok b \<Longrightarrow> db_getBlock h0 (block_getHash b) (snd (db_putBlock b s)) = Inr (block_stored b)"
    using item_not_Nil [OF block_codec.spec_item, of b]
    by (simp add: db_putBlock_def db_getBlock_def store_put_Inr thenX_run block_codec.enc_spec
        store_get_put block_codec.dec_spec)
  show "k \<noteq> block_getHash b \<Longrightarrow> db_getBlock h0 k (snd (db_putBlock b s)) = db_getBlock h0 k s"
    by (simp add: db_putBlock_def db_getBlock_def store_put_def thenX_run store_get_put asBytes_inj
        split: sum.splits)
qed

interpretation block_index:
  object_store "db_getBlockByNumber h0" db_putBlock block_number block_stored block_ok
proof
  fix b s k
  show "block_ok b \<Longrightarrow> fst (db_putBlock b s) = Inr ()"
    by (rule block_store.put_ok)
  show "block_ok b \<Longrightarrow> db_getBlockByNumber h0 (block_number b) (snd (db_putBlock b s)) = Inr (block_stored b)"
    using item_not_Nil [OF block_codec.spec_item, of b]
    by (simp add: db_putBlock_def db_getBlockByNumber_def store_put_Inr thenX_run block_codec.enc_spec
        store_get_put block_codec.dec_spec)
  show "k \<noteq> block_number b \<Longrightarrow> db_getBlockByNumber h0 k (snd (db_putBlock b s)) = db_getBlockByNumber h0 k s"
    by (simp add: db_putBlock_def db_getBlockByNumber_def store_put_def thenX_run store_get_put
        number_key_inj split: sum.splits)
qed

end
