(* ===== verification/Repository.thy ===== *)
theory Repository
  imports Database
begin

text \<open>
  \<open>runtime/storage/Repository\<close>: a chain of write caches over the database. A repository with its
  parents is a list of layers, the repository itself first. The three getters share one shape (the
  macros \<open>GET_FROM_CURRENT_RETURN\<close>, \<open>GET_FROM_PARENT_RETURN\<close> and \<open>GET_FROM_DBC_RETURN\<close>), here
  \<open>read_through\<close>; reading fills the cache of every layer on the way.
\<close>

section \<open>State\<close>

record layer =
  l_accounts :: "(address, account) stdmap"
  l_producers :: "(address, producer) stdmap"
  l_transactions :: "(h256, transaction) stdmap"
  l_block :: block

record repo =
  r_layers :: "layer list"
  r_db :: database

type_synonym 'a repo_op = "(repo, exn, 'a) exec"

definition new_layer :: "block \<Rightarrow> layer" where
  "new_layer b = \<lparr>l_accounts = [], l_producers = [], l_transactions = [], l_block = b\<rparr>"

section \<open>Reading through the layers\<close>

text \<open>\<open>copy\<close> is the assignment of the value found to the local variable of the getter, \<open>missing\<close> what
  the getter returns when the database has no entry either.\<close>

fun read_through ::
  "('l \<Rightarrow> 'v option) \<Rightarrow> ('v \<Rightarrow> 'l \<Rightarrow> 'l) \<Rightarrow> ('v \<Rightarrow> bool) \<Rightarrow> ('v \<Rightarrow> 'v) \<Rightarrow> ('v \<Rightarrow> 'v) \<Rightarrow> exn + 'v \<Rightarrow>
   'l list \<Rightarrow> (exn + 'v) \<times> 'l list" where
  "read_through cached store vacant copy missing dbv [] = (dbv, [])"
| "read_through cached store vacant copy missing dbv (l # ps) =
     (case cached l of
        Some v \<Rightarrow> (Inr v, l # ps)
      | None \<Rightarrow>
          (let fromDBC = (\<lambda>ps'. case dbv of
                   Inl e \<Rightarrow> (Inl e, l # ps')
                 | Inr v \<Rightarrow> if vacant (copy v) then (Inr (missing (copy v)), l # ps')
                            else (Inr (copy v), store (copy v) l # ps'))
           in if ps = [] then fromDBC []
              else case read_through cached store vacant copy missing dbv ps of
                     (Inl e, ps') \<Rightarrow> (Inl e, l # ps')
                   | (Inr v, ps') \<Rightarrow>
                       if vacant (copy v) then fromDBC ps'
                       else (Inr (copy v), store (copy v) l # ps')))"

definition layer_putAccount :: "account \<Rightarrow> layer \<Rightarrow> layer" where
  "layer_putAccount a l =
     (case om_find (l_accounts l) (a_address a) of
        Some old \<Rightarrow> l\<lparr>l_accounts := om_put (a_address a) (account_assign old a) (l_accounts l)\<rparr>
      | None \<Rightarrow> l\<lparr>l_accounts := om_emplace (a_address a) a (l_accounts l)\<rparr>)"

definition layer_putProducer :: "producer \<Rightarrow> layer \<Rightarrow> layer" where
  "layer_putProducer p l =
     (case om_find (l_producers l) (p_address p) of
        Some old \<Rightarrow> l\<lparr>l_producers := om_put (p_address p) p (l_producers l)\<rparr>
      | None \<Rightarrow> l\<lparr>l_producers := om_emplace (p_address p) p (l_producers l)\<rparr>)"

definition layer_putTransaction :: "transaction \<Rightarrow> layer \<Rightarrow> layer" where
  "layer_putTransaction t l =
     (let h = transaction_getHash t in
      case om_find (l_transactions l) h of
        Some old \<Rightarrow> l\<lparr>l_transactions := om_put h t (l_transactions l)\<rparr>
      | None \<Rightarrow> l\<lparr>l_transactions := om_emplace h t (l_transactions l)\<rparr>)"

definition isEmptyAccount :: "account \<Rightarrow> bool" where
  "isEmptyAccount a = account_eq a EmptyAccount"

definition isEmptyProducer :: "producer \<Rightarrow> bool" where
  "isEmptyProducer p = producer_eq p EmptyProducer"

definition isEmptyTransaction :: "transaction \<Rightarrow> bool" where
  "isEmptyTransaction t = transaction_eq t EmptyTransaction"

section \<open>Accounts\<close>

definition getAccount :: "address \<Rightarrow> account repo_op" where
  "getAccount addr = (\<lambda>r.
     let (res, ls) = read_through (\<lambda>l. om_find (l_accounts l) addr) layer_putAccount isEmptyAccount
           (account_assign EmptyAccount) (\<lambda>a. a) (db_getAccount addr (r_db r)) (r_layers r)
     in (res, r\<lparr>r_layers := ls\<rparr>))"

definition on_head :: "(layer \<Rightarrow> layer) \<Rightarrow> unit repo_op" where
  "on_head f = modifyX (\<lambda>r. case r_layers r of [] \<Rightarrow> r | l # ls \<Rightarrow> r\<lparr>r_layers := f l # ls\<rparr>)"

definition putAccount :: "account \<Rightarrow> unit repo_op" where
  "putAccount a = on_head (layer_putAccount a)"

definition blockTimestamp :: "int repo_op" where
  "blockTimestamp = (\<lambda>r. (Inr (block_timestamp (l_block (hd (r_layers r)))), r))"

definition getBalance :: "address \<Rightarrow> u64 repo_op" where
  "getBalance addr = bindX (getAccount addr) (\<lambda>a.
     if isEmptyAccount a then returnX 0 else returnX (a_balance a))"

text \<open>The account that \<open>addBalance\<close>, \<open>setBalance\<close> and \<open>transfer\<close> create for a missing address; the
  assignment to the local keeps its list of contract addresses.\<close>

definition or_new_account :: "address \<Rightarrow> account \<Rightarrow> account repo_op" where
  "or_new_account addr a =
     (if isEmptyAccount a
      then bindX blockTimestamp (\<lambda>ts. returnX (account_assign a (new_account addr 0 ts)))
      else returnX a)"

definition addBalance :: "address \<Rightarrow> u64 \<Rightarrow> unit repo_op" where
  "addBalance addr amount =
     bindX (getAccount addr) (\<lambda>a0. bindX (or_new_account addr a0) (\<lambda>a.
       if a_balance a + amount < amount then throwX RepositoryException
       else putAccount (account_setBalance (a_balance a + amount) a)))"

definition subBalance :: "address \<Rightarrow> u64 \<Rightarrow> unit repo_op" where
  "subBalance addr amount =
     bindX (getAccount addr) (\<lambda>a.
       if isEmptyAccount a \<or> a_balance a < amount then throwX RepositoryException
       else putAccount (account_setBalance (a_balance a - amount) a))"

definition setBalance :: "address \<Rightarrow> u64 \<Rightarrow> unit repo_op" where
  "setBalance addr value =
     bindX (getAccount addr) (\<lambda>a0. bindX (or_new_account addr a0) (\<lambda>a.
       putAccount (account_setBalance value a)))"

definition transfer :: "address \<Rightarrow> address \<Rightarrow> u64 \<Rightarrow> unit repo_op" where
  "transfer from to value =
     bindX (getAccount from) (\<lambda>f. bindX (getAccount to) (\<lambda>t0.
       if isEmptyAccount f then throwX RepositoryException
       else bindX (or_new_account to t0) (\<lambda>t.
         if a_balance f < value \<or> a_balance t + value < value then throwX RepositoryException
         else thenX (putAccount (account_setBalance (a_balance f - value) f))
                (putAccount (account_setBalance (a_balance t + value) t)))))"

definition burn :: "address \<Rightarrow> u64 \<Rightarrow> unit repo_op" where
  "burn target value =
     bindX (getAccount target) (\<lambda>a.
       if isEmptyAccount a then throwX RepositoryException
       else if a_balance a < value then throwX RepositoryException
       else putAccount (account_setBalance (a_balance a - value) a))"

definition bonus :: "address \<Rightarrow> u64 \<Rightarrow> unit repo_op" where
  "bonus target value =
     bindX (getAccount target) (\<lambda>a.
       if isEmptyAccount a then throwX RepositoryException
       else putAccount (account_setBalance (a_balance a + value) a))"

definition isAddressExist :: "address \<Rightarrow> bool repo_op" where
  "isAddressExist addr = bindX (getAccount addr) (\<lambda>a. returnX (\<not> isEmptyAccount a))"

definition isContractAddress :: "address \<Rightarrow> bool repo_op" where
  "isContractAddress addr = bindX (getAccount addr) (\<lambda>a.
     if isEmptyAccount a then returnX False
     else if a_type a = ContractType then returnX True else returnX False)"

definition codeSize :: "address \<Rightarrow> nat repo_op" where
  "codeSize addr = bindX (getAccount addr) (\<lambda>a.
     if isEmptyAccount a \<or> a_type a \<noteq> ContractType then returnX 0 else returnX (length (a_code a)))"

definition codeHash :: "address \<Rightarrow> h256 repo_op" where
  "codeHash addr = bindX (getAccount addr) (\<lambda>a.
     if isEmptyAccount a \<or> a_type a \<noteq> ContractType then returnX 0 else returnX (sha3 (a_code a)))"

definition code :: "address \<Rightarrow> bytes repo_op" where
  "code addr = bindX (getAccount addr) (\<lambda>a.
     if isEmptyAccount a \<or> a_type a \<noteq> ContractType then returnX [] else returnX (a_code a))"

section \<open>Producers and votes\<close>

definition getProducer :: "address \<Rightarrow> producer repo_op" where
  "getProducer addr = (\<lambda>r.
     let (res, ls) = read_through (\<lambda>l. om_find (l_producers l) addr) layer_putProducer isEmptyProducer
           (\<lambda>p. p) (\<lambda>_. EmptyProducer) (db_getProducer addr (r_db r)) (r_layers r)
     in (res, r\<lparr>r_layers := ls\<rparr>))"

definition putProducer :: "producer \<Rightarrow> unit repo_op" where
  "putProducer p = on_head (layer_putProducer p)"

fun producerList_layers :: "exn + (address, producer) stdmap \<Rightarrow> layer list \<Rightarrow> exn + (address, producer) stdmap" where
  "producerList_layers dbv [] = dbv"
| "producerList_layers dbv (l # ps) =
     bindE (producerList_layers dbv ps) (\<lambda>ret. Inr (fold (\<lambda>(k, p). om_put k p) (l_producers l) ret))"

definition getProducerList :: "(address, producer) stdmap repo_op" where
  "getProducerList = (\<lambda>r. (producerList_layers (db_getProducerList (r_db r)) (r_layers r), r))"

definition clearVote :: "address \<Rightarrow> unit repo_op" where
  "clearVote addr =
     bindX (getAccount addr) (\<lambda>a.
       if isEmptyAccount a then throwX RepositoryException
       else thenX
         (forX (map fst (a_candidates a)) (\<lambda>c. bindX (getProducer c) (\<lambda>p.
            if isEmptyProducer p then throwX RepositoryException
            else putProducer (producer_eraseVoter addr p))))
         (putAccount (account_clearVote a)))"

definition VOTE_UNIT :: u64 where "VOTE_UNIT = 1000000"

definition voteIncrease :: "address \<Rightarrow> address \<Rightarrow> u64 \<Rightarrow> unit repo_op" where
  "voteIncrease voter cand value =
     bindX (getAccount voter) (\<lambda>a.
       if isEmptyAccount a then throwX RepositoryException
       else bindX (getProducer cand) (\<lambda>p.
         if isEmptyProducer p then throwX RepositoryException
         else if a_balance a - a_votes a * VOTE_UNIT < value * VOTE_UNIT then throwX RepositoryException
         else thenX (putAccount (account_addVoter cand value a)) (putProducer (producer_addVoter voter value p))))"

section \<open>Transactions and blocks\<close>

definition getTransaction :: "h256 \<Rightarrow> transaction repo_op" where
  "getTransaction h = (\<lambda>r.
     let (res, ls) = read_through (\<lambda>l. om_find (l_transactions l) h) layer_putTransaction isEmptyTransaction
           (\<lambda>t. t) (\<lambda>_. EmptyTransaction) (db_getTransaction h (r_db r)) (r_layers r)
     in (res, r\<lparr>r_layers := ls\<rparr>))"

definition putTransaction :: "transaction \<Rightarrow> unit repo_op" where
  "putTransaction t = on_head (layer_putTransaction t)"

text \<open>\<open>getBlock(id)\<close>: the block of the first layer that has it, then the database; each parent asks
  the database itself before its child does.\<close>

fun getBlock_layers :: "block_header \<Rightarrow> h256 \<Rightarrow> database \<Rightarrow> layer list \<Rightarrow> exn + block" where
  "getBlock_layers h0 h db [] = db_getBlock h0 h db"
| "getBlock_layers h0 h db (l # ps) =
     (if block_getHash (l_block l) = h then Inr (l_block l)
      else if ps = [] then db_getBlock h0 h db
      else bindE (getBlock_layers h0 h db ps) (\<lambda>ret.
        if block_getHash ret = block_getHash EmptyBlock then db_getBlock h0 h db else Inr ret))"

definition getBlock :: "block_header \<Rightarrow> h256 \<Rightarrow> block repo_op" where
  "getBlock h0 h = (\<lambda>r. (getBlock_layers h0 h (r_db r) (r_layers r), r))"

section \<open>Commit\<close>

definition on_db :: "(database, exn, 'a) exec \<Rightarrow> 'a repo_op" where
  "on_db m = (\<lambda>r. case m (r_db r) of (res, db) \<Rightarrow> (res, r\<lparr>r_db := db\<rparr>))"

text \<open>\<open>m_parent->put(i.second)\<close> for every entry of the three caches.\<close>

definition commit_layer :: "layer \<Rightarrow> layer \<Rightarrow> layer" where
  "commit_layer l p =
     fold layer_putTransaction (map snd (l_transactions l))
       (fold layer_putProducer (map snd (l_producers l))
         (fold layer_putAccount (map snd (l_accounts l)) p))"

definition commit_db :: "layer \<Rightarrow> (database, exn, unit) exec" where
  "commit_db l =
     thenX (forX (map snd (l_accounts l)) db_putAccount)
       (thenX (forX (map snd (l_producers l)) db_putProducer)
         (thenX (forX (map snd (l_transactions l)) db_putTransaction)
           (db_putBlock (l_block l))))"

definition commit :: "unit repo_op" where
  "commit = (\<lambda>r. case r_layers r of
       [] \<Rightarrow> (Inr (), r)
     | [l] \<Rightarrow> on_db (commit_db l) r
     | l # p # ps \<Rightarrow> (Inr (), r\<lparr>r_layers := l # commit_layer l p # ps\<rparr>))"

end
