(* ===== verification/LayerCache.thy ===== *)
theory LayerCache
  imports Repository
begin

text \<open>
  The contract of one kind of cached object in a chain of repositories, and what \<open>read_through\<close>
  guarantees under it: a getter returns the value of the innermost layer that has the object, or
  the database's, and filling the caches on the way changes no lookup. The contract is interpreted
  for accounts, producers and transactions.
\<close>

section \<open>Lookups\<close>

fun lookup_layers :: "('l \<Rightarrow> 'v option) \<Rightarrow> 'l list \<Rightarrow> 'v option" where
  "lookup_layers f [] = None"
| "lookup_layers f (l # ls) = (case f l of Some v \<Rightarrow> Some v | None \<Rightarrow> lookup_layers f ls)"

text \<open>\<open>good v\<close> are the values the caches hold.\<close>

locale layer_cache =
  fixes cached :: "'k \<Rightarrow> 'l \<Rightarrow> 'v option"
    and store :: "'v \<Rightarrow> 'l \<Rightarrow> 'l"
    and key :: "'v \<Rightarrow> 'k"
    and vacant :: "'v \<Rightarrow> bool"
    and copy :: "'v \<Rightarrow> 'v"
    and missing :: "'v \<Rightarrow> 'v"
    and good :: "'v \<Rightarrow> bool"
    and linv :: "'l \<Rightarrow> bool"
    and frame :: "'l \<Rightarrow> 'f"
  assumes cached_store: "linv l \<Longrightarrow> good v \<Longrightarrow> cached k (store v l) = (if k = key v then Some v else cached k l)"
    and linv_store: "linv l \<Longrightarrow> good v \<Longrightarrow> linv (store v l)"
    and frame_store: "frame (store v l) = frame l"
    and cached_good: "linv l \<Longrightarrow> cached k l = Some v \<Longrightarrow> good v \<and> key v = k"
    and copy_good: "good v \<Longrightarrow> copy v = v"
    and good_not_vacant: "good v \<Longrightarrow> \<not> vacant v"
    and copy_vacant: "vacant (copy v) \<Longrightarrow> vacant (copy (missing (copy v)))"
begin

definition db_value :: "exn + 'v \<Rightarrow> exn + 'v" where
  "db_value w = bindE w (\<lambda>v. Inr (if vacant (copy v) then missing (copy v) else copy v))"

text \<open>What the database may hold under a key.\<close>

definition db_good :: "('k \<Rightarrow> exn + 'v) \<Rightarrow> bool" where
  "db_good db \<longleftrightarrow> (\<forall>k v. db k = Inr v \<longrightarrow> \<not> vacant (copy v) \<longrightarrow> good (copy v) \<and> key (copy v) = k)"

definition view :: "('k \<Rightarrow> exn + 'v) \<Rightarrow> 'l list \<Rightarrow> 'k \<Rightarrow> exn + 'v" where
  "view db ls k = (case lookup_layers (cached k) ls of Some v \<Rightarrow> Inr v | None \<Rightarrow> db_value (db k))"

abbreviation "read db k \<equiv> read_through (cached k) store vacant copy missing (db k)"

lemma view_values:
  assumes "db_good db" "\<forall>l \<in> set ls. linv l" "view db ls k = Inr v"
  shows "(good v \<and> key v = k) \<or> vacant (copy v)"
proof (cases "lookup_layers (cached k) ls")
  case None
  then obtain a where a: "db k = Inr a" using assms(3) by (auto simp: view_def db_value_def bindE_Inr_iff)
  show ?thesis
  proof (cases "vacant (copy a)")
    case True
    then show ?thesis using None a assms(3) copy_vacant by (auto simp: view_def db_value_def)
  next
    case False
    then show ?thesis using None a assms(1,3) by (auto simp: view_def db_value_def db_good_def)
  qed
next
  case (Some w)
  have "lookup_layers (cached k) ls = Some w \<Longrightarrow> good w \<and> key w = k"
    using assms(2) by (induction ls) (auto simp: cached_good split: option.splits)
  then show ?thesis using Some assms(3) by (simp add: view_def)
qed

lemma view_Cons: "view db (l # ls) k = (case cached k l of Some v \<Rightarrow> Inr v | None \<Rightarrow> view db ls k)"
  by (simp add: view_def split: option.splits)

text \<open>Storing the value a key already has changes no lookup.\<close>

lemma view_store_same:
  assumes "linv l" "good v" "key v = k" "view db (l # ls) k = Inr v"
  shows "view db (store v l # ls) k' = view db (l # ls) k'"
  using assms cached_store [OF assms(1,2)] by (auto simp: view_Cons split: option.splits)

lemma read_view:
  assumes "db_good db" "\<forall>l \<in> set ls. linv l" "ls \<noteq> []"
  shows "fst (read db k ls) = view db ls k \<and> (\<forall>l \<in> set (snd (read db k ls)). linv l) \<and>
         map frame (snd (read db k ls)) = map frame ls \<and> (\<forall>k'. view db (snd (read db k ls)) k' = view db ls k')"
  using assms(2,3)
proof (induction ls)
  case (Cons l ps)
  let ?fromDBC = "\<lambda>ps'. case db k of Inl e \<Rightarrow> (Inl e, l # ps')
     | Inr v \<Rightarrow> if vacant (copy v) then (Inr (missing (copy v)), l # ps')
                else (Inr (copy v), store (copy v) l # ps')"
  have l: "linv l" using Cons.prems by simp
  show ?case
  proof (cases "cached k l")
    case (Some v)
    then show ?thesis using Cons.prems by (simp add: view_Cons)
  next
    case None
    have dbc: "fst (?fromDBC ps') = view db (l # ps) k \<and> (\<forall>x \<in> set (snd (?fromDBC ps')). linv x) \<and>
        map frame (snd (?fromDBC ps')) = map frame (l # ps) \<and>
        (\<forall>k'. view db (snd (?fromDBC ps')) k' = view db (l # ps) k')"
      if ps': "view db ps k = db_value (db k)" "\<forall>x \<in> set ps'. linv x" "map frame ps' = map frame ps"
        "\<forall>k'. view db ps' k' = view db ps k'" for ps'
    proof (cases "db k")
      case (Inl e)
      then show ?thesis using ps' l None by (simp add: view_Cons db_value_def split: option.splits)
    next
      case (Inr v)
      show ?thesis
      proof (cases "vacant (copy v)")
        case True
        then show ?thesis using ps' l None Inr by (simp add: view_Cons db_value_def split: option.splits)
      next
        case False
        then have g: "good (copy v)" "key (copy v) = k" using assms(1) Inr by (auto simp: db_good_def)
        have "view db (l # ps') k = Inr (copy v)"
          using None ps' Inr False by (simp add: view_Cons db_value_def)
        from view_store_same [OF l g this] show ?thesis
          using ps' l None Inr False g
          by (simp add: view_Cons db_value_def frame_store linv_store split: option.splits)
      qed
    qed
    show ?thesis
    proof (cases "ps = []")
      case True
      have "view db ps k = db_value (db k)" using True by (simp add: view_def)
      from dbc [OF this, of "[]"] True show ?thesis using None by (simp add: Let_def)
    next
      case False
      obtain r ps' where rd: "read db k ps = (r, ps')" by (cases "read db k ps")
      have ih: "r = view db ps k" "\<forall>x \<in> set ps'. linv x" "map frame ps' = map frame ps"
        "\<forall>k'. view db ps' k' = view db ps k'"
        using Cons.IH Cons.prems False rd by auto
      show ?thesis
      proof (cases r)
        case (Inl e)
        then show ?thesis using False None rd ih l by (simp add: view_Cons split: option.splits)
      next
        case (Inr v)
        show ?thesis
        proof (cases "vacant (copy v)")
          case True
          have "view db ps k = db_value (db k)"
          proof (cases "lookup_layers (cached k) ps")
            case (Some w)
            then have "v = w" using ih(1) Inr by (simp add: view_def)
            moreover have "good w" using Some Cons.prems
              by (induction ps) (auto simp: cached_good split: option.splits)
            ultimately show ?thesis using True copy_good good_not_vacant by metis
          qed (simp add: view_def)
          from dbc [OF this ih(2-4)] show ?thesis using False None rd Inr True by (simp add: Let_def)
        next
          case nv: False
          have "(good v \<and> key v = k) \<or> vacant (copy v)"
            using Cons.prems ih(1) Inr by (intro view_values [OF assms(1), of ps]) simp_all
          then have g: "good v" "key v = k" using nv by auto
          have "view db (l # ps') k = Inr v" using None ih Inr by (simp add: view_Cons)
          from view_store_same [OF l g this] show ?thesis
            using False None rd Inr nv ih g l copy_good [OF g(1)]
            by (simp add: view_Cons frame_store linv_store split: option.splits)
        qed
      qed
    qed
  qed
qed simp

end

section \<open>The three caches\<close>

definition account_good :: "account \<Rightarrow> bool" where
  "account_good a \<longleftrightarrow> a_alive a \<and> a_contractAddresses a = []"

definition accounts_inv :: "layer \<Rightarrow> bool" where
  "accounts_inv l \<longleftrightarrow> om_inv (l_accounts l) \<and>
     list_all (\<lambda>(k, a). account_good a \<and> a_address a = k) (l_accounts l)"

definition producers_inv :: "layer \<Rightarrow> bool" where
  "producers_inv l \<longleftrightarrow> om_inv (l_producers l) \<and>
     list_all (\<lambda>(k, p). \<not> isEmptyProducer p \<and> p_address p = k) (l_producers l)"

definition transactions_inv :: "layer \<Rightarrow> bool" where
  "transactions_inv l \<longleftrightarrow> om_inv (l_transactions l) \<and>
     list_all (\<lambda>(h, t). \<not> isEmptyTransaction t \<and> transaction_getHash t = h) (l_transactions l)"

lemma entries_put:
  assumes "list_all (\<lambda>(k, v). Q k v) m" "Q k v"
  shows "list_all (\<lambda>(k, v). Q k v) (om_put k v m)"
  using assms by (induction k v m rule: om_put.induct) auto

lemma entries_find: "list_all (\<lambda>(k, v). Q k v) m \<Longrightarrow> om_find m k = Some v \<Longrightarrow> Q k v"
  by (auto simp: list_all_iff om_find_def dest!: map_of_SomeD)

lemma om_emplace_new: "om_find m k = None \<Longrightarrow> om_emplace k v m = om_put k v m"
  by (simp add: om_emplace_def)

lemma account_assign_good:
  "account_good a \<Longrightarrow> a_contractAddresses old = [] \<Longrightarrow> account_assign old a = a"
  by (cases a, cases old) (simp add: account_assign_def account_good_def)

lemma layer_putAccount_good:
  assumes "accounts_inv l" "account_good a"
  shows "layer_putAccount a l = l\<lparr>l_accounts := om_put (a_address a) a (l_accounts l)\<rparr>"
proof (cases "om_find (l_accounts l) (a_address a)")
  case (Some old)
  then have "account_good old"
    using assms(1) entries_find [of "\<lambda>k a. account_good a \<and> a_address a = k"]
    unfolding accounts_inv_def by blast
  then show ?thesis using Some assms(2)
    by (simp add: layer_putAccount_def account_assign_good account_good_def)
qed (simp add: layer_putAccount_def om_emplace_new)

lemma layer_putProducer_eq: "layer_putProducer p l = l\<lparr>l_producers := om_put (p_address p) p (l_producers l)\<rparr>"
  by (simp add: layer_putProducer_def om_emplace_new split: option.splits)

lemma layer_putTransaction_eq:
  "layer_putTransaction t l = l\<lparr>l_transactions := om_put (transaction_getHash t) t (l_transactions l)\<rparr>"
  by (simp add: layer_putTransaction_def om_emplace_new Let_def split: option.splits)

lemma isEmptyAccount_assign [simp]: "isEmptyAccount (account_assign b a) = isEmptyAccount a"
  by (simp add: isEmptyAccount_def account_eq_def account_assign_def)

lemma account_good_not_empty: "account_good a \<Longrightarrow> \<not> isEmptyAccount a"
  by (simp add: account_good_def isEmptyAccount_def alive_not_empty)

interpretation ac: layer_cache "\<lambda>k l. om_find (l_accounts l) k" layer_putAccount a_address isEmptyAccount
  "account_assign EmptyAccount" "\<lambda>a. a" account_good accounts_inv
  "\<lambda>l. (l_producers l, l_transactions l, l_block l)"
proof
  fix l :: layer and v k
  assume l: "accounts_inv l"
  {
    assume v: "account_good v"
    show "om_find (l_accounts (layer_putAccount v l)) k = (if k = a_address v then Some v else om_find (l_accounts l) k)"
      by (simp add: layer_putAccount_good [OF l v])
    show "accounts_inv (layer_putAccount v l)"
      using l v entries_put [of "\<lambda>k a. account_good a \<and> a_address a = k"]
      by (simp add: layer_putAccount_good [OF l v] accounts_inv_def)
  }
  assume "om_find (l_accounts l) k = Some v"
  then show "account_good v \<and> a_address v = k"
    using l entries_find [of "\<lambda>k a. account_good a \<and> a_address a = k"] unfolding accounts_inv_def by blast
next
  fix v :: account and l :: layer
  show "(l_producers (layer_putAccount v l), l_transactions (layer_putAccount v l), l_block (layer_putAccount v l)) =
     (l_producers l, l_transactions l, l_block l)"
    by (simp add: layer_putAccount_def split: option.splits)
  show "account_good v \<Longrightarrow> account_assign EmptyAccount v = v"
    by (rule account_assign_good) (simp_all add: EmptyAccount_def)
  show "account_good v \<Longrightarrow> \<not> isEmptyAccount v" by (rule account_good_not_empty)
qed simp

interpretation pc: layer_cache "\<lambda>k l. om_find (l_producers l) k" layer_putProducer p_address isEmptyProducer
  "\<lambda>p. p" "\<lambda>_. EmptyProducer" "\<lambda>p. \<not> isEmptyProducer p" producers_inv
  "\<lambda>l. (l_accounts l, l_transactions l, l_block l)"
proof
  fix l :: layer and v k
  assume l: "producers_inv l"
  show "\<not> isEmptyProducer v \<Longrightarrow> producers_inv (layer_putProducer v l)"
    using l entries_put [of "\<lambda>k p. \<not> isEmptyProducer p \<and> p_address p = k"]
    by (simp add: layer_putProducer_eq producers_inv_def)
  assume "om_find (l_producers l) k = Some v"
  then show "\<not> isEmptyProducer v \<and> p_address v = k"
    using l entries_find [of "\<lambda>k p. \<not> isEmptyProducer p \<and> p_address p = k"] unfolding producers_inv_def by blast
qed (simp_all add: layer_putProducer_eq, simp add: isEmptyProducer_def producer_eq_def)

interpretation tc: layer_cache "\<lambda>k l. om_find (l_transactions l) k" layer_putTransaction transaction_getHash
  isEmptyTransaction "\<lambda>t. t" "\<lambda>_. EmptyTransaction" "\<lambda>t. \<not> isEmptyTransaction t" transactions_inv
  "\<lambda>l. (l_accounts l, l_producers l, l_block l)"
proof
  fix l :: layer and v k
  assume l: "transactions_inv l"
  show "\<not> isEmptyTransaction v \<Longrightarrow> transactions_inv (layer_putTransaction v l)"
    using l entries_put [of "\<lambda>h t. \<not> isEmptyTransaction t \<and> transaction_getHash t = h"]
    by (simp add: layer_putTransaction_eq transactions_inv_def)
  assume "om_find (l_transactions l) k = Some v"
  then show "\<not> isEmptyTransaction v \<and> transaction_getHash v = k"
    using l entries_find [of "\<lambda>h t. \<not> isEmptyTransaction t \<and> transaction_getHash t = h"]
    unfolding transactions_inv_def by blast
qed (simp_all add: layer_putTransaction_eq, simp add: isEmptyTransaction_def transaction_eq_def)

end
