(* ===== verification/Ledger.thy ===== *)
theory Ledger
  imports LayerCache
begin

text \<open>
  What a repository means: one ledger of accounts and producers, whatever the number
  of layers and whatever has been cached. The operations of \<open>Repository\<close> are shown to be the
  operations on the ledger, errors included, and the theorems on balances and votes are proved there.
\<close>

section \<open>The ledger\<close>

record ledger =
  lg_account :: "address \<Rightarrow> exn + account"
  lg_producer :: "address \<Rightarrow> exn + producer"
  lg_timestamp :: int

definition abs_repo :: "repo \<Rightarrow> ledger" where
  "abs_repo r =
     \<lparr>lg_account = ac.view (\<lambda>a. db_getAccount a (r_db r)) (r_layers r),
      lg_producer = pc.view (\<lambda>a. db_getProducer a (r_db r)) (r_layers r),
      lg_timestamp = block_timestamp (l_block (hd (r_layers r)))\<rparr>"

definition layer_inv :: "layer \<Rightarrow> bool" where
  "layer_inv l \<longleftrightarrow> accounts_inv l \<and> producers_inv l"

definition db_inv :: "database \<Rightarrow> bool" where
  "db_inv db \<longleftrightarrow> ac.db_good (\<lambda>a. db_getAccount a db) \<and> pc.db_good (\<lambda>a. db_getProducer a db)"

definition repo_inv :: "repo \<Rightarrow> bool" where
  "repo_inv r \<longleftrightarrow> r_layers r \<noteq> [] \<and> (\<forall>l \<in> set (r_layers r). layer_inv l) \<and> db_inv (r_db r)"

interpretation led: simulation abs_repo repo_inv .

type_synonym 'a ledger_op = "(ledger, exn, 'a) exec"

definition ledger_getAccount :: "address \<Rightarrow> account ledger_op" where
  "ledger_getAccount a = (\<lambda>g. (lg_account g a, g))"

definition ledger_putAccount :: "account \<Rightarrow> unit ledger_op" where
  "ledger_putAccount a = modifyX (\<lambda>g. g\<lparr>lg_account := (lg_account g)(a_address a := Inr a)\<rparr>)"

definition ledger_getProducer :: "address \<Rightarrow> producer ledger_op" where
  "ledger_getProducer a = (\<lambda>g. (lg_producer g a, g))"

definition ledger_putProducer :: "producer \<Rightarrow> unit ledger_op" where
  "ledger_putProducer p = modifyX (\<lambda>g. g\<lparr>lg_producer := (lg_producer g)(p_address p := Inr p)\<rparr>)"

section \<open>The primitives refine the ledger\<close>

lemma layers_frame:
  assumes "map (\<lambda>l. (f l, g l, h l)) ls = map (\<lambda>l. (f l, g l, h l)) ls'"
  shows "map f ls = map f ls'" "map g ls = map g ls'" "map h ls = map h ls'" "length ls = length ls'"
proof -
  show "length ls = length ls'" using map_eq_imp_length_eq [OF assms] .
  then show "map f ls = map f ls'" "map g ls = map g ls'" "map h ls = map h ls'"
    using assms by (induction ls ls' rule: list_induct2) auto
qed

lemma lookup_layers_map: "lookup_layers (\<lambda>l. F (f l)) ls = lookup_layers F (map f ls)"
  by (induction ls) (auto split: option.splits)

lemma lookup_layers_cong:
  "map f ls = map f ls' \<Longrightarrow> lookup_layers (\<lambda>l. F (f l)) ls = lookup_layers (\<lambda>l. F (f l)) ls'"
  by (simp only: lookup_layers_map)

lemma ac_view_cong:
  assumes "map l_accounts ls = map l_accounts ls'"
  shows "ac.view db ls = ac.view db ls'"
proof
  fix k
  show "ac.view db ls k = ac.view db ls' k"
    by (simp only: ac.view_def lookup_layers_cong [OF assms, of "\<lambda>m. om_find m k"])
qed

lemma pc_view_cong:
  assumes "map l_producers ls = map l_producers ls'"
  shows "pc.view db ls = pc.view db ls'"
proof
  fix k
  show "pc.view db ls k = pc.view db ls' k"
    by (simp only: pc.view_def lookup_layers_cong [OF assms, of "\<lambda>m. om_find m k"])
qed

lemma inv_of_map:
  "accounts_inv l \<longleftrightarrow> accounts_inv \<lparr>l_accounts = l_accounts l, l_producers = [], l_transactions = [], l_block = EmptyBlock\<rparr>"
  "producers_inv l \<longleftrightarrow> producers_inv \<lparr>l_accounts = [], l_producers = l_producers l, l_transactions = [], l_block = EmptyBlock\<rparr>"
  by (simp_all add: accounts_inv_def producers_inv_def)

lemma ball_map_cong:
  assumes "map f ls = map f ls'" "\<And>l. P l = Q (f l)" "\<forall>l \<in> set ls. P l"
  shows "\<forall>l \<in> set ls'. P l"
  using assms by (metis list.set_map image_iff)

lemma hd_map_cong: "map f ls = map f ls' \<Longrightarrow> ls \<noteq> [] \<Longrightarrow> f (hd ls) = f (hd ls')"
  by (cases ls; cases ls') auto

lemma getAccount_run:
  assumes "repo_inv r"
  shows "fst (getAccount a r) = lg_account (abs_repo r) a \<and> abs_repo (snd (getAccount a r)) = abs_repo r \<and>
         repo_inv (snd (getAccount a r)) \<and> r_db (snd (getAccount a r)) = r_db r"
proof -
  let ?db = "\<lambda>a. db_getAccount a (r_db r)"
  obtain res ls where rd: "ac.read ?db a (r_layers r) = (res, ls)" by (cases "ac.read ?db a (r_layers r)")
  have i: "ac.db_good ?db" "\<forall>l \<in> set (r_layers r). accounts_inv l" "r_layers r \<noteq> []"
    using assms by (auto simp: repo_inv_def layer_inv_def db_inv_def)
  have v: "res = ac.view ?db (r_layers r) a" "\<forall>l \<in> set ls. accounts_inv l"
    "map (\<lambda>l. (l_producers l, l_transactions l, l_block l)) ls =
     map (\<lambda>l. (l_producers l, l_transactions l, l_block l)) (r_layers r)"
    "ac.view ?db ls = ac.view ?db (r_layers r)"
    using ac.read_view [OF i, of a] rd by (auto simp: fun_eq_iff)
  note f = layers_frame [OF v(3)]
  have "\<forall>l \<in> set ls. producers_inv l"
    using assms ball_map_cong [OF f(1) [symmetric], of producers_inv, OF inv_of_map(2)]
    by (auto simp: repo_inv_def layer_inv_def)
  moreover have "ls \<noteq> []" using f(4) i(3) by auto
  moreover have "l_block (hd ls) = l_block (hd (r_layers r))" using hd_map_cong [OF f(3)] \<open>ls \<noteq> []\<close> .
  ultimately show ?thesis
    using rd v assms pc_view_cong [OF f(1)]
    by (simp add: getAccount_def abs_repo_def repo_inv_def layer_inv_def)
qed

lemma getProducer_run:
  assumes "repo_inv r"
  shows "fst (getProducer a r) = lg_producer (abs_repo r) a \<and> abs_repo (snd (getProducer a r)) = abs_repo r \<and>
         repo_inv (snd (getProducer a r)) \<and> r_db (snd (getProducer a r)) = r_db r"
proof -
  let ?db = "\<lambda>a. db_getProducer a (r_db r)"
  obtain res ls where rd: "pc.read ?db a (r_layers r) = (res, ls)" by (cases "pc.read ?db a (r_layers r)")
  have i: "pc.db_good ?db" "\<forall>l \<in> set (r_layers r). producers_inv l" "r_layers r \<noteq> []"
    using assms by (auto simp: repo_inv_def layer_inv_def db_inv_def)
  have v: "res = pc.view ?db (r_layers r) a" "\<forall>l \<in> set ls. producers_inv l"
    "map (\<lambda>l. (l_accounts l, l_transactions l, l_block l)) ls =
     map (\<lambda>l. (l_accounts l, l_transactions l, l_block l)) (r_layers r)"
    "pc.view ?db ls = pc.view ?db (r_layers r)"
    using pc.read_view [OF i, of a] rd by (auto simp: fun_eq_iff)
  note f = layers_frame [OF v(3)]
  have "\<forall>l \<in> set ls. accounts_inv l"
    using assms ball_map_cong [OF f(1) [symmetric], of accounts_inv, OF inv_of_map(1)]
    by (auto simp: repo_inv_def layer_inv_def)
  moreover have "ls \<noteq> []" using f(4) i(3) by auto
  moreover have "l_block (hd ls) = l_block (hd (r_layers r))" using hd_map_cong [OF f(3)] \<open>ls \<noteq> []\<close> .
  ultimately show ?thesis
    using rd v assms ac_view_cong [OF f(1)]
    by (simp add: getProducer_def abs_repo_def repo_inv_def layer_inv_def)
qed

text \<open>What the getters return.\<close>

definition account_found :: "address \<Rightarrow> account \<Rightarrow> bool" where
  "account_found addr a \<longleftrightarrow> a_contractAddresses a = [] \<and>
     (isEmptyAccount a \<or> account_good a \<and> a_address a = addr)"

definition producer_found :: "address \<Rightarrow> producer \<Rightarrow> bool" where
  "producer_found addr p \<longleftrightarrow> isEmptyProducer p \<or> p_address p = addr"

lemma contractAddresses_assign [simp]: "a_contractAddresses (account_assign EmptyAccount v) = []"
  by (simp add: account_assign_def EmptyAccount_def)

lemma account_view_found:
  assumes "repo_inv r" "lg_account (abs_repo r) k = Inr a"
  shows "account_found k a"
proof -
  let ?db = "\<lambda>a. db_getAccount a (r_db r)"
  have i: "ac.db_good ?db" "\<forall>l \<in> set (r_layers r). accounts_inv l"
    using assms by (auto simp: repo_inv_def layer_inv_def db_inv_def)
  have v: "ac.view ?db (r_layers r) k = Inr a" using assms(2) by (simp add: abs_repo_def)
  have "(account_good a \<and> a_address a = k) \<or> isEmptyAccount (account_assign EmptyAccount a)"
    by (rule ac.view_values [OF i v])
  moreover have "a_contractAddresses a = []"
  proof (cases "lookup_layers (\<lambda>l. om_find (l_accounts l) k) (r_layers r)")
    case None
    then show ?thesis using v
      by (auto simp: ac.view_def ac.db_value_def bindE_Inr_iff)
  next
    case (Some w)
    have "lookup_layers (\<lambda>l. om_find (l_accounts l) k) ls = Some w \<Longrightarrow>
        \<forall>l \<in> set ls. accounts_inv l \<Longrightarrow> account_good w" for ls
      by (induction ls) (auto split: option.splits dest: ac.cached_good)
    then show ?thesis using Some i(2) v by (auto simp: ac.view_def account_good_def)
  qed
  ultimately show ?thesis by (auto simp: account_found_def)
qed

lemma producer_view_found:
  assumes "repo_inv r" "lg_producer (abs_repo r) k = Inr p"
  shows "producer_found k p"
proof -
  have i: "pc.db_good (\<lambda>a. db_getProducer a (r_db r))" "\<forall>l \<in> set (r_layers r). producers_inv l"
    using assms by (auto simp: repo_inv_def layer_inv_def db_inv_def)
  have "pc.view (\<lambda>a. db_getProducer a (r_db r)) (r_layers r) k = Inr p"
    using assms(2) by (simp add: abs_repo_def)
  from pc.view_values [OF i this] show ?thesis by (auto simp: producer_found_def)
qed

named_theorems refinement \<open>operations of the repository and of the ledger that simulate each other\<close>

lemma sim_getAccount: "led.sim (getAccount a) (ledger_getAccount a)"
  using getAccount_run by (auto simp: led.sim_def ledger_getAccount_def)

lemma sim_getProducer: "led.sim (getProducer a) (ledger_getProducer a)"
  using getProducer_run by (auto simp: led.sim_def ledger_getProducer_def)

lemma sim_bind_getAccount [refinement]:
  assumes "\<And>x. account_found a x \<Longrightarrow> led.sim (f x) (f' x)"
  shows "led.sim (bindX (getAccount a) f) (bindX (ledger_getAccount a) f')"
proof (rule led.sim_bindX_post [OF sim_getAccount _ assms])
  fix r x r'
  assume r: "repo_inv r" "getAccount a r = (Inr x, r')"
  then have "lg_account (abs_repo r) a = Inr x" using getAccount_run [OF r(1), of a] by simp
  then show "account_found a x" by (rule account_view_found [OF r(1)])
qed

lemma sim_bind_getProducer [refinement]:
  assumes "\<And>x. producer_found a x \<Longrightarrow> led.sim (f x) (f' x)"
  shows "led.sim (bindX (getProducer a) f) (bindX (ledger_getProducer a) f')"
proof (rule led.sim_bindX_post [OF sim_getProducer _ assms])
  fix r x r'
  assume r: "repo_inv r" "getProducer a r = (Inr x, r')"
  then have "lg_producer (abs_repo r) a = Inr x" using getProducer_run [OF r(1), of a] by simp
  then show "producer_found a x" by (rule producer_view_found [OF r(1)])
qed

lemma sim_putAccount [refinement]:
  assumes "account_good a"
  shows "led.sim (putAccount a) (ledger_putAccount a)"
proof (rule led.simI)
  fix r
  assume r: "repo_inv r"
  then obtain l ls where ls: "r_layers r = l # ls" by (cases "r_layers r") (auto simp: repo_inv_def)
  have l: "accounts_inv l" using r ls by (simp add: repo_inv_def layer_inv_def)
  have eq: "layer_putAccount a l = l\<lparr>l_accounts := om_put (a_address a) a (l_accounts l)\<rparr>"
    by (rule layer_putAccount_good [OF l assms])
  have v: "ac.view db (layer_putAccount a l # ls) = (ac.view db (l # ls))(a_address a := Inr a)" for db
    by (auto simp: fun_eq_iff ac.view_Cons ac.cached_store [OF l assms])
  have o: "pc.view db (layer_putAccount a l # ls) = pc.view db (l # ls)" for db
    by (simp add: fun_eq_iff pc.view_Cons eq)
  show "ledger_putAccount a (abs_repo r) = (fst (putAccount a r), abs_repo (snd (putAccount a r)))"
    using v o by (simp add: putAccount_def on_head_def ls ledger_putAccount_def abs_repo_def eq)
  show "repo_inv (snd (putAccount a r))"
    using r ls ac.linv_store [OF l assms]
    by (simp add: putAccount_def on_head_def repo_inv_def layer_inv_def eq producers_inv_def)
qed

lemma sim_putProducer [refinement]:
  assumes "\<not> isEmptyProducer p"
  shows "led.sim (putProducer p) (ledger_putProducer p)"
proof (rule led.simI)
  fix r
  assume r: "repo_inv r"
  then obtain l ls where ls: "r_layers r = l # ls" by (cases "r_layers r") (auto simp: repo_inv_def)
  have l: "producers_inv l" using r ls by (simp add: repo_inv_def layer_inv_def)
  have v: "pc.view db (layer_putProducer p l # ls) = (pc.view db (l # ls))(p_address p := Inr p)" for db
    by (auto simp: fun_eq_iff pc.view_Cons pc.cached_store [OF l assms])
  have o: "ac.view db (layer_putProducer p l # ls) = ac.view db (l # ls)" for db
    by (simp add: fun_eq_iff ac.view_Cons layer_putProducer_eq)
  show "ledger_putProducer p (abs_repo r) = (fst (putProducer p r), abs_repo (snd (putProducer p r)))"
    using v o by (simp add: putProducer_def on_head_def ls ledger_putProducer_def abs_repo_def
        layer_putProducer_eq)
  show "repo_inv (snd (putProducer p r))"
    using r ls pc.linv_store [OF l assms]
    by (simp add: putProducer_def on_head_def repo_inv_def layer_inv_def layer_putProducer_eq
        accounts_inv_def)
qed

text \<open>The transaction cache is not part of the ledger.\<close>

lemma sim_putTransaction [refinement]: "led.sim (putTransaction t) (returnX ())"
proof (rule led.simI)
  fix r
  assume r: "repo_inv r"
  then obtain l ls where ls: "r_layers r = l # ls" by (cases "r_layers r") (auto simp: repo_inv_def)
  have v: "ac.view db (layer_putTransaction t l # ls) = ac.view db (l # ls)"
    "pc.view db' (layer_putTransaction t l # ls) = pc.view db' (l # ls)" for db db'
    by (simp_all add: fun_eq_iff ac.view_Cons pc.view_Cons layer_putTransaction_eq)
  show "returnX () (abs_repo r) = (fst (putTransaction t r), abs_repo (snd (putTransaction t r)))"
    using v by (simp add: putTransaction_def on_head_def ls abs_repo_def layer_putTransaction_eq)
  show "repo_inv (snd (putTransaction t r))"
    using r ls by (simp add: putTransaction_def on_head_def repo_inv_def layer_inv_def layer_putTransaction_eq
        accounts_inv_def producers_inv_def)
qed

section \<open>The transaction cache\<close>

definition tx_inv :: "repo \<Rightarrow> bool" where
  "tx_inv r \<longleftrightarrow> r_layers r \<noteq> [] \<and> (\<forall>l \<in> set (r_layers r). transactions_inv l) \<and>
     tc.db_good (\<lambda>h. db_getTransaction h (r_db r))"

definition abs_tx :: "repo \<Rightarrow> h256 \<Rightarrow> exn + transaction" where
  "abs_tx r = tc.view (\<lambda>h. db_getTransaction h (r_db r)) (r_layers r)"

interpretation txs: simulation abs_tx tx_inv .

lemma sim_getTransaction: "txs.sim (getTransaction h) (\<lambda>f. (f h, f))"
proof (rule txs.simI)
  fix r
  assume r: "tx_inv r"
  let ?db = "\<lambda>h. db_getTransaction h (r_db r)"
  obtain res ls where rd: "tc.read ?db h (r_layers r) = (res, ls)" by (cases "tc.read ?db h (r_layers r)")
  have i: "tc.db_good ?db" "\<forall>l \<in> set (r_layers r). transactions_inv l" "r_layers r \<noteq> []"
    using r by (auto simp: tx_inv_def)
  have v: "res = tc.view ?db (r_layers r) h" "\<forall>l \<in> set ls. transactions_inv l"
    "map (\<lambda>l. (l_accounts l, l_producers l, l_block l)) ls = map (\<lambda>l. (l_accounts l, l_producers l, l_block l)) (r_layers r)"
    "tc.view ?db ls = tc.view ?db (r_layers r)"
    using tc.read_view [OF i, of h] rd by (auto simp: fun_eq_iff)
  show "(abs_tx r h, abs_tx r) = (fst (getTransaction h r), abs_tx (snd (getTransaction h r)))"
    using rd v by (simp add: getTransaction_def abs_tx_def)
  have "ls \<noteq> []" using map_eq_imp_length_eq [OF v(3)] i(3) by auto
  then show "tx_inv (snd (getTransaction h r))"
    using rd v i by (simp add: getTransaction_def tx_inv_def)
qed

lemma putTransaction_view:
  assumes "\<not> isEmptyTransaction t"
  shows "txs.sim (putTransaction t) (modifyX (\<lambda>f. f(transaction_getHash t := Inr t)))"
proof (rule txs.simI)
  fix r
  assume r: "tx_inv r"
  then obtain l ls where ls: "r_layers r = l # ls" by (cases "r_layers r") (auto simp: tx_inv_def)
  have l: "transactions_inv l" using r ls by (simp add: tx_inv_def)
  have v: "tc.view db (layer_putTransaction t l # ls) = (tc.view db (l # ls))(transaction_getHash t := Inr t)" for db
    by (auto simp: fun_eq_iff tc.view_Cons tc.cached_store [OF l assms])
  show "modifyX (\<lambda>f. f(transaction_getHash t := Inr t)) (abs_tx r) =
      (fst (putTransaction t r), abs_tx (snd (putTransaction t r)))"
    using v by (simp add: putTransaction_def on_head_def ls abs_tx_def)
  show "tx_inv (snd (putTransaction t r))"
    using r ls tc.linv_store [OF l assms] by (simp add: putTransaction_def on_head_def tx_inv_def)
qed

end
