(* ===== verification/LedgerOps.thy ===== *)
theory LedgerOps
  imports Ledger
begin

text \<open>
  The operations of \<open>Repository\<close> on the ledger. Each is refined by the operation on the layers; the
  effect of each on balances, producers and votes is then stated on the ledger, where there are no
  caches.
\<close>

section \<open>Specifications\<close>

definition ledger_timestamp :: "int ledger_op" where
  "ledger_timestamp = (\<lambda>g. (Inr (lg_timestamp g), g))"

definition ledger_or_new :: "address \<Rightarrow> account \<Rightarrow> account ledger_op" where
  "ledger_or_new addr a =
     (if isEmptyAccount a then bindX ledger_timestamp (\<lambda>ts. returnX (new_account addr 0 ts)) else returnX a)"

definition ledger_addBalance :: "address \<Rightarrow> u64 \<Rightarrow> unit ledger_op" where
  "ledger_addBalance addr amount =
     bindX (ledger_getAccount addr) (\<lambda>a0. bindX (ledger_or_new addr a0) (\<lambda>a.
       if a_balance a + amount < amount then throwX RepositoryException
       else ledger_putAccount (account_setBalance (a_balance a + amount) a)))"

definition ledger_subBalance :: "address \<Rightarrow> u64 \<Rightarrow> unit ledger_op" where
  "ledger_subBalance addr amount =
     bindX (ledger_getAccount addr) (\<lambda>a.
       if isEmptyAccount a \<or> a_balance a < amount then throwX RepositoryException
       else ledger_putAccount (account_setBalance (a_balance a - amount) a))"

definition ledger_setBalance :: "address \<Rightarrow> u64 \<Rightarrow> unit ledger_op" where
  "ledger_setBalance addr value =
     bindX (ledger_getAccount addr) (\<lambda>a0. bindX (ledger_or_new addr a0) (\<lambda>a.
       ledger_putAccount (account_setBalance value a)))"

definition ledger_transfer :: "address \<Rightarrow> address \<Rightarrow> u64 \<Rightarrow> unit ledger_op" where
  "ledger_transfer from to value =
     bindX (ledger_getAccount from) (\<lambda>f. bindX (ledger_getAccount to) (\<lambda>t0.
       if isEmptyAccount f then throwX RepositoryException
       else bindX (ledger_or_new to t0) (\<lambda>t.
         if a_balance f < value \<or> a_balance t + value < value then throwX RepositoryException
         else thenX (ledger_putAccount (account_setBalance (a_balance f - value) f))
                (ledger_putAccount (account_setBalance (a_balance t + value) t)))))"

definition ledger_burn :: "address \<Rightarrow> u64 \<Rightarrow> unit ledger_op" where
  "ledger_burn target value =
     bindX (ledger_getAccount target) (\<lambda>a.
       if isEmptyAccount a then throwX RepositoryException
       else if a_balance a < value then throwX RepositoryException
       else ledger_putAccount (account_setBalance (a_balance a - value) a))"

definition ledger_bonus :: "address \<Rightarrow> u64 \<Rightarrow> unit ledger_op" where
  "ledger_bonus target value =
     bindX (ledger_getAccount target) (\<lambda>a.
       if isEmptyAccount a then throwX RepositoryException
       else ledger_putAccount (account_setBalance (a_balance a + value) a))"

definition ledger_eraseVoter :: "address \<Rightarrow> address \<Rightarrow> unit ledger_op" where
  "ledger_eraseVoter voter c =
     bindX (ledger_getProducer c) (\<lambda>p.
       if isEmptyProducer p then throwX RepositoryException
       else ledger_putProducer (producer_eraseVoter voter p))"

definition ledger_clearVote :: "address \<Rightarrow> unit ledger_op" where
  "ledger_clearVote addr =
     bindX (ledger_getAccount addr) (\<lambda>a.
       if isEmptyAccount a then throwX RepositoryException
       else thenX (forX (map fst (a_candidates a)) (ledger_eraseVoter addr))
              (ledger_putAccount (account_clearVote a)))"

definition ledger_voteIncrease :: "address \<Rightarrow> address \<Rightarrow> u64 \<Rightarrow> unit ledger_op" where
  "ledger_voteIncrease voter cand value =
     bindX (ledger_getAccount voter) (\<lambda>a.
       if isEmptyAccount a then throwX RepositoryException
       else bindX (ledger_getProducer cand) (\<lambda>p.
         if isEmptyProducer p then throwX RepositoryException
         else if a_balance a - a_votes a * VOTE_UNIT < value * VOTE_UNIT then throwX RepositoryException
         else thenX (ledger_putAccount (account_addVoter cand value a))
                (ledger_putProducer (producer_addVoter voter value p))))"

section \<open>Refinement\<close>

lemma good_simps [simp]:
  "account_good (account_setBalance v a) = account_good a"
  "account_good (account_clearVote a) = account_good a"
  "account_good (account_addVoter c v a) = account_good a"
  "account_good (new_account addr b ts)"
  "isEmptyProducer (producer_eraseVoter x p) = isEmptyProducer p"
  "isEmptyProducer (producer_addVoter x v p) = isEmptyProducer p"
  by (auto simp: account_good_def account_setBalance_def account_clearVote_def account_addVoter_def
      new_account_def isEmptyProducer_def producer_eq_def producer_eraseVoter_def producer_addVoter_def
      split: option.splits)

lemma found_good: "account_found addr a \<Longrightarrow> \<not> isEmptyAccount a \<Longrightarrow> account_good a"
  by (simp add: account_found_def)

lemma sim_timestamp: "led.sim blockTimestamp ledger_timestamp"
  by (simp add: led.sim_def blockTimestamp_def ledger_timestamp_def abs_repo_def)

lemma sim_bind_or_new [refinement]:
  assumes "account_found addr a" and "\<And>x. account_good x \<Longrightarrow> led.sim (f x) (f' x)"
  shows "led.sim (bindX (or_new_account addr a) f) (bindX (ledger_or_new addr a) f')"
proof (cases "isEmptyAccount a")
  case True
  have eq: "account_assign a (new_account addr 0 ts) = new_account addr 0 ts" for ts
    using assms(1) by (intro account_assign_good) (simp_all add: account_found_def)
  have "led.sim (or_new_account addr a) (ledger_or_new addr a)"
    unfolding or_new_account_def ledger_or_new_def eq
    by (intro led.sim_if led.sim_bindX sim_timestamp led.sim_returnX)
  moreover have "account_good x" if "or_new_account addr a r = (Inr x, r')" for r x r'
    using that True by (auto simp: or_new_account_def eq bindX_run blockTimestamp_def)
  ultimately show ?thesis by (rule led.sim_bindX_post) (use assms(2) in auto)
next
  case False
  then show ?thesis using assms found_good by (simp add: or_new_account_def ledger_or_new_def)
qed

lemmas op_sims = refinement led.sim_if led.sim_throwX led.sim_thenX led.sim_forX

lemma sim_addBalance: "led.sim (addBalance addr amount) (ledger_addBalance addr amount)"
  unfolding addBalance_def ledger_addBalance_def by (intro op_sims) (simp_all add: found_good)

lemma sim_subBalance: "led.sim (subBalance addr amount) (ledger_subBalance addr amount)"
  unfolding subBalance_def ledger_subBalance_def by (intro op_sims) (simp_all add: found_good)

lemma sim_setBalance: "led.sim (setBalance addr amount) (ledger_setBalance addr amount)"
  unfolding setBalance_def ledger_setBalance_def by (intro op_sims) (simp_all add: found_good)

lemma sim_transfer: "led.sim (transfer from to value) (ledger_transfer from to value)"
  unfolding transfer_def ledger_transfer_def by (intro op_sims) (simp_all add: found_good)

lemma sim_burn: "led.sim (burn target value) (ledger_burn target value)"
  unfolding burn_def ledger_burn_def by (intro op_sims) (simp_all add: found_good)

lemma sim_bonus: "led.sim (bonus target value) (ledger_bonus target value)"
  unfolding bonus_def ledger_bonus_def by (intro op_sims) (simp_all add: found_good)

lemma sim_clearVote: "led.sim (clearVote addr) (ledger_clearVote addr)"
  unfolding clearVote_def ledger_clearVote_def ledger_eraseVoter_def
  by (intro op_sims) (simp_all add: found_good)

lemma sim_voteIncrease: "led.sim (voteIncrease voter cand value) (ledger_voteIncrease voter cand value)"
  unfolding voteIncrease_def ledger_voteIncrease_def by (intro op_sims) (simp_all add: found_good)

end
