(* ===== verification/Actions.thy ===== *)
theory Actions
  imports LedgerOps
begin

text \<open>
  Execution of a block's transactions: the three action handlers of \<open>runtime/action\<close>, the factory
  that picks one by transaction type, \<open>Runtime::excute\<close> and \<open>CorrelatorFilter::run\<close>. Each step is
  shown to refine the same step on the ledger.
\<close>

section \<open>The handlers\<close>

definition vote_execute :: "transaction \<Rightarrow> unit repo_op" where
  "vote_execute t =
     thenX (clearVote (t_sender t)) (thenX (burn (t_sender t) TRANSACTION_FEE)
       (case ballot_decode (t_data t) of
          Inl e \<Rightarrow> throwX e
        | Inr ballot \<Rightarrow> forX ballot (\<lambda>c. voteIncrease (t_sender t) (c_address c) (c_value c))))"

definition transfer_execute :: "transaction \<Rightarrow> unit repo_op" where
  "transfer_execute t =
     thenX (burn (t_sender t) TRANSACTION_FEE) (transfer (t_sender t) (t_recipient t) (t_value t))"

definition beenProducer_execute :: "transaction \<Rightarrow> block \<Rightarrow> unit repo_op" where
  "beenProducer_execute t b =
     thenX (burn (t_sender t) TRANSACTION_FEE)
       (bindX (getProducer (t_sender t)) (\<lambda>target.
          if isEmptyProducer target
          then thenX (burn (t_sender t) PRODUCER_COST)
                 (putProducer (producer_setVotes 0 (new_producer (t_sender t) (block_timestamp b))))
          else returnX ()))"

datatype action_handler = Vote | Transfer | BeenProducer

definition actionFactory :: "transaction \<Rightarrow> action_handler option" where
  "actionFactory t =
     (if t_type t = VoteType then Some Vote
      else if t_type t = TransferType then Some Transfer
      else if t_type t = BeenProducerType then Some BeenProducer
      else None)"

definition handler_execute :: "transaction \<Rightarrow> block \<Rightarrow> action_handler \<Rightarrow> unit repo_op" where
  "handler_execute t b h =
     (case h of Vote \<Rightarrow> vote_execute t | Transfer \<Rightarrow> transfer_execute t
      | BeenProducer \<Rightarrow> beenProducer_execute t b)"

definition factory_execute :: "transaction \<Rightarrow> block \<Rightarrow> unit repo_op" where
  "factory_execute t b =
     (case actionFactory t of None \<Rightarrow> returnX () | Some h \<Rightarrow> handler_execute t b h)"

definition runtime_excute :: "block \<Rightarrow> transaction \<Rightarrow> unit repo_op" where
  "runtime_excute b t = thenX (factory_execute t b) (putTransaction t)"

definition correlator_run :: "block \<Rightarrow> unit repo_op" where
  "correlator_run b = forX (b_transactions b) (runtime_excute b)"

section \<open>The same on the ledger\<close>

definition ledger_vote :: "transaction \<Rightarrow> unit ledger_op" where
  "ledger_vote t =
     thenX (ledger_clearVote (t_sender t)) (thenX (ledger_burn (t_sender t) TRANSACTION_FEE)
       (case ballot_decode (t_data t) of
          Inl e \<Rightarrow> throwX e
        | Inr ballot \<Rightarrow> forX ballot (\<lambda>c. ledger_voteIncrease (t_sender t) (c_address c) (c_value c))))"

definition ledger_transferTx :: "transaction \<Rightarrow> unit ledger_op" where
  "ledger_transferTx t =
     thenX (ledger_burn (t_sender t) TRANSACTION_FEE) (ledger_transfer (t_sender t) (t_recipient t) (t_value t))"

definition ledger_beenProducer :: "transaction \<Rightarrow> int \<Rightarrow> unit ledger_op" where
  "ledger_beenProducer t ts =
     thenX (ledger_burn (t_sender t) TRANSACTION_FEE)
       (bindX (ledger_getProducer (t_sender t)) (\<lambda>target.
          if isEmptyProducer target
          then thenX (ledger_burn (t_sender t) PRODUCER_COST) (ledger_putProducer (new_producer (t_sender t) ts))
          else returnX ()))"

definition ledger_execute :: "int \<Rightarrow> transaction \<Rightarrow> unit ledger_op" where
  "ledger_execute ts t =
     thenX (if t_type t = VoteType then ledger_vote t
            else if t_type t = TransferType then ledger_transferTx t
            else if t_type t = BeenProducerType then ledger_beenProducer t ts
            else returnX ())
       (returnX ())"

text \<open>A producer created by the transaction is not the empty producer.\<close>

definition executable :: "int \<Rightarrow> transaction \<Rightarrow> bool" where
  "executable ts t \<longleftrightarrow> t_sender t \<noteq> 0 \<or> ts \<noteq> 0"

lemma setVotes_new [simp]: "producer_setVotes 0 (new_producer a ts) = new_producer a ts"
  by (simp add: producer_setVotes_def new_producer_def)

lemma new_producer_not_empty: "a \<noteq> 0 \<or> ts \<noteq> 0 \<Longrightarrow> \<not> isEmptyProducer (new_producer a ts)"
  by (auto simp: isEmptyProducer_def producer_eq_def new_producer_def EmptyProducer_def)

lemma sim_vote: "led.sim (vote_execute t) (ledger_vote t)"
  unfolding vote_execute_def ledger_vote_def
  by (intro led.sim_thenX sim_clearVote sim_burn)
    (auto split: sum.splits intro!: led.sim_throwX led.sim_forX sim_voteIncrease)

lemma sim_transferTx: "led.sim (transfer_execute t) (ledger_transferTx t)"
  unfolding transfer_execute_def ledger_transferTx_def
  by (intro led.sim_thenX sim_burn sim_transfer)

lemma sim_beenProducer:
  assumes "executable (block_timestamp b) t"
  shows "led.sim (beenProducer_execute t b) (ledger_beenProducer t (block_timestamp b))"
  unfolding beenProducer_execute_def ledger_beenProducer_def setVotes_new
  using assms by (intro led.sim_thenX sim_burn sim_bind_getProducer led.sim_if sim_putProducer led.sim_returnX)
    (simp add: executable_def new_producer_not_empty)

lemma sim_factory:
  assumes "executable (block_timestamp b) t"
  shows "led.sim (factory_execute t b)
    (if t_type t = VoteType then ledger_vote t
     else if t_type t = TransferType then ledger_transferTx t
     else if t_type t = BeenProducerType then ledger_beenProducer t (block_timestamp b)
     else returnX ())"
  by (auto simp: factory_execute_def actionFactory_def handler_execute_def
      intro: sim_vote sim_transferTx sim_beenProducer [OF assms] led.sim_returnX)

lemma sim_excute:
  assumes "executable (block_timestamp b) t"
  shows "led.sim (runtime_excute b t) (ledger_execute (block_timestamp b) t)"
  unfolding runtime_excute_def ledger_execute_def
  using assms by (intro led.sim_thenX sim_factory sim_putTransaction)

lemma sim_forX_in:
  "(\<And>x. x \<in> set xs \<Longrightarrow> led.sim (f x) (f' x)) \<Longrightarrow> led.sim (forX xs f) (forX xs f')"
  by (induction xs) (auto intro: led.sim_returnX led.sim_thenX)

lemma sim_run:
  assumes "\<forall>t \<in> set (b_transactions b). executable (block_timestamp b) t"
  shows "led.sim (correlator_run b) (forX (b_transactions b) (ledger_execute (block_timestamp b)))"
  unfolding correlator_run_def using assms by (intro sim_forX_in sim_excute) simp

end
