(* ===== verification/Balances.thy ===== *)
theory Balances
  imports LedgerOps
begin

text \<open>
  The effect of the balance operations of \<open>Repository\<close> on every account: transfers, fees, bonuses.
  The statements are about the repository operations; the proofs run on the ledger they refine.
\<close>

section \<open>Balances\<close>

definition bal :: "repo \<Rightarrow> address \<Rightarrow> nat" where
  "bal r k = (case lg_account (abs_repo r) k of Inl _ \<Rightarrow> 0 | Inr a \<Rightarrow> unat (a_balance a))"

text \<open>The account is there, or its absence was read without an error.\<close>

definition readable :: "repo \<Rightarrow> address \<Rightarrow> bool" where
  "readable r k \<longleftrightarrow> (\<exists>a. lg_account (abs_repo r) k = Inr a)"

definition exists_account :: "repo \<Rightarrow> address \<Rightarrow> bool" where
  "exists_account r k \<longleftrightarrow> (\<exists>a. lg_account (abs_repo r) k = Inr a \<and> \<not> isEmptyAccount a)"

definition transfer_possible :: "repo \<Rightarrow> address \<Rightarrow> address \<Rightarrow> u64 \<Rightarrow> bool" where
  "transfer_possible r from to v \<longleftrightarrow>
     exists_account r from \<and> unat v \<le> bal r from \<and> bal r to + unat v < 2 ^ 64"

text \<open>Everything of the ledger but the accounts in \<open>A\<close> is as before.\<close>

definition frame_accounts :: "address set \<Rightarrow> ledger \<Rightarrow> ledger \<Rightarrow> bool" where
  "frame_accounts A g g' \<longleftrightarrow> (\<forall>k. k \<notin> A \<longrightarrow> lg_account g' k = lg_account g k) \<and>
     lg_producer g' = lg_producer g \<and> lg_timestamp g' = lg_timestamp g"

text \<open>The account at an address with another balance, as a transfer writes it.\<close>

definition with_balance :: "address \<Rightarrow> u64 \<Rightarrow> ledger \<Rightarrow> ledger" where
  "with_balance k v g = g\<lparr>lg_account := (lg_account g)(k := (case lg_account g k of
      Inl e \<Rightarrow> Inl e
    | Inr a \<Rightarrow> Inr (account_setBalance v (if isEmptyAccount a then new_account k 0 (lg_timestamp g) else a))))\<rparr>"

definition ledger_ok :: "ledger \<Rightarrow> bool" where
  "ledger_ok g \<longleftrightarrow> (\<forall>k a. lg_account g k = Inr a \<longrightarrow> account_found k a) \<and>
     (\<forall>k p. lg_producer g k = Inr p \<longrightarrow> producer_found k p)"

lemma ledger_ok_abs: "repo_inv r \<Longrightarrow> ledger_ok (abs_repo r)"
  by (simp add: ledger_ok_def account_view_found producer_view_found)

lemma ledger_okD:
  "ledger_ok g \<Longrightarrow> lg_account g k = Inr a \<Longrightarrow> \<not> isEmptyAccount a \<Longrightarrow> a_address a = k \<and> a_alive a"
  by (auto simp: ledger_ok_def account_found_def account_good_def)

lemma empty_balance: "isEmptyAccount a \<Longrightarrow> a_balance a = 0"
  by (simp add: isEmptyAccount_def account_eq_def EmptyAccount_def)

lemma address_simps [simp]:
  "a_address (account_setBalance v a) = a_address a" "a_address (new_account k b t) = k"
  "a_balance (account_setBalance v a) = v" "a_balance (new_account k b t) = b"
  by (simp_all add: account_setBalance_def new_account_def)

lemma or_new_run:
  "ledger_or_new k a g = (Inr (if isEmptyAccount a then new_account k 0 (lg_timestamp g) else a), g)"
  by (simp add: ledger_or_new_def ledger_timestamp_def bindX_run)

lemma unat_add_no_wrap_iff:
  fixes x y :: u64
  shows "\<not> x + y < y \<longleftrightarrow> unat x + unat y < 2 ^ 64"
proof -
  have "\<not> x + y < y \<longleftrightarrow> unat (y + x) = unat y + unat x"
    using unat_plus_simple [of y x] by (simp only: not_less add.commute)
  moreover have "unat (y + x) = (unat y + unat x) mod 2 ^ 64"
    by (simp add: unat_word_ariths)
  moreover have "n mod 2 ^ 64 = n \<longleftrightarrow> n < 2 ^ 64" for n :: nat
    by (metis mod_less mod_less_divisor zero_less_numeral zero_less_power)
  ultimately show ?thesis by (simp only: add.commute)
qed

section \<open>The operations on the ledger, solved\<close>

lemma ledger_transfer_run:
  assumes ok: "ledger_ok g" and f: "lg_account g from = Inr f" and t: "lg_account g to = Inr t" and ne: "from \<noteq> to"
  shows "ledger_transfer from to v g =
    (if \<not> isEmptyAccount f \<and> v \<le> a_balance f \<and> \<not> a_balance t + v < v
     then (Inr (), with_balance to (a_balance t + v) (with_balance from (a_balance f - v) g))
     else (Inl RepositoryException, g))"
  using ledger_okD [OF ok f] ledger_okD [OF ok t] f t ne empty_balance [of t]
  by (auto simp: ledger_transfer_def ledger_getAccount_def ledger_putAccount_def bindX_run thenX_run
      or_new_run with_balance_def not_less)

lemma ledger_transfer_self_run:
  assumes ok: "ledger_ok g" and f: "lg_account g k = Inr f"
  shows "ledger_transfer k k v g =
    (if \<not> isEmptyAccount f \<and> v \<le> a_balance f \<and> \<not> a_balance f + v < v
     then (Inr (), with_balance k (a_balance f + v) g)
     else (Inl RepositoryException, g))"
  using ledger_okD [OF ok f] f
  by (auto simp: ledger_transfer_def ledger_getAccount_def ledger_putAccount_def bindX_run thenX_run
      or_new_run with_balance_def not_less)

lemma ledger_burn_run:
  assumes ok: "ledger_ok g" and f: "lg_account g k = Inr f"
  shows "ledger_burn k v g =
    (if \<not> isEmptyAccount f \<and> v \<le> a_balance f then (Inr (), with_balance k (a_balance f - v) g)
     else (Inl RepositoryException, g))"
  using ledger_okD [OF ok f] f
  by (auto simp: ledger_burn_def ledger_getAccount_def ledger_putAccount_def bindX_run with_balance_def not_less)

lemma ledger_bonus_run:
  assumes ok: "ledger_ok g" and f: "lg_account g k = Inr f"
  shows "ledger_bonus k v g =
    (if \<not> isEmptyAccount f then (Inr (), with_balance k (a_balance f + v) g)
     else (Inl RepositoryException, g))"
  using ledger_okD [OF ok f] f
  by (auto simp: ledger_bonus_def ledger_getAccount_def ledger_putAccount_def bindX_run with_balance_def)

lemma ledger_addBalance_run:
  assumes ok: "ledger_ok g" and f: "lg_account g k = Inr f"
  shows "ledger_addBalance k v g =
    (if \<not> a_balance f + v < v then (Inr (), with_balance k (a_balance f + v) g)
     else (Inl RepositoryException, g))"
  using ledger_okD [OF ok f] f empty_balance [of f]
  by (auto simp: ledger_addBalance_def ledger_getAccount_def ledger_putAccount_def bindX_run or_new_run with_balance_def)

lemma ledger_subBalance_run:
  assumes ok: "ledger_ok g" and f: "lg_account g k = Inr f"
  shows "ledger_subBalance k v g =
    (if \<not> isEmptyAccount f \<and> v \<le> a_balance f then (Inr (), with_balance k (a_balance f - v) g)
     else (Inl RepositoryException, g))"
  using ledger_okD [OF ok f] f
  by (auto simp: ledger_subBalance_def ledger_getAccount_def ledger_putAccount_def bindX_run with_balance_def not_less)

lemma ledger_setBalance_run:
  assumes ok: "ledger_ok g" and f: "lg_account g k = Inr f"
  shows "ledger_setBalance k v g = (Inr (), with_balance k v g)"
  using ledger_okD [OF ok f] f
  by (auto simp: ledger_setBalance_def ledger_getAccount_def ledger_putAccount_def bindX_run or_new_run with_balance_def)

text \<open>An unreadable account makes the operation throw the reader's exception and write nothing.\<close>

lemma ledger_unreadable:
  "lg_account g k = Inl e \<Longrightarrow> ledger_burn k v g = (Inl e, g)"
  "lg_account g k = Inl e \<Longrightarrow> ledger_bonus k v g = (Inl e, g)"
  "lg_account g k = Inl e \<Longrightarrow> ledger_addBalance k v g = (Inl e, g)"
  "lg_account g k = Inl e \<Longrightarrow> ledger_subBalance k v g = (Inl e, g)"
  "lg_account g k = Inl e \<Longrightarrow> ledger_setBalance k v g = (Inl e, g)"
  "lg_account g k = Inl e \<Longrightarrow> ledger_transfer k k' v g = (Inl e, g)"
  "lg_account g k = Inr f \<Longrightarrow> lg_account g k' = Inl e \<Longrightarrow> ledger_transfer k k' v g = (Inl e, g)"
  by (simp_all add: ledger_burn_def ledger_bonus_def ledger_addBalance_def ledger_subBalance_def
      ledger_setBalance_def ledger_transfer_def ledger_getAccount_def bindX_run)

lemma with_balance_account:
  "lg_account (with_balance k v g) k' =
     (if k' = k then (case lg_account g k of Inl e \<Rightarrow> Inl e | Inr a \<Rightarrow>
        Inr (account_setBalance v (if isEmptyAccount a then new_account k 0 (lg_timestamp g) else a)))
      else lg_account g k')"
  by (simp add: with_balance_def)

lemma with_balance_frame: "frame_accounts {k} g (with_balance k v g)"
  by (simp add: frame_accounts_def with_balance_def)

lemma frame_trans: "frame_accounts A g g' \<Longrightarrow> frame_accounts B g' g'' \<Longrightarrow> frame_accounts (A \<union> B) g g''"
  by (simp add: frame_accounts_def)

section \<open>On the repository\<close>

text \<open>A transfer between two different accounts, decided and described completely.\<close>

lemma transfer_cases:
  assumes inv: "repo_inv r" and run: "transfer from to v r = (res, r')" and ne: "from \<noteq> to"
    and rd: "readable r from" "readable r to"
  shows "res = Inr () \<and> exists_account r from \<and> unat v \<le> bal r from \<and> bal r to + unat v < 2 ^ 64 \<and>
           bal r' from = bal r from - unat v \<and> bal r' to = bal r to + unat v \<and>
           frame_accounts {from, to} (abs_repo r) (abs_repo r')
       \<or> res = Inl RepositoryException \<and> abs_repo r' = abs_repo r \<and>
           \<not> (exists_account r from \<and> unat v \<le> bal r from \<and> bal r to + unat v < 2 ^ 64)"
proof -
  obtain f t where a: "lg_account (abs_repo r) from = Inr f" "lg_account (abs_repo r) to = Inr t"
    using rd by (auto simp: readable_def)
  have g: "ledger_transfer from to v (abs_repo r) = (res, abs_repo r')"
    using led.simD [OF sim_transfer inv run] by simp
  note run' = ledger_transfer_run [OF ledger_ok_abs [OF inv] a ne, of v]
  have b: "bal r from = unat (a_balance f)" "bal r to = unat (a_balance t)"
    "exists_account r from \<longleftrightarrow> \<not> isEmptyAccount f"
    using a by (simp_all add: bal_def exists_account_def)
  have ov: "\<not> a_balance t + v < v \<longleftrightarrow> unat (a_balance t) + unat v < 2 ^ 64"
    using unat_add_no_wrap_iff by simp
  show ?thesis
  proof (cases "\<not> isEmptyAccount f \<and> v \<le> a_balance f \<and> \<not> a_balance t + v < v")
    case True
    then have res: "res = Inr ()"
      and g': "abs_repo r' = with_balance to (a_balance t + v) (with_balance from (a_balance f - v) (abs_repo r))"
      using g run' by simp_all
    have "bal r' from = unat (a_balance f - v)" "bal r' to = unat (a_balance t + v)"
      using a ne by (simp_all add: bal_def g' with_balance_account)
    moreover have "frame_accounts {from, to} (abs_repo r) (abs_repo r')"
      using frame_trans [OF with_balance_frame with_balance_frame] by (simp add: g' insert_commute)
    ultimately show ?thesis
      using True res b ov unat_sub [of v "a_balance f"] unat_add_no_wrap [of "a_balance t" v]
      by (simp add: word_le_nat_alt)
  next
    case False
    then show ?thesis using g run' b ov by (auto simp: word_le_nat_alt)
  qed
qed

text \<open>A value-changing operation on one account.\<close>

lemma with_balance_bal:
  assumes "abs_repo r' = with_balance k v (abs_repo r)" "readable r k"
  shows "bal r' k = unat v \<and> frame_accounts {k} (abs_repo r) (abs_repo r')"
  using assms with_balance_frame [of k "abs_repo r" v] by (auto simp: bal_def readable_def with_balance_account)

lemma burn_cases:
  assumes inv: "repo_inv r" and run: "burn k v r = (res, r')" and rd: "readable r k"
  shows "res = Inr () \<and> exists_account r k \<and> unat v \<le> bal r k \<and> bal r' k = bal r k - unat v \<and>
           frame_accounts {k} (abs_repo r) (abs_repo r')
       \<or> res = Inl RepositoryException \<and> abs_repo r' = abs_repo r \<and> \<not> (exists_account r k \<and> unat v \<le> bal r k)"
proof -
  obtain f where a: "lg_account (abs_repo r) k = Inr f" using rd by (auto simp: readable_def)
  have g: "ledger_burn k v (abs_repo r) = (res, abs_repo r')" using led.simD [OF sim_burn inv run] by simp
  note run' = ledger_burn_run [OF ledger_ok_abs [OF inv] a, of v]
  have b: "bal r k = unat (a_balance f)" "exists_account r k \<longleftrightarrow> \<not> isEmptyAccount f"
    using a by (simp_all add: bal_def exists_account_def)
  show ?thesis
  proof (cases "\<not> isEmptyAccount f \<and> v \<le> a_balance f")
    case True
    then have "res = Inr ()" "abs_repo r' = with_balance k (a_balance f - v) (abs_repo r)" using g run' by simp_all
    then show ?thesis using True b with_balance_bal [OF _ rd] unat_sub [of v "a_balance f"]
      by (simp add: word_le_nat_alt)
  next
    case False
    then show ?thesis using g run' b by (auto simp: word_le_nat_alt)
  qed
qed

lemma burn_unreadable:
  assumes "repo_inv r" "burn k v r = (res, r')" "\<not> readable r k"
  shows "\<exists>e. res = Inl e \<and> abs_repo r' = abs_repo r"
proof -
  obtain e where "lg_account (abs_repo r) k = Inl e"
    using assms(3) by (cases "lg_account (abs_repo r) k") (auto simp: readable_def)
  from ledger_unreadable(1) [OF this, of v] show ?thesis using led.simD [OF sim_burn assms(1,2)] by auto
qed

lemma transfer_unreadable:
  assumes "repo_inv r" "transfer k k' v r = (res, r')" "\<not> (readable r k \<and> readable r k')"
  shows "\<exists>e. res = Inl e \<and> abs_repo r' = abs_repo r"
proof -
  consider e where "lg_account (abs_repo r) k = Inl e"
    | e f where "lg_account (abs_repo r) k = Inr f" "lg_account (abs_repo r) k' = Inl e"
    using assms(3) by (cases "lg_account (abs_repo r) k"; cases "lg_account (abs_repo r) k'") (auto simp: readable_def)
  then have "\<exists>e. ledger_transfer k k' v (abs_repo r) = (Inl e, abs_repo r)"
    by cases (use ledger_unreadable(6,7) in blast)+
  then show ?thesis using led.simD [OF sim_transfer assms(1,2)] by auto
qed

lemma frame_bal: "frame_accounts A (abs_repo r) (abs_repo r') \<Longrightarrow> k \<notin> A \<Longrightarrow> bal r' k = bal r k"
  by (simp add: frame_accounts_def bal_def)

lemma frame_sum:
  assumes "frame_accounts B (abs_repo r) (abs_repo r')" "finite A" "B \<subseteq> A"
  shows "sum (bal r') A + sum (bal r) B = sum (bal r) A + sum (bal r') B"
proof -
  have "sum (bal r') (A - B) = sum (bal r) (A - B)"
    using frame_bal [OF assms(1)] by (intro sum.cong) auto
  then show ?thesis using sum.subset_diff [OF assms(3,2), of "bal r"] sum.subset_diff [OF assms(3,2), of "bal r'"]
    by simp
qed

section \<open>A repository to try the operations on\<close>

definition empty_db :: database where
  "empty_db = \<lparr>d_attributes = [], d_accounts = [], d_transactions = [], d_blocks = [], d_blockIndex = [],
     d_blockStates = [], d_blockStateIndex = [], d_subChains = [], d_producers = [],
     g_currentHeight = \<lparr>as_key = [], as_type = 0, as_value = 0, as_data = []\<rparr>,
     g_prevProducers = \<lparr>as_key = [], as_type = 1, as_value = 0, as_data = []\<rparr>,
     g_currentProducers = \<lparr>as_key = [], as_type = 1, as_value = 0, as_data = []\<rparr>,
     g_solidifyProducers = \<lparr>as_key = [], as_type = 1, as_value = 0, as_data = []\<rparr>\<rparr>"

definition sample_repo :: repo where
  "sample_repo =
     \<lparr>r_layers = [\<lparr>l_accounts = [(1, new_account 1 3000000000 5), (2, new_account 2 40 5)],
                   l_producers = [(7, new_producer 7 5)], l_transactions = [], l_block = EmptyBlock\<rparr>],
      r_db = empty_db\<rparr>"

lemma empty_store [simp]: "store_get [] k = []"
  by (simp add: store_get_def)

lemma empty_is_empty [simp]:
  "isEmptyAccount EmptyAccount" "isEmptyProducer EmptyProducer" "isEmptyTransaction EmptyTransaction"
  by (simp_all add: isEmptyAccount_def account_eq_def isEmptyProducer_def producer_eq_def
      isEmptyTransaction_def transaction_eq_def)

lemma db_inv_empty: "db_inv empty_db"
  unfolding db_inv_def ac.db_good_def pc.db_good_def
  by (simp add: db_getAccount_def db_getProducer_def empty_db_def)

lemma sample_inv: "repo_inv sample_repo"
  using db_inv_empty
  by (simp add: repo_inv_def sample_repo_def layer_inv_def accounts_inv_def producers_inv_def
      om_inv_def account_good_def new_account_def isEmptyProducer_def producer_eq_def new_producer_def EmptyProducer_def)

lemma sample_accounts:
  "lg_account (abs_repo sample_repo) 1 = Inr (new_account 1 3000000000 5)"
  "lg_account (abs_repo sample_repo) 2 = Inr (new_account 2 40 5)"
  unfolding abs_repo_def ac.view_def ledger.simps by (simp_all add: sample_repo_def om_find_def)

lemma sample_producer: "lg_producer (abs_repo sample_repo) 7 = Inr (new_producer 7 5)"
  unfolding abs_repo_def pc.view_def ledger.simps by (simp add: sample_repo_def om_find_def)

lemma new_account_exists [simp]: "\<not> isEmptyAccount (new_account k b t)"
  by (simp add: isEmptyAccount_def account_eq_def new_account_def EmptyAccount_def)

lemma sample_balances:
  "bal sample_repo 1 = 3000000000" "bal sample_repo 2 = 40" "exists_account sample_repo 1"
  "readable sample_repo 1" "readable sample_repo 2"
  by (simp_all add: bal_def exists_account_def readable_def sample_accounts)

section \<open>Properties\<close>

text \<open>C11. \<open>Repository::transfer\<close> between two different accounts succeeds exactly when the sender exists,
  has the value, and the recipient's balance does not overflow. Then the value moves, every other
  account and producer stays as it was, and the sum of the balances of any set of accounts
  with both parties is unchanged. Otherwise the ledger is untouched. The repository invariant is kept
  in every case.\<close>

theorem transfer_correct:
  assumes "repo_inv r" and "from \<noteq> to" and "readable r from" and "readable r to" and "finite A" and "{from, to} \<subseteq> A"
  shows "(fst (transfer from to v r) = Inr () \<longleftrightarrow> transfer_possible r from to v) \<and>
    (let r' = snd (transfer from to v r) in
      repo_inv r' \<and> sum (bal r') A = sum (bal r) A \<and>
      (if transfer_possible r from to v
       then bal r' from = bal r from - unat v \<and> bal r' to = bal r to + unat v \<and>
            frame_accounts {from, to} (abs_repo r) (abs_repo r')
       else fst (transfer from to v r) = Inl RepositoryException \<and> abs_repo r' = abs_repo r))"
proof -
  obtain res r' where run: "transfer from to v r = (res, r')" by (cases "transfer from to v r")
  have inv: "repo_inv r'" using led.simD [OF sim_transfer assms(1) run] by simp
  consider (ok) "res = Inr ()" "transfer_possible r from to v" "bal r' from = bal r from - unat v" "bal r' to = bal r to + unat v"
      "frame_accounts {from, to} (abs_repo r) (abs_repo r')"
    | (fail) "res = Inl RepositoryException" "abs_repo r' = abs_repo r" "\<not> transfer_possible r from to v"
    using transfer_cases [OF assms(1) run assms(2-4)] transfer_possible_def by blast
  then show ?thesis
  proof cases
    case ok
    have "sum (bal r') {from, to} = sum (bal r) {from, to}"
      using ok assms(2) by (simp add: transfer_possible_def)
    then have "sum (bal r') A = sum (bal r) A" using frame_sum [OF ok(5) assms(5,6)] by simp
    then show ?thesis using ok inv run by simp
  next
    case fail
    then have "bal r' = bal r" by (simp add: fun_eq_iff bal_def)
    then show ?thesis using fail inv run by simp
  qed
qed

theorem transfer_correct_witness:
  "fst (transfer 1 2 30 sample_repo) = Inr () \<and> bal (snd (transfer 1 2 30 sample_repo)) 1 = 2999999970 \<and>
   bal (snd (transfer 1 2 30 sample_repo)) 2 = 70"
  using transfer_correct [of sample_repo 1 2 "{1, 2}" 30, OF sample_inv] by (simp add: sample_balances Let_def transfer_possible_def)

text \<open>C33. A transfer of an account to itself pays out of nothing: when the account has the value, it
  ends with its balance plus the value.\<close>

theorem self_transfer_mints:
  assumes "repo_inv r" and "exists_account r k" and "unat v \<le> bal r k" and "bal r k + unat v < 2 ^ 64"
  shows "fst (transfer k k v r) = Inr () \<and> bal (snd (transfer k k v r)) k = bal r k + unat v"
proof -
  obtain res r' where run: "transfer k k v r = (res, r')" by (cases "transfer k k v r")
  obtain f where a: "lg_account (abs_repo r) k = Inr f" "\<not> isEmptyAccount f"
    using assms(2) by (auto simp: exists_account_def)
  have b: "bal r k = unat (a_balance f)" "readable r k" using a by (simp_all add: bal_def readable_def)
  have nw: "\<not> a_balance f + v < v" using assms(4) b unat_add_no_wrap_iff by simp
  have "res = Inr ()" "abs_repo r' = with_balance k (a_balance f + v) (abs_repo r)"
    using led.simD [OF sim_transfer assms(1) run] ledger_transfer_self_run [OF ledger_ok_abs [OF assms(1)] a(1), of v]
      a(2) assms(3) b nw by (simp_all add: word_le_nat_alt)
  then show ?thesis using run with_balance_bal [OF _ b(2)] unat_add_no_wrap [OF nw] b by simp
qed

theorem self_transfer_mints_witness:
  "bal (snd (transfer 1 1 30 sample_repo)) 1 = 3000000030"
  using self_transfer_mints [OF sample_inv, of 1 30] by (simp add: sample_balances)

text \<open>\<open>Repository::bonus\<close> has no overflow check: it pays an existing account modulo \<open>2 ^ 64\<close>, so a balance
  within the bonus of \<open>2 ^ 64\<close> wraps around to a small one.\<close>

theorem bonus_wraps:
  assumes "repo_inv r" and "exists_account r k"
  shows "fst (bonus k v r) = Inr () \<and> bal (snd (bonus k v r)) k = (bal r k + unat v) mod 2 ^ 64 \<and>
    frame_accounts {k} (abs_repo r) (abs_repo (snd (bonus k v r)))"
proof -
  obtain res r' where run: "bonus k v r = (res, r')" by (cases "bonus k v r")
  obtain f where a: "lg_account (abs_repo r) k = Inr f" "\<not> isEmptyAccount f"
    using assms(2) by (auto simp: exists_account_def)
  have b: "bal r k = unat (a_balance f)" "readable r k" using a by (simp_all add: bal_def readable_def)
  have "res = Inr ()" "abs_repo r' = with_balance k (a_balance f + v) (abs_repo r)"
    using led.simD [OF sim_bonus assms(1) run] ledger_bonus_run [OF ledger_ok_abs [OF assms(1)] a(1), of v] a(2)
    by simp_all
  then show ?thesis using run with_balance_bal [OF _ b(2)] b by (simp add: unat_word_ariths)
qed

theorem bonus_wraps_witness:
  "bal (snd (bonus 2 18446744073709551600 sample_repo)) 2 = 24"
proof -
  have "exists_account sample_repo 2" by (simp add: exists_account_def sample_accounts)
  then show ?thesis using bonus_wraps [OF sample_inv, of 2 18446744073709551600] by (simp add: sample_balances)
qed

end
