(* ===== verification/Supply.thy ===== *)
theory Supply
  imports Actions Balances
begin

text \<open>
  What executing transactions does to the total balance. \<open>charges A C m\<close> is a cost judgement: when
  \<open>m\<close> returns, the accounts in \<open>A\<close> have together lost one of the amounts in \<open>C\<close>. The rules follow the
  structure of the handlers, and give the total for a whole block.
\<close>

section \<open>The judgement\<close>

definition charges :: "address set \<Rightarrow> nat set \<Rightarrow> 'a repo_op \<Rightarrow> bool" where
  "charges A C m \<longleftrightarrow> (\<forall>r. repo_inv r \<longrightarrow> repo_inv (snd (m r)) \<and>
     (\<forall>x. fst (m r) = Inr x \<longrightarrow> (\<exists>c \<in> C. sum (bal (snd (m r))) A + c = sum (bal r) A)))"

named_theorems charging \<open>rules of the cost judgement\<close>

lemma charges_returnX [charging]: "charges A {0} (returnX x)"
  by (simp add: charges_def)

lemma charges_throwX [charging]: "charges A {0} (throwX e)"
  by (simp add: charges_def)

lemma charges_bindX:
  assumes m: "charges A C m" and f: "\<And>x. charges A D (f x)"
  shows "charges A {c + d | c d. c \<in> C \<and> d \<in> D} (bindX m f)"
  unfolding charges_def
proof (intro allI impI conjI)
  fix r assume r: "repo_inv r"
  obtain res s where ms: "m r = (res, s)" by (cases "m r")
  have s: "repo_inv s" using m r ms by (auto simp: charges_def)
  show "repo_inv (snd (bindX m f r))"
    using ms s f by (cases res) (auto simp: charges_def)
  fix y assume y: "fst (bindX m f r) = Inr y"
  then obtain x where x: "res = Inr x" using ms by (cases res) auto
  obtain c where c: "c \<in> C" "sum (bal s) A + c = sum (bal r) A" using m r ms x by (auto simp: charges_def)
  obtain d where d: "d \<in> D" "sum (bal (snd (f x s))) A + d = sum (bal s) A"
    using f [of x] s y ms x by (auto simp: charges_def)
  show "\<exists>e \<in> {c + d | c d. c \<in> C \<and> d \<in> D}. sum (bal (snd (bindX m f r))) A + e = sum (bal r) A"
    using c d ms x by (intro bexI [of _ "c + d"]) auto
qed

lemma charges_weaken: "charges A C m \<Longrightarrow> C \<subseteq> D \<Longrightarrow> charges A D m"
  unfolding charges_def by blast

lemma charges_seq:
  "charges A {c} m \<Longrightarrow> (\<And>x. charges A D (f x)) \<Longrightarrow> charges A ((+) c ` D) (bindX m f)"
  by (rule charges_weaken [OF charges_bindX]) auto

lemma charges_then: "charges A {c} m \<Longrightarrow> charges A D k \<Longrightarrow> charges A ((+) c ` D) (thenX m k)"
  unfolding thenX_def by (rule charges_seq)

lemma charges_for: "(\<And>x. x \<in> set xs \<Longrightarrow> charges A {0} (f x)) \<Longrightarrow> charges A {0} (forX xs f)"
proof (induction xs)
  case (Cons x xs)
  then show ?case using charges_then [of A 0 "f x" "{0}" "forX xs f"] by simp
qed (simp add: charging)

text \<open>Operations that leave every balance alone.\<close>

lemma charges_free:
  assumes "led.sim m m'" and "\<And>g k. ledger_ok g \<Longrightarrow> lg_account (snd (m' g)) k \<noteq> lg_account g k \<Longrightarrow>
      \<exists>a a'. lg_account g k = Inr a \<and> lg_account (snd (m' g)) k = Inr a' \<and> a_balance a' = a_balance a"
  shows "charges A {0} m"
  unfolding charges_def
proof (intro allI impI conjI)
  fix r assume r: "repo_inv r"
  obtain res r' where run: "m r = (res, r')" by (cases "m r")
  have s: "m' (abs_repo r) = (res, abs_repo r')" "repo_inv r'" using led.simD [OF assms(1) r run] by auto
  show "repo_inv (snd (m r))" using s run by simp
  have "bal r' k = bal r k" for k
    using assms(2) [OF ledger_ok_abs [OF r], of k] s(1) by (fastforce simp: bal_def)
  then have "bal r' = bal r" by (simp add: fun_eq_iff)
  then show "\<exists>c \<in> {0}. sum (bal (snd (m r))) A + c = sum (bal r) A" using run by simp
qed

section \<open>The repository operations\<close>

lemma charges_burn [charging]:
  assumes A: "finite A" "k \<in> A"
  shows "charges A {unat v} (burn k v)"
  unfolding charges_def
proof (intro allI impI conjI)
  fix r assume r: "repo_inv r"
  obtain res r' where run: "burn k v r = (res, r')" by (cases "burn k v r")
  show "repo_inv (snd (burn k v r))" using led.simD [OF sim_burn r run] run by simp
  fix x assume "fst (burn k v r) = Inr x"
  then have res: "res = Inr ()" using run by simp
  have rd: "readable r k" using burn_unreadable [OF r run] res by auto
  have e: "unat v \<le> bal r k" "bal r' k = bal r k - unat v" "frame_accounts {k} (abs_repo r) (abs_repo r')"
    using burn_cases [OF r run rd] res by auto
  show "\<exists>c \<in> {unat v}. sum (bal (snd (burn k v r))) A + c = sum (bal r) A"
    using frame_sum [OF e(3) A(1)] A(2) e run by simp
qed

lemma charges_transfer [charging]:
  assumes A: "finite A" "from \<in> A" "to \<in> A" and ne: "from \<noteq> to"
  shows "charges A {0} (transfer from to v)"
  unfolding charges_def
proof (intro allI impI conjI)
  fix r assume r: "repo_inv r"
  obtain res r' where run: "transfer from to v r = (res, r')" by (cases "transfer from to v r")
  show "repo_inv (snd (transfer from to v r))" using led.simD [OF sim_transfer r run] run by simp
  fix x assume "fst (transfer from to v r) = Inr x"
  then have res: "res = Inr ()" using run by simp
  have rd: "readable r from" "readable r to" using transfer_unreadable [OF r run] res by auto
  have e: "unat v \<le> bal r from" "bal r' from = bal r from - unat v" "bal r' to = bal r to + unat v"
    "frame_accounts {from, to} (abs_repo r) (abs_repo r')"
    using transfer_cases [OF r run ne rd] res by auto
  show "\<exists>c \<in> {0}. sum (bal (snd (transfer from to v r))) A + c = sum (bal r) A"
    using frame_sum [OF e(4) A(1)] A e ne run by simp
qed

lemma charges_getProducer [charging]: "charges A {0} (getProducer k)"
  by (rule charges_free [OF sim_getProducer]) (simp add: ledger_getProducer_def)

lemma charges_putProducer [charging]: "\<not> isEmptyProducer p \<Longrightarrow> charges A {0} (putProducer p)"
  by (rule charges_free [OF sim_putProducer]) (simp_all add: ledger_putProducer_def)

lemma charges_putTransaction [charging]: "charges A {0} (putTransaction t)"
  by (rule charges_free [OF sim_putTransaction]) simp_all

lemma eraseVoters_accounts: "lg_account (snd (forX cs (ledger_eraseVoter k) g)) = lg_account g"
proof -
  have "preserves (\<lambda>h. lg_account h = lg_account g) (forX cs (ledger_eraseVoter k))"
    unfolding ledger_eraseVoter_def
    by (intro preserves_intros preservesI)
      (simp_all add: ledger_getProducer_def ledger_putProducer_def)
  then show ?thesis by (simp add: preserves_def)
qed

lemma charges_clearVote [charging]: "charges A {0} (clearVote k)"
proof (rule charges_free [OF sim_clearVote])
  fix g k' assume ok: "ledger_ok g" and ne: "lg_account (snd (ledger_clearVote k g)) k' \<noteq> lg_account g k'"
  show "\<exists>a a'. lg_account g k' = Inr a \<and> lg_account (snd (ledger_clearVote k g)) k' = Inr a' \<and>
      a_balance a' = a_balance a"
  proof (cases "lg_account g k")
    case (Inl e)
    then show ?thesis using ne by (simp add: ledger_clearVote_def ledger_getAccount_def bindX_run)
  next
    case (Inr a)
    obtain res h where h: "forX (map fst (a_candidates a)) (ledger_eraseVoter k) g = (res, h)"
      by (cases "forX (map fst (a_candidates a)) (ledger_eraseVoter k) g")
    have h': "lg_account h = lg_account g" using eraseVoters_accounts [of _ k g] h by (metis snd_conv)
    show ?thesis using ne Inr h h' ledger_okD [OF ok Inr]
      by (cases "isEmptyAccount a"; cases res)
        (auto simp: ledger_clearVote_def ledger_getAccount_def ledger_putAccount_def bindX_run thenX_run
          account_clearVote_def split: if_splits)
  qed
qed

lemma charges_voteIncrease [charging]: "charges A {0} (voteIncrease k c v)"
proof (rule charges_free [OF sim_voteIncrease])
  fix g k' assume ok: "ledger_ok g" and ne: "lg_account (snd (ledger_voteIncrease k c v g)) k' \<noteq> lg_account g k'"
  show "\<exists>a a'. lg_account g k' = Inr a \<and> lg_account (snd (ledger_voteIncrease k c v g)) k' = Inr a' \<and>
      a_balance a' = a_balance a"
  proof (cases "lg_account g k")
    case (Inr a)
    then show ?thesis using ne ledger_okD [OF ok Inr]
      by (cases "isEmptyAccount a"; cases "lg_producer g c")
        (auto simp: ledger_voteIncrease_def ledger_getAccount_def ledger_putAccount_def ledger_getProducer_def
          ledger_putProducer_def bindX_run thenX_run account_addVoter_def split: if_splits)
  qed (use ne in \<open>simp add: ledger_voteIncrease_def ledger_getAccount_def bindX_run\<close>)
qed

section \<open>The handlers\<close>

definition parties :: "transaction \<Rightarrow> address set" where
  "parties t = {t_sender t, t_recipient t}"

lemma charges_vote:
  assumes "finite A" "t_sender t \<in> A"
  shows "charges A {unat TRANSACTION_FEE} (vote_execute t)"
proof -
  have "charges A {0} (case ballot_decode (t_data t) of Inl e \<Rightarrow> throwX e
      | Inr ballot \<Rightarrow> forX ballot (\<lambda>c. voteIncrease (t_sender t) (c_address c) (c_value c)))"
    by (auto split: sum.splits intro: charging charges_for)
  then have "charges A ((+) 0 ` (+) (unat TRANSACTION_FEE) ` {0}) (vote_execute t)"
    unfolding vote_execute_def by (intro charges_then charging assms)
  then show ?thesis by simp
qed

lemma charges_transferTx:
  assumes "finite A" "parties t \<subseteq> A" "t_sender t \<noteq> t_recipient t"
  shows "charges A {unat TRANSACTION_FEE} (transfer_execute t)"
proof -
  have "charges A ((+) (unat TRANSACTION_FEE) ` {0}) (transfer_execute t)"
    unfolding transfer_execute_def using assms by (intro charges_then charging) (auto simp: parties_def)
  then show ?thesis by simp
qed

lemma charges_beenProducer:
  assumes "finite A" "t_sender t \<in> A" "executable (block_timestamp b) t"
  shows "charges A {unat TRANSACTION_FEE, unat TRANSACTION_FEE + unat PRODUCER_COST} (beenProducer_execute t b)"
proof -
  let ?new = "thenX (burn (t_sender t) PRODUCER_COST) (putProducer (new_producer (t_sender t) (block_timestamp b)))"
  have "charges A ((+) (unat PRODUCER_COST) ` {0}) ?new"
    using assms by (intro charges_then charging) (auto simp: executable_def new_producer_not_empty)
  then have n: "charges A {0, unat PRODUCER_COST} ?new" by (rule charges_weaken) simp
  have "charges A ((+) (unat TRANSACTION_FEE) ` (+) 0 ` {0, unat PRODUCER_COST}) (beenProducer_execute t b)"
    unfolding beenProducer_execute_def setVotes_new
  proof (intro charges_then charges_seq charging assms)
    fix p show "charges A {0, unat PRODUCER_COST} (if isEmptyProducer p then ?new else returnX ())"
      using n by (auto intro: charges_weaken [OF charges_returnX])
  qed
  then show ?thesis by (rule charges_weaken) auto
qed

text \<open>The amounts one transaction can cost.\<close>

definition costs :: "transaction \<Rightarrow> nat set" where
  "costs t = (case actionFactory t of
      None \<Rightarrow> {0}
    | Some BeenProducer \<Rightarrow> {unat TRANSACTION_FEE, unat TRANSACTION_FEE + unat PRODUCER_COST}
    | Some _ \<Rightarrow> {unat TRANSACTION_FEE})"

definition self_transfer :: "transaction \<Rightarrow> bool" where
  "self_transfer t \<longleftrightarrow> t_type t = TransferType \<and> t_sender t = t_recipient t"

lemma charges_excute:
  assumes "finite A" "parties t \<subseteq> A" "executable (block_timestamp b) t" "\<not> self_transfer t"
  shows "charges A (costs t) (runtime_excute b t)"
proof -
  have "charges A (costs t) (factory_execute t b)"
    using assms charges_vote [of A t] charges_transferTx [of A t] charges_beenProducer [of A t b]
    by (auto simp: factory_execute_def costs_def handler_execute_def parties_def self_transfer_def
        actionFactory_def charging split: option.splits)
  then have "charges A {c + d | c d. c \<in> costs t \<and> d \<in> {0}} (runtime_excute b t)"
    unfolding runtime_excute_def thenX_def by (intro charges_bindX charging)
  then show ?thesis by (rule charges_weaken) auto
qed

definition charged :: "transaction list \<Rightarrow> nat" where
  "charged ts = length (filter (\<lambda>t. actionFactory t \<noteq> None) ts)"

definition registrations :: "transaction list \<Rightarrow> nat" where
  "registrations ts = length (filter (\<lambda>t. actionFactory t = Some BeenProducer) ts)"

lemma charges_all:
  assumes "finite A" "\<forall>t \<in> set ts. parties t \<subseteq> A \<and> executable (block_timestamp b) t \<and> \<not> self_transfer t"
  shows "charges A {charged ts * unat TRANSACTION_FEE + m * unat PRODUCER_COST | m. m \<le> registrations ts}
    (forX ts (runtime_excute b))"
  using assms(2)
proof (induction ts)
  case Nil
  show ?case unfolding forX.simps by (rule charges_weaken [OF charges_returnX]) (auto simp: charged_def)
next
  case (Cons t ts)
  let ?S = "\<lambda>ts. {charged ts * unat TRANSACTION_FEE + m * unat PRODUCER_COST | m. m \<le> registrations ts}"
  have h: "charges A (costs t) (runtime_excute b t)" using Cons.prems assms(1) by (intro charges_excute) auto
  have "charges A {c + d | c d. c \<in> costs t \<and> d \<in> ?S ts} (forX (t # ts) (runtime_excute b))"
    unfolding forX.simps thenX_def using Cons by (intro charges_bindX [OF h]) auto
  then show ?case
  proof (rule charges_weaken, safe)
    fix c m assume c: "c \<in> costs t" and m: "m \<le> registrations ts"
    show "\<exists>m'. c + (charged ts * unat TRANSACTION_FEE + m * unat PRODUCER_COST) =
        charged (t # ts) * unat TRANSACTION_FEE + m' * unat PRODUCER_COST \<and> m' \<le> registrations (t # ts)"
    proof (cases "c = unat TRANSACTION_FEE + unat PRODUCER_COST \<and> actionFactory t = Some BeenProducer")
      case True
      then show ?thesis using m
        by (intro exI [of _ "Suc m"]) (simp add: charged_def registrations_def)
    next
      case False
      then show ?thesis using m c
        by (intro exI [of _ m])
          (auto simp: charged_def registrations_def costs_def split: option.splits action_handler.splits)
    qed
  qed
qed


definition sample_block :: block where
  "sample_block = EmptyBlock\<lparr>b_transactions :=
     [EmptyTransaction\<lparr>t_type := TransferType, t_sender := 1, t_recipient := 2, t_value := 30\<rparr>,
      EmptyTransaction\<lparr>t_type := BeenProducerType, t_sender := 1\<rparr>]\<rparr>"

lemma sample_executable:
  "\<forall>t \<in> set (b_transactions sample_block). parties t \<subseteq> {0, 1, 2} \<and> executable (block_timestamp sample_block) t \<and>
     \<not> self_transfer t"
  by (simp add: sample_block_def parties_def executable_def self_transfer_def EmptyTransaction_def
      TransferType_def BeenProducerType_def)

lemma sample_missing: "lg_producer (abs_repo sample_repo) 1 = Inr EmptyProducer"
  unfolding abs_repo_def pc.view_def pc.db_value_def ledger.simps
  by (simp add: sample_repo_def om_find_def db_getProducer_def empty_db_def)

lemma sample_runs: "fst (correlator_run sample_block sample_repo) = Inr ()"
proof -
  have ex: "\<forall>t \<in> set (b_transactions sample_block). executable (block_timestamp sample_block) t"
    using sample_executable by blast
  have "fst (forX (b_transactions sample_block) (ledger_execute (block_timestamp sample_block)) (abs_repo sample_repo)) = Inr ()"
    by (simp add: sample_block_def ledger_execute_def ledger_transferTx_def ledger_burn_def ledger_getAccount_def
        ledger_beenProducer_def ledger_transfer_def ledger_putAccount_def ledger_or_new_def ledger_getProducer_def
        ledger_putProducer_def bindX_run thenX_run sample_accounts sample_missing
        EmptyTransaction_def VoteType_def TransferType_def BeenProducerType_def TRANSACTION_FEE_def PRODUCER_COST_def
        account_setBalance_def new_account_def isEmptyAccount_def account_eq_def EmptyAccount_def)
  then show ?thesis
    using led.simD [OF sim_run [OF ex] sample_inv] by (cases "correlator_run sample_block sample_repo") auto
qed


end
