(* ===== verification/Votes.thy ===== *)
theory Votes
  imports Supply
begin

text \<open>
  The bookkeeping of votes across accounts and producers. An account lists the candidates it voted
  for, a producer lists its voters, and both keep a running total. The two lists mirror each other and
  the totals are the sums, up to the votes a producer was given at genesis; executing a block keeps it
  so, as long as no ballot names a candidate twice.
\<close>

section \<open>Consistent books\<close>

text \<open>The votes of a producer beyond those of its voters.\<close>

definition producer_base :: "producer \<Rightarrow> u64" where
  "producer_base p = p_votes p - om_sum (p_voters p)"

definition mirrored :: "ledger \<Rightarrow> bool" where
  "mirrored g \<longleftrightarrow> (\<forall>v c a p. lg_account g v = Inr a \<longrightarrow> lg_producer g c = Inr p \<longrightarrow>
     om_find (a_candidates a) c = om_find (p_voters p) v)"

definition accounts_tallied :: "ledger \<Rightarrow> bool" where
  "accounts_tallied g \<longleftrightarrow> (\<forall>v a. lg_account g v = Inr a \<longrightarrow>
     account_tally a \<and> (isEmptyAccount a \<longrightarrow> a_candidates a = []))"

definition producers_tallied :: "(address \<Rightarrow> u64) \<Rightarrow> ledger \<Rightarrow> bool" where
  "producers_tallied base g \<longleftrightarrow> (\<forall>c p. lg_producer g c = Inr p \<longrightarrow>
     om_inv (p_voters p) \<and> producer_base p = base c \<and>
     (isEmptyProducer p \<longrightarrow> p_voters p = [] \<and> p_votes p = 0))"

definition books :: "(address \<Rightarrow> u64) \<Rightarrow> ledger \<Rightarrow> bool" where
  "books base g \<longleftrightarrow> ledger_ok g \<and> mirrored g \<and> accounts_tallied g \<and> producers_tallied base g"

lemma booksD:
  assumes "books base g"
  shows "ledger_ok g"
    and "lg_account g v = Inr a \<Longrightarrow> lg_producer g c = Inr p \<Longrightarrow> om_find (a_candidates a) c = om_find (p_voters p) v"
    and "lg_account g v = Inr a \<Longrightarrow> account_tally a"
    and "lg_account g v = Inr a \<Longrightarrow> isEmptyAccount a \<Longrightarrow> a_candidates a = []"
    and "lg_producer g c = Inr p \<Longrightarrow> om_inv (p_voters p)"
    and "lg_producer g c = Inr p \<Longrightarrow> producer_base p = base c"
    and "lg_producer g c = Inr p \<Longrightarrow> isEmptyProducer p \<Longrightarrow> p_voters p = [] \<and> p_votes p = 0"
  using assms by (auto simp: books_def mirrored_def accounts_tallied_def producers_tallied_def)

lemma base_eraseVoter:
  "om_inv (p_voters p) \<Longrightarrow> producer_base (producer_eraseVoter v p) = producer_base p"
  by (auto simp: producer_base_def producer_eraseVoter_def om_sum_erase split: option.splits)

lemma base_addVoter:
  "om_find (p_voters p) v = None \<Longrightarrow> producer_base (producer_addVoter v n p) = producer_base p"
  by (simp add: producer_base_def producer_addVoter_def om_sum_put_new)

lemma voters_simps [simp]:
  "om_find (p_voters (producer_eraseVoter v p)) u = (if u = v then None else om_find (p_voters p) u)"
  "p_voters (producer_addVoter v n p) = om_put v n (p_voters p)"
  "p_address (producer_eraseVoter v p) = p_address p" "p_address (producer_addVoter v n p) = p_address p"
  "om_inv (p_voters p) \<Longrightarrow> om_inv (p_voters (producer_eraseVoter v p))"
  by (auto simp: producer_eraseVoter_def producer_addVoter_def split: option.splits)

lemma candidates_simps [simp]:
  "a_candidates (account_addVoter c n a) = om_put c n (a_candidates a)" "a_address (account_addVoter c n a) = a_address a"
  "a_candidates (account_clearVote a) = []" "a_address (account_clearVote a) = a_address a"
  "a_balance (account_addVoter c n a) = a_balance a" "a_balance (account_clearVote a) = a_balance a"
  "a_votes (account_clearVote a) = 0" "a_votes (account_addVoter c n a) = a_votes a + n"
  "a_candidates (account_setBalance b a) = a_candidates a" "a_votes (account_setBalance b a) = a_votes a"
  by (simp_all add: account_addVoter_def account_clearVote_def account_setBalance_def)

lemma empty_simps [simp]:
  "isEmptyAccount (account_addVoter c n a) = isEmptyAccount a" "isEmptyAccount (account_clearVote a) = isEmptyAccount a"
  by (simp_all add: isEmptyAccount_def account_eq_def account_addVoter_def account_clearVote_def)

section \<open>Clearing a vote\<close>

text \<open>The loop of \<open>clearVote\<close> erases the voter from exactly the candidates given.\<close>

lemma eraseVoter_idem [simp]: "producer_eraseVoter v (producer_eraseVoter v p) = producer_eraseVoter v p"
  by (simp add: producer_eraseVoter_def split: option.splits)

lemma eraseVoters_run:
  assumes "forX cs (ledger_eraseVoter v) g = (Inr (), g')" "ledger_ok g"
  shows "g' = g\<lparr>lg_producer := (\<lambda>c. if c \<in> set cs
           then (case lg_producer g c of Inl e \<Rightarrow> Inl e | Inr p \<Rightarrow> Inr (producer_eraseVoter v p)) else lg_producer g c)\<rparr>"
  using assms
proof (induction cs arbitrary: g)
  case (Cons c cs)
  obtain p where p: "lg_producer g c = Inr p" "\<not> isEmptyProducer p"
    using Cons.prems(1) by (cases "lg_producer g c")
      (auto simp: ledger_eraseVoter_def ledger_getProducer_def bindX_run thenX_run split: if_splits)
  let ?h = "g\<lparr>lg_producer := (lg_producer g)(c := Inr (producer_eraseVoter v p))\<rparr>"
  have pa: "p_address p = c" using Cons.prems(2) p by (auto simp: ledger_ok_def producer_found_def)
  have step: "ledger_eraseVoter v c g = (Inr (), ?h)"
    using p pa by (simp add: ledger_eraseVoter_def ledger_getProducer_def ledger_putProducer_def bindX_run)
  have ok: "ledger_ok ?h" using Cons.prems(2) pa by (auto simp: ledger_ok_def producer_found_def)
  have "forX cs (ledger_eraseVoter v) ?h = (Inr (), g')" using Cons.prems(1) step by simp
  from Cons.IH [OF this ok] show ?case using p by (auto simp: fun_eq_iff)
qed simp

text \<open>After \<open>clearVote\<close> the books are consistent and the account has no vote left anywhere.\<close>

lemma clearVote_books:
  assumes b: "books base g" and run: "ledger_clearVote v g = (Inr (), g')"
  shows "books base g' \<and> (\<exists>a. lg_account g v = Inr a \<and> lg_account g' v = Inr (account_clearVote a)) \<and>
    (\<forall>k. k \<noteq> v \<longrightarrow> lg_account g' k = lg_account g k)"
proof -
  obtain a where a: "lg_account g v = Inr a" "\<not> isEmptyAccount a"
    using run by (cases "lg_account g v") (auto simp: ledger_clearVote_def ledger_getAccount_def bindX_run split: if_splits)
  have aa: "a_address a = v" using ledger_okD [OF booksD(1) [OF b] a] by simp
  let ?cs = "map fst (a_candidates a)"
  obtain h where h: "forX ?cs (ledger_eraseVoter v) g = (Inr (), h)"
    "g' = h\<lparr>lg_account := (lg_account h)(v := Inr (account_clearVote a))\<rparr>"
    using run a aa by (auto simp: ledger_clearVote_def ledger_getAccount_def ledger_putAccount_def bindX_run thenX_run
        split: prod.splits sum.splits)
  note hh = eraseVoters_run [OF h(1) booksD(1) [OF b]]
  have acc: "lg_account g' = (lg_account g)(v := Inr (account_clearVote a))"
    and pro: "lg_producer g' c = Inr q \<longleftrightarrow> (\<exists>p. lg_producer g c = Inr p \<and>
        q = (if c \<in> set ?cs then producer_eraseVoter v p else p))" for c q
    using h(2) by (auto simp: hh split: sum.splits)
  have none: "om_find (p_voters p) v = None" if "lg_producer g c = Inr p" "c \<notin> set ?cs" for c p
  proof -
    have "om_find (a_candidates a) c = None" using that(2) by (simp add: om_find_def map_of_eq_None_iff)
    then show ?thesis using booksD(2) [OF b a(1) that(1)] by simp
  qed
  have "mirrored g'"
    unfolding mirrored_def
  proof (intro allI impI)
    fix u c a' q assume a': "lg_account g' u = Inr a'" and q: "lg_producer g' c = Inr q"
    obtain p where p: "lg_producer g c = Inr p" "q = (if c \<in> set ?cs then producer_eraseVoter v p else p)"
      using q unfolding pro by blast
    show "om_find (a_candidates a') c = om_find (p_voters q) u"
    proof (cases "u = v")
      case True
      then show ?thesis using a' p none [OF p(1)] by (auto simp: acc)
    next
      case False
      then show ?thesis using a' p booksD(2) [OF b _ p(1), of u a'] by (simp add: acc)
    qed
  qed
  moreover have "ledger_ok g'"
  proof -
    have "producer_found c q" if q: "lg_producer g' c = Inr q" for c q
    proof -
      obtain p where "lg_producer g c = Inr p" "q = (if c \<in> set ?cs then producer_eraseVoter v p else p)"
        using q unfolding pro by blast
      then show ?thesis using booksD(1) [OF b] by (simp add: ledger_ok_def producer_found_def)
    qed
    moreover have "account_found v (account_clearVote a)"
      using booksD(1) [OF b] a by (auto simp: ledger_ok_def account_found_def account_good_def account_clearVote_def)
    ultimately show ?thesis using booksD(1) [OF b] by (simp add: ledger_ok_def acc)
  qed
  moreover have "accounts_tallied g'"
    using booksD(3,4) [OF b] by (auto simp: accounts_tallied_def acc account_tally_clearVote)
  moreover have "producers_tallied base g'"
    unfolding producers_tallied_def
  proof (intro allI impI)
    fix c q assume "lg_producer g' c = Inr q"
    then obtain p where p: "lg_producer g c = Inr p" "q = (if c \<in> set ?cs then producer_eraseVoter v p else p)"
      unfolding pro by blast
    have "isEmptyProducer p \<Longrightarrow> producer_eraseVoter v p = p"
      using booksD(7) [OF b p(1)] by (simp add: producer_eraseVoter_def)
    then show "om_inv (p_voters q) \<and> producer_base q = base c \<and> (isEmptyProducer q \<longrightarrow> p_voters q = [] \<and> p_votes q = 0)"
      using booksD(5-7) [OF b p(1)] p(2) by (auto simp: base_eraseVoter)
  qed
  ultimately show ?thesis using acc a by (auto simp: books_def)
qed

section \<open>Casting votes\<close>

lemma voteIncrease_run:
  assumes ok: "ledger_ok g" and run: "ledger_voteIncrease v c n g = (Inr (), g')"
  shows "\<exists>a p. lg_account g v = Inr a \<and> lg_producer g c = Inr p \<and> \<not> isEmptyAccount a \<and> \<not> isEmptyProducer p \<and>
    \<not> a_balance a - a_votes a * VOTE_UNIT < n * VOTE_UNIT \<and>
    g' = g\<lparr>lg_account := (lg_account g)(v := Inr (account_addVoter c n a)),
           lg_producer := (lg_producer g)(c := Inr (producer_addVoter v n p))\<rparr>"
proof -
  obtain a where a: "lg_account g v = Inr a" "\<not> isEmptyAccount a"
    using run by (cases "lg_account g v") (auto simp: ledger_voteIncrease_def ledger_getAccount_def bindX_run split: if_splits)
  obtain p where p: "lg_producer g c = Inr p" "\<not> isEmptyProducer p"
    using run a by (cases "lg_producer g c")
      (auto simp: ledger_voteIncrease_def ledger_getAccount_def ledger_getProducer_def bindX_run split: if_splits)
  have "a_address a = v" "p_address p = c"
    using ok a p ledger_okD [OF ok a] by (auto simp: ledger_ok_def producer_found_def)
  then show ?thesis using run a p
    by (auto simp: ledger_voteIncrease_def ledger_getAccount_def ledger_getProducer_def ledger_putAccount_def
        ledger_putProducer_def bindX_run thenX_run split: if_splits)
qed

lemma ledger_ok_update:
  assumes "ledger_ok g" "account_good a" "a_address a = v" "p_address p = c"
  shows "ledger_ok (g\<lparr>lg_account := (lg_account g)(v := Inr a), lg_producer := (lg_producer g)(c := Inr p)\<rparr>)"
proof -
  have "account_found v a" "producer_found c p"
    using assms(2-4) by (simp_all add: account_found_def producer_found_def account_good_def)
  then show ?thesis using assms(1) by (simp add: ledger_ok_def)
qed

lemma voteIncrease_books:
  assumes b: "books base g" and run: "ledger_voteIncrease v c n g = (Inr (), g')"
    and a: "lg_account g v = Inr a" and new: "om_find (a_candidates a) c = None"
  shows "books base g' \<and> lg_account g' = (lg_account g)(v := Inr (account_addVoter c n a)) \<and>
    \<not> a_balance a - a_votes a * VOTE_UNIT < n * VOTE_UNIT"
proof -
  obtain p where p: "lg_producer g c = Inr p" "\<not> isEmptyProducer p" "\<not> isEmptyAccount a"
    "\<not> a_balance a - a_votes a * VOTE_UNIT < n * VOTE_UNIT"
    "g' = g\<lparr>lg_account := (lg_account g)(v := Inr (account_addVoter c n a)),
           lg_producer := (lg_producer g)(c := Inr (producer_addVoter v n p))\<rparr>"
    using voteIncrease_run [OF booksD(1) [OF b] run] a by auto
  have nv: "om_find (p_voters p) v = None" using booksD(2) [OF b a p(1)] new by simp
  have "mirrored g'" unfolding mirrored_def p(5) using booksD(2) [OF b] a p(1) by auto
  moreover have "ledger_ok g'"
    using booksD(1) [OF b] a p(1-3) by (auto simp: ledger_ok_def p(5) account_found_def producer_found_def
        account_good_def account_addVoter_def)
  moreover have "accounts_tallied g'"
    using booksD(3,4) [OF b] account_tally_addVoter [OF booksD(3) [OF b a] new] p(3)
    by (auto simp: accounts_tallied_def p(5))
  moreover have "producers_tallied base g'"
    using booksD(5-7) [OF b] p(1,2) by (auto simp: producers_tallied_def p(5) base_addVoter [OF nv])
  ultimately show ?thesis using p by (simp add: books_def)
qed

definition ballot_map :: "ballot \<Rightarrow> address \<Rightarrow> u64 option" where
  "ballot_map bs = map_of (map (\<lambda>c. (c_address c, c_value c)) bs)"

text \<open>No product in the balance check wraps around.\<close>

definition ballot_small :: "ballot \<Rightarrow> bool" where
  "ballot_small bs \<longleftrightarrow> (\<forall>c \<in> set bs. unat (c_value c) * 1000000 < 2 ^ 64)"

lemma stake_step:
  fixes b votes n :: u64
  assumes "unat votes * 1000000 \<le> unat b" "unat n * 1000000 < 2 ^ 64" "\<not> b - votes * VOTE_UNIT < n * VOTE_UNIT"
  shows "unat (votes + n) * 1000000 \<le> unat b"
proof -
  have b: "unat b < 2 ^ 64" using unsigned_less [of b] by simp
  have v: "unat (votes * VOTE_UNIT) = unat votes * 1000000"
    using assms(1) b by (simp add: unat_word_ariths VOTE_UNIT_def)
  have n: "unat (n * VOTE_UNIT) = unat n * 1000000"
    using assms(2) by (simp add: unat_word_ariths VOTE_UNIT_def)
  have "unat (b - votes * VOTE_UNIT) = unat b - unat votes * 1000000"
    using assms(1) v by (simp add: unat_sub word_le_nat_alt)
  then have le: "unat n * 1000000 + unat votes * 1000000 \<le> unat b"
    using assms(1,3) n by (simp add: word_less_nat_alt)
  then have "unat votes + unat n < 2 ^ 64" using b by linarith
  then have "unat (votes + n) = unat votes + unat n" by (simp add: unat_word_ariths)
  then show ?thesis using le by simp
qed

lemma ballot_books:
  assumes "books base g" "forX bs (\<lambda>c. ledger_voteIncrease v (c_address c) (c_value c)) g = (Inr (), g')"
    "lg_account g v = Inr a" "\<forall>c \<in> set bs. om_find (a_candidates a) (c_address c) = None"
    "distinct (map c_address bs)"
  shows "books base g' \<and> (\<exists>a'. lg_account g' = (lg_account g)(v := Inr a') \<and> a_balance a' = a_balance a \<and>
      (\<forall>k. om_find (a_candidates a') k = (case ballot_map bs k of Some n \<Rightarrow> Some n | None \<Rightarrow> om_find (a_candidates a) k)) \<and>
      (ballot_small bs \<longrightarrow> unat (a_votes a) * 1000000 \<le> unat (a_balance a) \<longrightarrow>
         unat (a_votes a') * 1000000 \<le> unat (a_balance a)))"
  using assms
proof (induction bs arbitrary: g a)
  case Nil
  have "g' = g" using Nil.prems(2) by simp
  moreover have "lg_account g = (lg_account g)(v := Inr a)"
    using fun_upd_triv [of "lg_account g" v] unfolding Nil.prems(3) by (rule sym)
  ultimately show ?case using Nil.prems(1) by (intro conjI exI [of _ a]) (simp_all add: ballot_map_def)
next
  case (Cons c bs)
  obtain h where h: "ledger_voteIncrease v (c_address c) (c_value c) g = (Inr (), h)"
    "forX bs (\<lambda>c. ledger_voteIncrease v (c_address c) (c_value c)) h = (Inr (), g')"
    using Cons.prems(2) by (auto simp: thenX_run split: prod.splits sum.splits)
  have s: "books base h" "lg_account h = (lg_account g)(v := Inr (account_addVoter (c_address c) (c_value c) a))"
    "\<not> a_balance a - a_votes a * VOTE_UNIT < c_value c * VOTE_UNIT"
    using voteIncrease_books [OF Cons.prems(1) h(1) Cons.prems(3)] Cons.prems(4) by auto
  let ?a = "account_addVoter (c_address c) (c_value c) a"
  have none: "\<forall>d \<in> set bs. om_find (a_candidates ?a) (c_address d) = None"
    using Cons.prems(4,5) by (auto simp: image_iff)
  have hv: "lg_account h v = Inr ?a" and di: "distinct (map c_address bs)" using s(2) Cons.prems(5) by simp_all
  from Cons.IH [OF s(1) h(2) hv none di] obtain a'
    where a': "books base g'" "lg_account g' = (lg_account h)(v := Inr a')" "a_balance a' = a_balance ?a"
      "\<forall>k. om_find (a_candidates a') k = (case ballot_map bs k of Some n \<Rightarrow> Some n | None \<Rightarrow> om_find (a_candidates ?a) k)"
      "ballot_small bs \<longrightarrow> unat (a_votes ?a) * 1000000 \<le> unat (a_balance ?a) \<longrightarrow>
         unat (a_votes a') * 1000000 \<le> unat (a_balance ?a)"
    by (elim conjE exE)
  have "c_address c \<notin> c_address ` set bs" using Cons.prems(5) by simp
  then have nm: "ballot_map bs (c_address c) = None"
    by (auto simp: ballot_map_def map_of_eq_None_iff)
  have "om_find (a_candidates a') k = (case ballot_map (c # bs) k of Some n \<Rightarrow> Some n | None \<Rightarrow> om_find (a_candidates a) k)" for k
    using a'(4) nm by (auto simp: ballot_map_def split: option.splits)
  moreover have "unat (a_votes a') * 1000000 \<le> unat (a_balance a)"
    if "ballot_small (c # bs)" "unat (a_votes a) * 1000000 \<le> unat (a_balance a)"
    using a'(5) stake_step [OF that(2) _ s(3)] that(1) by (simp add: ballot_small_def)
  ultimately show ?case using a'(1-3) s(2) by (intro conjI exI [of _ a']) simp_all
qed

section \<open>The other operations keep the books\<close>

lemma books_with_balance:
  assumes b: "books base g" and a: "lg_account g k = Inr a"
  shows "books base (with_balance k v g)"
proof -
  let ?n = "account_setBalance v (if isEmptyAccount a then new_account k 0 (lg_timestamp g) else a)"
  have n: "lg_account (with_balance k v g) = (lg_account g)(k := Inr ?n)" "lg_producer (with_balance k v g) = lg_producer g"
    using a by (simp_all add: with_balance_def)
  have c: "a_candidates ?n = a_candidates a \<and> account_tally ?n \<and> account_found k ?n \<and> \<not> isEmptyAccount ?n"
  proof (cases "isEmptyAccount a")
    case True
    then show ?thesis using booksD(4) [OF b a]
      by (simp add: account_found_def account_good_not_empty account_tally_def new_account_def account_setBalance_def
        account_good_def)
  next
    case False
    have "account_found k a" using booksD(1) [OF b] a by (simp add: ledger_ok_def)
    then have g: "account_good a" "a_address a = k" using False by (simp_all add: account_found_def)
    then show ?thesis using False booksD(3) [OF b a]
      by (simp add: account_found_def account_good_not_empty account_tally_def) (simp add: account_good_def account_setBalance_def)
  qed
  define m where "m = ?n"
  note n = n [folded m_def] and c = c [folded m_def]
  show ?thesis
    unfolding books_def
  proof (intro conjI)
    show "ledger_ok (with_balance k v g)" using booksD(1) [OF b] c by (simp add: ledger_ok_def n)
    show "mirrored (with_balance k v g)" using booksD(2) [OF b] c a by (simp add: mirrored_def n)
    show "accounts_tallied (with_balance k v g)" using booksD(3,4) [OF b] c by (simp add: accounts_tallied_def n)
    show "producers_tallied base (with_balance k v g)" using booksD(5-7) [OF b] by (simp add: producers_tallied_def n)
  qed
qed

lemma burn_books:
  assumes b: "books base g" and run: "ledger_burn k v g = (Inr (), g')"
  shows "books base g' \<and> (\<exists>a. lg_account g k = Inr a \<and> v \<le> a_balance a \<and>
    lg_account g' = (lg_account g)(k := Inr (account_setBalance (a_balance a - v) a)))"
proof -
  obtain a where a: "lg_account g k = Inr a"
    using run ledger_unreadable(1) [of g k] by (cases "lg_account g k") auto
  have "\<not> isEmptyAccount a \<and> v \<le> a_balance a \<and> g' = with_balance k (a_balance a - v) g"
    using run ledger_burn_run [OF booksD(1) [OF b] a, of v] by (auto split: if_splits)
  then show ?thesis using books_with_balance [OF b a] a by (auto simp: with_balance_def)
qed

lemma transfer_books:
  assumes b: "books base g" and run: "ledger_transfer k k' v g = (Inr (), g')"
  shows "books base g'"
proof -
  obtain a where a: "lg_account g k = Inr a"
    using run ledger_unreadable(6) [of g k] by (cases "lg_account g k") auto
  obtain a' where a': "lg_account g k' = Inr a'"
    using run ledger_unreadable(7) [OF a, of k'] by (cases "lg_account g k'") auto
  show ?thesis
  proof (cases "k = k'")
    case True
    then have "g' = with_balance k (a_balance a + v) g"
      using run ledger_transfer_self_run [OF booksD(1) [OF b] a, of v] by (auto split: if_splits)
    then show ?thesis using books_with_balance [OF b a] by simp
  next
    case False
    then have g': "g' = with_balance k' (a_balance a' + v) (with_balance k (a_balance a - v) g)"
      using run ledger_transfer_run [OF booksD(1) [OF b] a a' False, of v] by (auto split: if_splits)
    have "lg_account (with_balance k (a_balance a - v) g) k' = Inr a'" using a' False by (simp add: with_balance_account)
    from books_with_balance [OF books_with_balance [OF b a] this] show ?thesis by (simp add: g')
  qed
qed

lemma register_books:
  assumes b: "books base g" and p: "lg_producer g c = Inr p" "isEmptyProducer p" and ne: "c \<noteq> 0 \<or> ts \<noteq> 0"
  shows "books base (g\<lparr>lg_producer := (lg_producer g)(c := Inr (new_producer c ts))\<rparr>)"
proof -
  have v: "p_voters p = []" "producer_base p = 0" using booksD(7) [OF b p] by (simp_all add: producer_base_def)
  have "om_find (a_candidates a) c = None" if "lg_account g u = Inr a" for u a
    using booksD(2) [OF b that p(1)] v by simp
  moreover have "base c = 0" using booksD(6) [OF b p(1)] v by simp
  moreover have "p_voters (new_producer c ts) = []" "producer_base (new_producer c ts) = 0" "p_address (new_producer c ts) = c"
    by (simp_all add: new_producer_def producer_base_def)
  ultimately show ?thesis
    using b new_producer_not_empty [OF ne]
    by (auto simp: books_def ledger_ok_def mirrored_def accounts_tallied_def producers_tallied_def producer_found_def)
qed

lemma thenX_success: "thenX m k s = (Inr x, s') \<Longrightarrow> \<exists>y t. m s = (Inr y, t) \<and> k t = (Inr x, s')"
  by (auto simp: thenX_run split: prod.splits sum.splits)

text \<open>The whole vote handler.\<close>

lemma vote_books:
  assumes b: "books base g" and run: "ledger_vote t g = (Inr (), g')"
    and bs: "ballot_decode (t_data t) = Inr bs" "distinct (map c_address bs)"
  shows "books base g' \<and> (\<exists>a a'. lg_account g (t_sender t) = Inr a \<and> lg_account g' = (lg_account g)(t_sender t := Inr a') \<and>
      TRANSACTION_FEE \<le> a_balance a \<and> a_balance a' = a_balance a - TRANSACTION_FEE \<and>
      (\<forall>k. om_find (a_candidates a') k = ballot_map bs k) \<and>
      (ballot_small bs \<longrightarrow> unat (a_votes a') * 1000000 \<le> unat (a_balance a')))"
proof -
  obtain g1 g2 where r: "ledger_clearVote (t_sender t) g = (Inr (), g1)"
    "ledger_burn (t_sender t) TRANSACTION_FEE g1 = (Inr (), g2)"
    "forX bs (\<lambda>c. ledger_voteIncrease (t_sender t) (c_address c) (c_value c)) g2 = (Inr (), g')"
    using run bs(1) by (auto simp: ledger_vote_def dest!: thenX_success)
  obtain a where a: "books base g1" "lg_account g (t_sender t) = Inr a"
    "lg_account g1 = (lg_account g)(t_sender t := Inr (account_clearVote a))"
    using clearVote_books [OF b r(1)] by (auto simp: fun_eq_iff)
  let ?a = "account_setBalance (a_balance a - TRANSACTION_FEE) (account_clearVote a)"
  have a2: "books base g2" "TRANSACTION_FEE \<le> a_balance a" "lg_account g2 = (lg_account g)(t_sender t := Inr ?a)"
    using burn_books [OF a(1) r(2)] a(3) by auto
  have "lg_account g2 (t_sender t) = Inr ?a" "\<forall>c \<in> set bs. om_find (a_candidates ?a) (c_address c) = None"
    using a2(3) by simp_all
  from ballot_books [OF a2(1) r(3) this bs(2)] obtain a' where a': "books base g'"
    "lg_account g' = (lg_account g2)(t_sender t := Inr a')" "a_balance a' = a_balance ?a"
    "\<forall>k. om_find (a_candidates a') k = (case ballot_map bs k of Some n \<Rightarrow> Some n | None \<Rightarrow> om_find (a_candidates ?a) k)"
    "ballot_small bs \<longrightarrow> unat (a_votes ?a) * 1000000 \<le> unat (a_balance ?a) \<longrightarrow>
         unat (a_votes a') * 1000000 \<le> unat (a_balance ?a)"
    by (elim conjE exE)
  have "\<forall>k. om_find (a_candidates a') k = ballot_map bs k" using a'(4) by (simp split: option.splits)
  then show ?thesis using a' a(2) a2 by (intro conjI exI [of _ a] exI [of _ a']) simp_all
qed

definition fair_ballot :: "transaction \<Rightarrow> bool" where
  "fair_ballot t \<longleftrightarrow> (t_type t = VoteType \<longrightarrow>
     (case ballot_decode (t_data t) of Inl _ \<Rightarrow> True | Inr bs \<Rightarrow> distinct (map c_address bs)))"

lemma beenProducer_books:
  assumes b: "books base g" and run: "ledger_beenProducer t ts g = (Inr (), g')" and ex: "executable ts t"
  shows "books base g'"
proof -
  obtain h where h: "ledger_burn (t_sender t) TRANSACTION_FEE g = (Inr (), h)"
    "bindX (ledger_getProducer (t_sender t)) (\<lambda>target. if isEmptyProducer target
       then thenX (ledger_burn (t_sender t) PRODUCER_COST) (ledger_putProducer (new_producer (t_sender t) ts))
       else returnX ()) h = (Inr (), g')"
    using run by (auto simp: ledger_beenProducer_def dest!: thenX_success)
  have bh: "books base h" using burn_books [OF b h(1)] by simp
  obtain p where p: "lg_producer h (t_sender t) = Inr p"
    using h(2) by (cases "lg_producer h (t_sender t)") (simp_all add: bindX_run ledger_getProducer_def)
  show ?thesis
  proof (cases "isEmptyProducer p")
    case True
    then obtain i where i: "ledger_burn (t_sender t) PRODUCER_COST h = (Inr (), i)"
      "g' = i\<lparr>lg_producer := (lg_producer i)(t_sender t := Inr (new_producer (t_sender t) ts))\<rparr>"
      using h(2) p by (auto simp: bindX_run ledger_getProducer_def ledger_putProducer_def new_producer_def dest!: thenX_success)
    have "lg_producer i = lg_producer h"
    proof -
      obtain a where "lg_account h (t_sender t) = Inr a" using burn_books [OF bh i(1)] by auto
      from ledger_burn_run [OF booksD(1) [OF bh] this, of PRODUCER_COST] show ?thesis
        using i(1) by (auto simp: with_balance_def split: if_splits)
    qed
    then show ?thesis
      using register_books [of base i "t_sender t" p ts] burn_books [OF bh i(1)] p True ex i(2)
      by (simp add: executable_def)
  next
    case False
    then show ?thesis using h(2) p bh by (simp add: bindX_run ledger_getProducer_def)
  qed
qed

lemma execute_books:
  assumes b: "books base g" and run: "ledger_execute ts t g = (Inr (), g')" and ex: "executable ts t" "fair_ballot t"
  shows "books base g'"
proof -
  have r: "(if t_type t = VoteType then ledger_vote t else if t_type t = TransferType then ledger_transferTx t
     else if t_type t = BeenProducerType then ledger_beenProducer t ts else returnX ()) g = (Inr (), g')"
    using run by (auto simp: ledger_execute_def dest!: thenX_success)
  consider "t_type t = VoteType" | "t_type t = TransferType" "t_type t \<noteq> VoteType"
    | "t_type t = BeenProducerType" "t_type t \<noteq> VoteType" "t_type t \<noteq> TransferType"
    | "t_type t \<noteq> VoteType" "t_type t \<noteq> TransferType" "t_type t \<noteq> BeenProducerType" by blast
  then show ?thesis
  proof cases
    case 1
    then have v: "ledger_vote t g = (Inr (), g')" using r by simp
    then obtain bs where "ballot_decode (t_data t) = Inr bs"
      by (cases "ballot_decode (t_data t)") (auto simp: ledger_vote_def dest!: thenX_success)
    then show ?thesis using vote_books [OF b v] ex(2) 1 by (simp add: fair_ballot_def)
  next
    case 2
    then have "ledger_transferTx t g = (Inr (), g')" using r by simp
    then obtain h where "ledger_burn (t_sender t) TRANSACTION_FEE g = (Inr (), h)"
      "ledger_transfer (t_sender t) (t_recipient t) (t_value t) h = (Inr (), g')"
      by (auto simp: ledger_transferTx_def dest!: thenX_success)
    then show ?thesis using burn_books [OF b] transfer_books by blast
  next
    case 3
    then show ?thesis using r beenProducer_books [OF b _ ex(1)] by simp
  next
    case 4
    then show ?thesis using r b by simp
  qed
qed

lemma executes_books:
  assumes "books base g" "forX ts (ledger_execute n) g = (Inr (), g')" "\<forall>t \<in> set ts. executable n t \<and> fair_ballot t"
  shows "books base g'"
  using assms
proof (induction ts arbitrary: g)
  case (Cons t ts)
  then obtain h where "ledger_execute n t g = (Inr (), h)" "forX ts (ledger_execute n) h = (Inr (), g')"
    by (auto dest!: thenX_success)
  then show ?case using Cons execute_books [of base g n t h] by simp
qed simp

section \<open>Properties\<close>



lemma voteIncrease_free:
  assumes "repo_inv r" "lg_account (abs_repo r) v = Inr a" "\<not> isEmptyAccount a" "a_votes a = 0"
    "lg_producer (abs_repo r) c = Inr p" "\<not> isEmptyProducer p" "n * VOTE_UNIT = 0"
  shows "\<exists>r' p'. voteIncrease v c n r = (Inr (), r') \<and> lg_producer (abs_repo r') c = Inr p' \<and>
    p_votes p' = p_votes p + n \<and> bal r' v = bal r v"
proof -
  obtain res r' where run: "voteIncrease v c n r = (res, r')" by (cases "voteIncrease v c n r")
  have addr: "a_address a = v" "p_address p = c"
    using ledger_okD [OF ledger_ok_abs [OF assms(1)] assms(2,3)] producer_view_found [OF assms(1,5)] assms(6)
    by (simp_all add: producer_found_def)
  have "res = Inr ()" "abs_repo r' = (abs_repo r)\<lparr>lg_account := (lg_account (abs_repo r))(v := Inr (account_addVoter c n a)),
      lg_producer := (lg_producer (abs_repo r))(c := Inr (producer_addVoter v n p))\<rparr>"
    using led.simD [OF sim_voteIncrease assms(1) run] assms(2-7) addr
    by (simp_all add: ledger_voteIncrease_def ledger_getAccount_def ledger_getProducer_def ledger_putAccount_def
        ledger_putProducer_def bindX_run thenX_run)
  then show ?thesis using run assms(2) by (simp add: producer_addVoter_def bal_def)
qed

text \<open>C31. The balance check of \<open>voteIncrease\<close> multiplies in 64 bits. A vote of \<open>2 ^ 58\<close> costs \<open>2 ^ 58 * 1000000\<close>,
  which is a multiple of \<open>2 ^ 64\<close>: an account without votes can cast it whatever its balance.\<close>

theorem vote_overflow:
  assumes "repo_inv r" and "lg_account (abs_repo r) v = Inr a" and "\<not> isEmptyAccount a" and "a_votes a = 0"
    and "lg_producer (abs_repo r) c = Inr p" and "\<not> isEmptyProducer p"
  shows "\<exists>r' p'. voteIncrease v c (2 ^ 58) r = (Inr (), r') \<and> lg_producer (abs_repo r') c = Inr p' \<and>
    p_votes p' = p_votes p + 2 ^ 58 \<and> bal r' v = bal r v"
  by (rule voteIncrease_free [OF assms]) (simp add: VOTE_UNIT_def)


section \<open>The properties on a repository\<close>

definition sample_ballot :: ballot where
  "sample_ballot = [\<lparr>c_address = 7, c_value = 100\<rparr>]"

definition sample_vote :: transaction where
  "sample_vote = EmptyTransaction\<lparr>t_type := VoteType, t_sender := 1, t_data := ballot_rlp sample_ballot\<rparr>"

lemma sample_decode: "ballot_decode (t_data sample_vote) = Inr sample_ballot"
proof -
  have "length (ballot_rlp sample_ballot) \<le> 32"
    using candidate_length [of "\<lparr>c_address = 7, c_value = 100\<rparr>"]
      rlp_list_le [of "candidate_rlp \<lparr>c_address = 7, c_value = 100\<rparr>"]
    by (simp add: ballot_rlp_def sample_ballot_def)
  then have "ballot_ok sample_ballot" by (simp add: ballot_ok_def sample_ballot_def rlp_max_def)
  then show ?thesis by (simp add: sample_vote_def ballot_decode_rlp)
qed

lemma sample_ledger:
  "lg_account (abs_repo sample_repo) k = Inr (if k = 1 then new_account 1 3000000000 5
     else if k = 2 then new_account 2 40 5 else EmptyAccount)"
  "lg_producer (abs_repo sample_repo) k = Inr (if k = 7 then new_producer 7 5 else EmptyProducer)"
  unfolding abs_repo_def ac.view_def ac.db_value_def pc.view_def pc.db_value_def ledger.simps
  by (simp_all add: sample_repo_def om_find_def db_getAccount_def db_getProducer_def empty_db_def
      account_assign_def EmptyAccount_def)

lemma sample_books: "books (\<lambda>_. 0) (abs_repo sample_repo)"
  unfolding books_def mirrored_def accounts_tallied_def producers_tallied_def sample_ledger
  using ledger_ok_abs [OF sample_inv]
  by (auto simp: new_account_def EmptyAccount_def new_producer_def EmptyProducer_def producer_base_def
      account_tally_def)

lemmas ledger_defs = ledger_vote_def ledger_clearVote_def ledger_burn_def ledger_voteIncrease_def
  ledger_eraseVoter_def ledger_getAccount_def ledger_putAccount_def ledger_getProducer_def ledger_putProducer_def
  bindX_run thenX_run

lemmas sample_values = new_account_def EmptyAccount_def new_producer_def EmptyProducer_def account_setBalance_def
  account_clearVote_def account_addVoter_def producer_addVoter_def isEmptyAccount_def account_eq_def
  isEmptyProducer_def producer_eq_def TRANSACTION_FEE_def VOTE_UNIT_def

lemma sample_vote_runs: "vote_execute sample_vote sample_repo = (Inr (), snd (vote_execute sample_vote sample_repo))"
proof -
  have "fst (ledger_vote sample_vote (abs_repo sample_repo)) = Inr ()"
    unfolding ledger_vote_def sample_decode
    by (simp add: sample_vote_def sample_ballot_def EmptyTransaction_def ledger_defs sample_ledger sample_values)
  then show ?thesis
    using led.simD [OF sim_vote sample_inv] by (cases "vote_execute sample_vote sample_repo") auto
qed


definition vote_block :: block where
  "vote_block = EmptyBlock\<lparr>b_transactions := [sample_vote]\<rparr>"

lemma vote_block_runs: "correlator_run vote_block sample_repo = (Inr (), snd (correlator_run vote_block sample_repo))"
  using sample_vote_runs
  by (auto simp: correlator_run_def vote_block_def runtime_excute_def factory_execute_def actionFactory_def
      handler_execute_def sample_vote_def putTransaction_def on_head_def thenX_run split: prod.splits)


theorem vote_overflow_witness:
  "\<exists>r' p'. voteIncrease 1 7 (2 ^ 58) sample_repo = (Inr (), r') \<and> lg_producer (abs_repo r') 7 = Inr p' \<and>
    p_votes p' = p_votes (new_producer 7 5) + 2 ^ 58 \<and> bal r' 1 = bal sample_repo 1"
  by (rule vote_overflow [OF sample_inv sample_accounts(1) _ _ sample_producer])
    (simp_all add: sample_values)


end
