(* ===== verification/Sizes.thy ===== *)
theory Sizes
  imports BlockCodecs
begin

text \<open>
  How long the encodings are. An item is at most nine bytes longer than its content, so an object whose
  variable parts are short is far below the bound the codec theorems need.
\<close>

lemma header_size: "n < 2 ^ 60 \<Longrightarrow> length (rlp_header s l n) \<le> 9"
  using bytesRequired_le [of n 8] by (simp add: rlp_header_def)

lemma str_size: "length bs < 2 ^ 60 \<Longrightarrow> length (rlp_str bs) \<le> length bs + 9"
  using header_size [of "length bs"] by (simp add: rlp_str_def)

lemma list_size: "length p < 2 ^ 60 \<Longrightarrow> length (rlp_list p) \<le> length p + 9"
  using header_size [of "length p"] by (simp add: rlp_list_def)

lemma int_size:
  assumes "n < 256 ^ k" "k < 2 ^ 60"
  shows "length (rlp_int n) \<le> k + 9"
  using str_size [of "toBigEndian (bytesRequired n) n"] bytesRequired_le [OF assms(1)] assms(2)
  by (simp add: rlp_int_def split: if_splits)

lemma word_sizes:
  "length (rlp_word (w32 :: u32)) \<le> 13" "length (rlp_word (w64 :: u64)) \<le> 17" "length (rlp_word (w256 :: h256)) \<le> 41"
  "k < 2 ^ 60 \<Longrightarrow> length (rlp_hash k (w :: 'a :: len word)) \<le> k + 9"
proof -
  show "length (rlp_word w32) \<le> 13" using int_size [of "unat w32" 4] unsigned_less [of w32] by (simp add: rlp_word_def)
  show "length (rlp_word w64) \<le> 17" using int_size [of "unat w64" 8] unsigned_less [of w64] by (simp add: rlp_word_def)
  show "length (rlp_word w256) \<le> 41" using int_size [of "unat w256" 32] unsigned_less [of w256] by (simp add: rlp_word_def)
  show "k < 2 ^ 60 \<Longrightarrow> length (rlp_hash k w) \<le> k + 9" using str_size [of "toBigEndian k (unat w)"] by (simp add: rlp_hash_def)
qed

lemma timestamp_size: "timestamp_ok t \<Longrightarrow> length (rlp_int (nat t)) \<le> 17"
  using int_size [of "nat t" 8] by (simp add: timestamp_ok_def nat_less_iff)

lemma votes_size: "length (concat (votes_items m)) \<le> 46 * length m"
proof (induction m)
  case (Cons e m)
  obtain k v where e: "e = (k, v)" by (cases e)
  have "length (rlp_hash 20 k) \<le> 29" "length (rlp_word v) \<le> 17" using word_sizes(4) [of 20 k] word_sizes(2) by simp_all
  then show ?case using Cons by (simp add: votes_items_def e)
qed (simp add: votes_items_def)

lemma hashes_size: "length (concat (map (rlp_hash 20) (as :: address list))) \<le> 29 * length as"
proof (induction as)
  case (Cons a as)
  then show ?case using word_sizes(4) [of 20 a] by simp
qed simp

text \<open>Objects whose variable parts fit a gigabyte can be encoded and read back.\<close>

lemma account_ok_small:
  assumes "om_inv (a_candidates a)" "timestamp_ok (a_timestamp a)" "unat (a_balance a) < 2 ^ 63" "unat (a_votes a) < 2 ^ 63"
    "\<forall>(k, v) \<in> set (a_candidates a). unat v < 2 ^ 63"
    "length (a_code a) < 2 ^ 30" "length (a_candidates a) < 2 ^ 30" "length (a_contractAddresses a) < 2 ^ 30"
  shows "account_ok a"
proof -
  have "length (rlp_str (a_code a)) \<le> length (a_code a) + 9" using assms(6) by (intro str_size) simp
  moreover have "length (rlp_list (concat (votes_items (a_candidates a)))) \<le> length (concat (votes_items (a_candidates a))) + 9"
    using assms(7) votes_size [of "a_candidates a"] by (intro list_size) simp
  moreover have "length (rlp_list (concat (map (rlp_hash 20) (a_contractAddresses a)))) \<le>
      length (concat (map (rlp_hash 20) (a_contractAddresses a))) + 9"
    using assms(8) hashes_size [of "a_contractAddresses a"] by (intro list_size) simp
  ultimately have "length (concat (account_items a)) < 2 ^ 40"
    using assms(6-8) votes_size [of "a_candidates a"] hashes_size [of "a_contractAddresses a"] timestamp_size [OF assms(2)]
      word_sizes(1) [of "a_type a"] word_sizes(1) [of "if a_alive a then 1 else 0"] word_sizes(2) [of "a_balance a"]
      word_sizes(2) [of "a_votes a"] word_sizes(4) [of 20 "a_address a"]
    by (simp add: account_items_def)
  then have "length (account_rlp a) < rlp_max"
    using list_size [of "concat (account_items a)"] by (simp add: account_rlp_def rlp_max_def)
  then show ?thesis using assms(1-5) by (simp add: account_ok_def)
qed

lemma producer_ok_small:
  assumes "om_inv (p_voters p)" "timestamp_ok (p_timestamp p)" "length (p_voters p) < 2 ^ 30"
  shows "producer_ok p"
proof -
  have "length (rlp_list (concat (votes_items (p_voters p)))) \<le> length (concat (votes_items (p_voters p))) + 9"
    using assms(3) votes_size [of "p_voters p"] by (intro list_size) simp
  then have "length (concat (producer_items p)) < 2 ^ 40"
    using assms(3) votes_size [of "p_voters p"] timestamp_size [OF assms(2)] word_sizes(2) [of "p_votes p"]
      word_sizes(4) [of 20 "p_address p"]
    by (simp add: producer_items_def)
  then have "length (producer_rlp p) < rlp_max"
    using list_size [of "concat (producer_items p)"] by (simp add: producer_rlp_def rlp_max_def)
  then show ?thesis using assms by (simp add: producer_ok_def)
qed

lemma header_size_small:
  assumes "timestamp_ok (h_timestamp h)" "length (h_extra h) < 2 ^ 30"
  shows "length (header_rlp h) < 2 ^ 31"
proof -
  have "length (rlp_str (h_extra h)) \<le> length (h_extra h) + 9" using assms(2) by (intro str_size) simp
  then have "length (concat (header_items h)) < 2 ^ 30 + 500"
    using assms(2) timestamp_size [OF assms(1)] word_sizes(2) [of "h_chainID h"] word_sizes(4) [of 20 "h_producer h"]
      word_sizes(4) [of 32 "h_parentHash h"] word_sizes(4) [of 32 "h_mklRoot h"] word_sizes(4) [of 32 "h_transactionsRoot h"]
      word_sizes(4) [of 32 "h_receiptRoot h"] word_sizes(2) [of "h_number h"] word_sizes(3) [of "sig_r (h_signature h)"]
      word_sizes(3) [of "sig_s (h_signature h)"] word_sizes(1) [of "ucast (sig_v (h_signature h))"]
    by (simp add: header_items_def header_content_items_def)
  then show ?thesis using list_size [of "concat (header_items h)"] by (simp add: header_rlp_def)
qed

lemma block_ok_small:
  assumes "timestamp_ok (h_timestamp (b_header b))" "length (h_extra (b_header b)) < 2 ^ 30"
    "unat (h_number (b_header b)) < 2 ^ 63" "list_all transaction_ok (b_transactions b)" "list_all receipt_ok (b_receipts b)"
    "length (concat (map transaction_rlp (b_transactions b))) < 2 ^ 40" "length (concat (map receipt_rlp (b_receipts b))) < 2 ^ 40"
  shows "block_ok b"
proof -
  note h = header_size_small [OF assms(1,2)]
  have "length (concat (block_items b)) < 2 ^ 50"
    using h list_size [of "concat (map transaction_rlp (b_transactions b))"] list_size [of "concat (map receipt_rlp (b_receipts b))"]
      assms(6,7) by (simp add: block_items_def)
  then have "length (block_rlp b) < rlp_max"
    using list_size [of "concat (block_items b)"] by (simp add: block_rlp_def rlp_max_def)
  moreover have "header_ok (b_header b)" using assms(1,3) h by (simp add: header_ok_def rlp_max_def)
  ultimately show ?thesis using assms(4,5) by (simp add: block_ok_def)
qed

lemma transaction_ok_small:
  assumes "timestamp_ok (t_timestamp t)" "length (t_data t) < 2 ^ 30"
  shows "transaction_ok t"
proof -
  have "length (rlp_str (t_data t)) \<le> length (t_data t) + 9" using assms(2) by (intro str_size) simp
  moreover have "length (rlp_str (sig_bytes (t_signature t))) \<le> 74" using str_size [of "sig_bytes (t_signature t)"] by simp
  ultimately have "length (concat (transaction_items t)) < 2 ^ 30 + 500"
    using assms(2) timestamp_size [OF assms(1)] word_sizes(2) [of "t_chainID t"] word_sizes(1) [of "t_type t"]
      word_sizes(4) [of 20 "t_sender t"] word_sizes(4) [of 20 "t_recipient t"] word_sizes(2) [of "t_value t"]
    by (simp add: transaction_items_def transaction_content_items_def)
  then have "length (transaction_rlp t) < rlp_max"
    using list_size [of "concat (transaction_items t)"] by (simp add: transaction_rlp_def rlp_max_def)
  then show ?thesis using assms(1) by (simp add: transaction_ok_def)
qed

end
