(* ===== verification/Commit.thy ===== *)
theory Commit
  imports Balances Sizes
begin

text \<open>
  \<open>Repository::commit\<close>. A repository with a parent writes its caches into the parent's; the root of the
  chain writes them to the database. Either way the ledger another reader sees afterwards is the one
  the committed repository showed, up to what the account codec keeps.
\<close>

section \<open>Writing a whole cache into a layer\<close>

context layer_cache begin

lemma store_all:
  assumes "linv l" "\<forall>v \<in> set vs. good v" "distinct (map key vs)"
  shows "linv (fold store vs l) \<and> frame (fold store vs l) = frame l \<and>
    cached k (fold store vs l) = (case map_of (map (\<lambda>v. (key v, v)) vs) k of Some v \<Rightarrow> Some v | None \<Rightarrow> cached k l)"
  using assms
proof (induction vs arbitrary: l)
  case (Cons v vs)
  have v: "linv (store v l)" "good v" using Cons.prems linv_store by auto
  have "key v = k \<Longrightarrow> map_of (map (\<lambda>v. (key v, v)) vs) k = None"
    using Cons.prems(3) by (auto simp: map_of_eq_None_iff)
  then show ?case
    using Cons.IH [OF v(1)] Cons.prems frame_store [of v l] cached_store [OF Cons.prems(1) v(2), of k]
    by (auto split: option.splits)
qed simp

end

text \<open>The keys of the cache are the keys of its values.\<close>

lemma entries_map_of:
  assumes "list_all (\<lambda>(k, v). Q k v \<and> key v = k) m"
  shows "map (\<lambda>v. (key v, v)) (map snd m) = m" "map key (map snd m) = map fst m"
  using assms by (induction m) auto

lemma accounts_all:
  assumes "accounts_inv l"
  shows "\<forall>a \<in> set (map snd (l_accounts l)). account_good a" "distinct (map a_address (map snd (l_accounts l)))"
    "map_of (map (\<lambda>a. (a_address a, a)) (map snd (l_accounts l))) k = om_find (l_accounts l) k"
proof -
  have e: "list_all (\<lambda>(k, a). account_good a \<and> a_address a = k) (l_accounts l)" using assms by (simp add: accounts_inv_def)
  show "\<forall>a \<in> set (map snd (l_accounts l)). account_good a" using e by (auto simp: list_all_iff)
  show "distinct (map a_address (map snd (l_accounts l)))"
    unfolding entries_map_of(2) [OF e] using assms om_distinct by (auto simp: accounts_inv_def)
  show "map_of (map (\<lambda>a. (a_address a, a)) (map snd (l_accounts l))) k = om_find (l_accounts l) k"
    by (simp only: entries_map_of(1) [OF e] om_find_def)
qed

lemma producers_all:
  assumes "producers_inv l"
  shows "\<forall>p \<in> set (map snd (l_producers l)). \<not> isEmptyProducer p" "distinct (map p_address (map snd (l_producers l)))"
    "map_of (map (\<lambda>p. (p_address p, p)) (map snd (l_producers l))) k = om_find (l_producers l) k"
proof -
  have e: "list_all (\<lambda>(k, p). \<not> isEmptyProducer p \<and> p_address p = k) (l_producers l)" using assms by (simp add: producers_inv_def)
  show "\<forall>p \<in> set (map snd (l_producers l)). \<not> isEmptyProducer p" using e by (auto simp: list_all_iff)
  show "distinct (map p_address (map snd (l_producers l)))"
    unfolding entries_map_of(2) [OF e] using assms om_distinct by (auto simp: producers_inv_def)
  show "map_of (map (\<lambda>p. (p_address p, p)) (map snd (l_producers l))) k = om_find (l_producers l) k"
    by (simp only: entries_map_of(1) [OF e] om_find_def)
qed

lemma transactions_all:
  assumes "transactions_inv l"
  shows "distinct (map transaction_getHash (map snd (l_transactions l)))"
    "map_of (map (\<lambda>t. (transaction_getHash t, t)) (map snd (l_transactions l))) h = om_find (l_transactions l) h"
proof -
  have e: "list_all (\<lambda>(k, t). \<not> isEmptyTransaction t \<and> transaction_getHash t = k) (l_transactions l)"
    using assms by (simp add: transactions_inv_def)
  show "distinct (map transaction_getHash (map snd (l_transactions l)))"
    unfolding entries_map_of(2) [OF e] using assms om_distinct by (auto simp: transactions_inv_def)
  show "map_of (map (\<lambda>t. (transaction_getHash t, t)) (map snd (l_transactions l))) h = om_find (l_transactions l) h"
    by (simp only: entries_map_of(1) [OF e] om_find_def)
qed

section \<open>To the parent\<close>

lemma fold_putTransaction_frame:
  "l_accounts (fold layer_putTransaction ts l) = l_accounts l \<and> l_producers (fold layer_putTransaction ts l) = l_producers l \<and>
   l_block (fold layer_putTransaction ts l) = l_block l"
  by (induction ts arbitrary: l) (simp_all add: layer_putTransaction_eq)

lemma inv_layer_cong:
  "l_accounts l = l_accounts l' \<Longrightarrow> accounts_inv l = accounts_inv l'"
  "l_producers l = l_producers l' \<Longrightarrow> producers_inv l = producers_inv l'"
  by (simp_all add: accounts_inv_def producers_inv_def)

lemma commit_layer_lookup:
  assumes l: "layer_inv l" and p: "layer_inv p"
  shows "layer_inv (commit_layer l p)" "l_block (commit_layer l p) = l_block p"
    "om_find (l_accounts (commit_layer l p)) k =
       (case om_find (l_accounts l) k of Some a \<Rightarrow> Some a | None \<Rightarrow> om_find (l_accounts p) k)"
    "om_find (l_producers (commit_layer l p)) k =
       (case om_find (l_producers l) k of Some q \<Rightarrow> Some q | None \<Rightarrow> om_find (l_producers p) k)"
proof -
  have i: "accounts_inv l" "producers_inv l" "accounts_inv p" "producers_inv p" using l p by (auto simp: layer_inv_def)
  let ?p1 = "fold layer_putAccount (map snd (l_accounts l)) p"
  let ?p2 = "fold layer_putProducer (map snd (l_producers l)) ?p1"
  note s1 = ac.store_all [OF i(3) accounts_all(1,2) [OF i(1)], unfolded accounts_all(3) [OF i(1)]]
  have i1: "producers_inv ?p1" using s1 i(4) inv_layer_cong(2) [of ?p1 p] by simp
  note s2 = pc.store_all [OF i1 producers_all(1,2) [OF i(2)], unfolded producers_all(3) [OF i(2)]]
  have c: "commit_layer l p = fold layer_putTransaction (map snd (l_transactions l)) ?p2" by (simp add: commit_layer_def)
  note f = fold_putTransaction_frame [of "map snd (l_transactions l)" ?p2, folded c]
  have a2: "l_accounts ?p2 = l_accounts ?p1" "l_block ?p2 = l_block ?p1" "l_producers ?p1 = l_producers p" "l_block ?p1 = l_block p"
    using s1 s2 by simp_all
  show "layer_inv (commit_layer l p)"
    using s1 s2 f a2 inv_layer_cong(1) [of "commit_layer l p" ?p1] inv_layer_cong(2) [of "commit_layer l p" ?p2]
    by (simp add: layer_inv_def)
  show "l_block (commit_layer l p) = l_block p" using f a2 by simp
  show "om_find (l_accounts (commit_layer l p)) k =
       (case om_find (l_accounts l) k of Some a \<Rightarrow> Some a | None \<Rightarrow> om_find (l_accounts p) k)"
    using s1 [of k] f a2 by simp
  show "om_find (l_producers (commit_layer l p)) k =
       (case om_find (l_producers l) k of Some q \<Rightarrow> Some q | None \<Rightarrow> om_find (l_producers p) k)"
    using s2 [of k] f a2 by (simp split: option.splits)
qed

text \<open>The repository without its innermost layer: what the parent, or a sibling opened on it, sees.\<close>

definition parent_of :: "repo \<Rightarrow> repo" where
  "parent_of r = r\<lparr>r_layers := tl (r_layers r)\<rparr>"

text \<open>C13. Committing a repository to its parent succeeds; afterwards the parent shows exactly the accounts and
  producers the repository showed, and the repository itself still shows the same ledger. The invariant
  holds for both.\<close>

theorem commit_parent:
  assumes "repo_inv r" and "2 \<le> length (r_layers r)"
  shows "fst (commit r) = Inr () \<and>
    (let r' = snd (commit r) in repo_inv r' \<and> repo_inv (parent_of r') \<and> abs_repo r' = abs_repo r \<and>
      lg_account (abs_repo (parent_of r')) = lg_account (abs_repo r) \<and>
      lg_producer (abs_repo (parent_of r')) = lg_producer (abs_repo r) \<and>
      lg_timestamp (abs_repo (parent_of r')) = lg_timestamp (abs_repo (parent_of r)))"
proof -
  obtain l p ps where ls: "r_layers r = l # p # ps"
    using assms(2) by (cases "r_layers r"; cases "tl (r_layers r)") auto
  have i: "layer_inv l" "layer_inv p" using assms(1) ls by (simp_all add: repo_inv_def)
  note c = commit_layer_lookup [OF i]
  let ?r' = "r\<lparr>r_layers := l # commit_layer l p # ps\<rparr>"
  have run: "commit r = (Inr (), ?r')" by (simp add: commit_def ls)
  have va: "ac.view db (commit_layer l p # ps) k = ac.view db (l # p # ps) k" for db k
    by (simp add: ac.view_Cons c(3) split: option.splits)
  have vp: "pc.view db (commit_layer l p # ps) k = pc.view db (l # p # ps) k" for db k
    by (simp add: pc.view_Cons c(4) split: option.splits)
  have va': "ac.view db (l # commit_layer l p # ps) = ac.view db (l # p # ps)" for db
    by (rule ext) (simp add: ac.view_Cons c(3) split: option.splits)
  have vp': "pc.view db (l # commit_layer l p # ps) = pc.view db (l # p # ps)" for db
    by (rule ext) (simp add: pc.view_Cons c(4) split: option.splits)
  have "abs_repo ?r' = abs_repo r" by (simp add: abs_repo_def ls va' vp')
  moreover have "lg_account (abs_repo (parent_of ?r')) = lg_account (abs_repo r)"
    "lg_producer (abs_repo (parent_of ?r')) = lg_producer (abs_repo r)"
    "lg_timestamp (abs_repo (parent_of ?r')) = lg_timestamp (abs_repo (parent_of r))"
    by (simp_all add: abs_repo_def parent_of_def ls va vp c(2) fun_eq_iff)
  moreover have "repo_inv ?r'" "repo_inv (parent_of ?r')"
    using assms(1) c(1) by (simp_all add: repo_inv_def parent_of_def ls)
  ultimately show ?thesis using run by simp
qed

theorem commit_parent_witness:
  "lg_account (abs_repo (parent_of (snd (commit (sample_repo\<lparr>r_layers := new_layer EmptyBlock # r_layers sample_repo\<rparr>)))))
    = lg_account (abs_repo (sample_repo\<lparr>r_layers := new_layer EmptyBlock # r_layers sample_repo\<rparr>))"
proof -
  let ?r = "sample_repo\<lparr>r_layers := new_layer EmptyBlock # r_layers sample_repo\<rparr>"
  have "repo_inv ?r" "2 \<le> length (r_layers ?r)"
    using sample_inv
    by (simp_all add: repo_inv_def layer_inv_def accounts_inv_def producers_inv_def new_layer_def)
      (simp add: sample_repo_def)
  from commit_parent [OF this] show ?thesis by (simp add: Let_def)
qed

section \<open>To the database\<close>

lemma put_frames:
  "d_producers (snd (db_putAccount a db)) = d_producers db" "d_transactions (snd (db_putAccount a db)) = d_transactions db"
  "d_accounts (snd (db_putProducer p db)) = d_accounts db" "d_transactions (snd (db_putProducer p db)) = d_transactions db"
  "d_accounts (snd (db_putTransaction t db)) = d_accounts db" "d_producers (snd (db_putTransaction t db)) = d_producers db"
  "d_accounts (snd (db_putBlock b db)) = d_accounts db" "d_producers (snd (db_putBlock b db)) = d_producers db"
  "d_transactions (snd (db_putBlock b db)) = d_transactions db"
  by (simp_all add: db_putAccount_def db_putProducer_def db_putTransaction_def db_putBlock_def store_put_def thenX_run
      split: sum.splits)

lemma for_frame:
  assumes "\<And>x db. F (snd (put x db)) = F db"
  shows "F (snd (forX xs put db)) = F db"
proof -
  have "preserves (\<lambda>s. F s = F db) (forX xs put)"
    by (intro preserves_intros preservesI) (simp add: assms)
  then show ?thesis by (simp add: preserves_def)
qed

lemma get_cong:
  "d_accounts db = d_accounts db' \<Longrightarrow> db_getAccount k db = db_getAccount k db'"
  "d_producers db = d_producers db' \<Longrightarrow> db_getProducer k db = db_getProducer k db'"
  "d_transactions db = d_transactions db' \<Longrightarrow> db_getTransaction h db = db_getTransaction h db'"
  by (simp_all add: db_getAccount_def db_getProducer_def db_getTransaction_def)

text \<open>What the codecs can write: the objects of the caches and the block.\<close>

definition storable :: "layer \<Rightarrow> bool" where
  "storable l \<longleftrightarrow> (\<forall>a \<in> snd ` set (l_accounts l). account_ok a) \<and> (\<forall>p \<in> snd ` set (l_producers l). producer_ok p) \<and>
     (\<forall>t \<in> snd ` set (l_transactions l). transaction_ok t) \<and> block_ok (l_block l)"

text \<open>The lookups after every object of a cache has been stored.\<close>

context object_store begin

lemma get_put_all_map:
  assumes "\<forall>v \<in> set vs. ok v" "distinct (map key vs)"
  shows "get k (snd (forX vs put s)) =
    (case map_of (map (\<lambda>v. (key v, v)) vs) k of Some v \<Rightarrow> Inr (norm v) | None \<Rightarrow> get k s)"
proof (cases "map_of (map (\<lambda>v. (key v, v)) vs) k")
  case None
  then have "k \<notin> key ` set vs" by (auto simp: map_of_eq_None_iff image_image)
  then show ?thesis using None get_put_all_other [OF assms(1)] by simp
next
  case (Some v)
  then have "v \<in> set vs" "key v = k" by (auto dest!: map_of_SomeD)
  then show ?thesis using Some get_put_all [OF assms, of v s] by simp
qed

end

lemma commit_db_lookup:
  assumes l: "layer_inv l" "transactions_inv l" and st: "storable l" and eq: "db' = snd (commit_db l db)"
  shows "fst (commit_db l db) = Inr ()"
    "db_getAccount k db' = (case om_find (l_accounts l) k of Some a \<Rightarrow> Inr (account_stored a) | None \<Rightarrow> db_getAccount k db)"
    "db_getProducer k db' = (case om_find (l_producers l) k of Some p \<Rightarrow> Inr p | None \<Rightarrow> db_getProducer k db)"
    "db_getTransaction h db' = (case om_find (l_transactions l) h of Some t \<Rightarrow> Inr t | None \<Rightarrow> db_getTransaction h db)"
    "db_getBlock h0 (block_getHash (l_block l)) db' = Inr (block_stored (l_block l))"
    "db_getBlockByNumber h0 (block_number (l_block l)) db' = Inr (block_stored (l_block l))"
proof -
  let ?as = "map snd (l_accounts l)" and ?ps = "map snd (l_producers l)" and ?ts = "map snd (l_transactions l)"
  have ok: "\<forall>a \<in> set ?as. account_ok a" "\<forall>p \<in> set ?ps. producer_ok p" "\<forall>t \<in> set ?ts. transaction_ok t"
    "block_ok (l_block l)"
    using st by (auto simp: storable_def)
  have i: "accounts_inv l" "producers_inv l" using l by (auto simp: layer_inv_def)
  obtain d1 where d1: "forX ?as db_putAccount db = (Inr (), d1)"
    using account_store.put_all_ok [OF ok(1), of db] by (cases "forX ?as db_putAccount db") auto
  obtain d2 where d2: "forX ?ps db_putProducer d1 = (Inr (), d2)"
    using producer_store.put_all_ok [OF ok(2), of d1] by (cases "forX ?ps db_putProducer d1") auto
  obtain d3 where d3: "forX ?ts db_putTransaction d2 = (Inr (), d3)"
    using transaction_store.put_all_ok [OF ok(3), of d2] by (cases "forX ?ts db_putTransaction d2") auto
  obtain d4 where d4: "db_putBlock (l_block l) d3 = (Inr (), d4)"
    using block_store.put_ok [OF ok(4), of d3] by (cases "db_putBlock (l_block l) d3") auto
  have run: "commit_db l db = (Inr (), d4)" using d1 d2 d3 d4 by (simp add: commit_db_def thenX_run)
  then have db': "db' = d4" by (simp add: eq)
  show "fst (commit_db l db) = Inr ()" using run by simp
  have fa: "d_accounts d4 = d_accounts d1"
    using for_frame [of d_accounts db_putProducer, OF put_frames(3), of ?ps d1]
      for_frame [of d_accounts db_putTransaction, OF put_frames(5), of ?ts d2] put_frames(7) [of "l_block l" d3] d2 d3 d4
    by simp
  have fp: "d_producers d4 = d_producers d2" "d_producers d1 = d_producers db"
    using for_frame [of d_producers db_putAccount, OF put_frames(1), of ?as db]
      for_frame [of d_producers db_putTransaction, OF put_frames(6), of ?ts d2] put_frames(8) [of "l_block l" d3] d1 d3 d4
    by simp_all
  have ft: "d_transactions d4 = d_transactions d3" "d_transactions d2 = d_transactions db"
    using for_frame [of d_transactions db_putAccount, OF put_frames(2), of ?as db]
      for_frame [of d_transactions db_putProducer, OF put_frames(4), of ?ps d1] put_frames(9) [of "l_block l" d3] d1 d2 d4
    by simp_all
  have ga: "db_getAccount k db' = db_getAccount k d1" using get_cong(1) [OF fa] by (simp add: db')
  show "db_getAccount k db' = (case om_find (l_accounts l) k of Some a \<Rightarrow> Inr (account_stored a) | None \<Rightarrow> db_getAccount k db)"
    using account_store.get_put_all_map [OF ok(1) accounts_all(2) [OF i(1)], of k db] ga d1
    by (simp only: accounts_all(3) [OF i(1)] snd_conv)
  have gp: "db_getProducer k db' = db_getProducer k d2" using get_cong(2) [OF fp(1)] by (simp add: db')
  show "db_getProducer k db' = (case om_find (l_producers l) k of Some p \<Rightarrow> Inr p | None \<Rightarrow> db_getProducer k db)"
    using producer_store.get_put_all_map [OF ok(2) producers_all(2) [OF i(2)], of k d1] gp get_cong(2) [OF fp(2), of k] d2
    by (simp only: producers_all(3) [OF i(2)] snd_conv)
  have gt: "db_getTransaction h db' = db_getTransaction h d3" using get_cong(3) [OF ft(1)] by (simp add: db')
  show "db_getTransaction h db' = (case om_find (l_transactions l) h of Some t \<Rightarrow> Inr t | None \<Rightarrow> db_getTransaction h db)"
    using transaction_store.get_put_all_map [OF ok(3) transactions_all(1) [OF l(2)], of h d2] gt get_cong(3) [OF ft(2), of h] d3
    by (simp only: transactions_all(2) [OF l(2)] snd_conv)
  show "db_getBlock h0 (block_getHash (l_block l)) db' = Inr (block_stored (l_block l))"
    using block_store.get_put_same [OF ok(4), of h0 d3] d4 by (simp add: db')
  show "db_getBlockByNumber h0 (block_number (l_block l)) db' = Inr (block_stored (l_block l))"
    using block_index.get_put_same [OF ok(4), of h0 d3] d4 by (simp add: db')
qed

lemma stored_good: "account_good a \<Longrightarrow> account_good (account_stored a) \<and> a_address (account_stored a) = a_address a"
  by (simp add: account_good_def account_stored_def)

lemma cached_values:
  assumes "layer_inv l"
  shows "om_find (l_accounts l) k = Some a \<Longrightarrow> account_good a \<and> a_address a = k"
    "om_find (l_producers l) k = Some p \<Longrightarrow> \<not> isEmptyProducer p \<and> p_address p = k"
  using assms ac.cached_good [of l k a] pc.cached_good [of l k p] by (auto simp: layer_inv_def)

lemma commit_db_inv:
  assumes l: "layer_inv l" "transactions_inv l" "storable l" and db: "db_inv db"
  shows "db_inv (snd (commit_db l db))"
  unfolding db_inv_def ac.db_good_def pc.db_good_def
proof (intro conjI allI impI)
  note look = commit_db_lookup [OF l refl]
  fix k :: address
  {
    fix v assume v: "db_getAccount k (snd (commit_db l db)) = Inr v" "\<not> isEmptyAccount (account_assign EmptyAccount v)"
    show "account_good (account_assign EmptyAccount v)" "a_address (account_assign EmptyAccount v) = k"
    proof (atomize (full), cases "om_find (l_accounts l) k")
      case None
      then show "account_good (account_assign EmptyAccount v) \<and> a_address (account_assign EmptyAccount v) = k"
        using v db by (simp add: look(2) db_inv_def ac.db_good_def)
    next
      case (Some a)
      then have "account_good (account_stored a)" "a_address (account_stored a) = k" "v = account_stored a"
        using v cached_values(1) [OF l(1)] stored_good by (auto simp: look(2))
      then show "account_good (account_assign EmptyAccount v) \<and> a_address (account_assign EmptyAccount v) = k"
        by (simp add: ac.copy_good)
    qed
  }
  fix p assume p: "db_getProducer k (snd (commit_db l db)) = Inr p" "\<not> isEmptyProducer p"
  show "p_address p = k"
  proof (cases "om_find (l_producers l) k")
    case None
    then have "db_getProducer k db = Inr p" using p by (simp add: look(3))
    then show ?thesis using p(2) db unfolding db_inv_def pc.db_good_def by simp
  next
    case (Some q)
    then show ?thesis using p cached_values(2) [OF l(1)] by (simp add: look(3))
  qed
qed

text \<open>The repository a reader opens on the database after a commit.\<close>

definition reopened :: "block \<Rightarrow> repo \<Rightarrow> repo" where
  "reopened b r = r\<lparr>r_layers := [new_layer b]\<rparr>"

text \<open>C12. Committing the last repository of the chain to the database succeeds when its objects fit the codec.
  A repository opened on the database afterwards shows the same producers and the same accounts, except
  that an account written comes back with the encoding of its code instead of the code; balances are
  the same. The block is found by hash and by number.\<close>

theorem commit_database:
  assumes "repo_inv r" and "r_layers r = [l]" and "transactions_inv l" and "storable l"
    and "re = reopened b (snd (commit r))"
  shows "fst (commit r) = Inr () \<and> repo_inv re \<and> lg_producer (abs_repo re) = lg_producer (abs_repo r) \<and> bal re = bal r \<and>
    (\<forall>k. lg_account (abs_repo re) k =
      (case om_find (l_accounts l) k of Some a \<Rightarrow> Inr (a\<lparr>a_code := rlp_str (a_code a)\<rparr>) | None \<Rightarrow> lg_account (abs_repo r) k)) \<and>
    db_getBlock h0 (block_getHash (l_block l)) (r_db re) = Inr (block_stored (l_block l)) \<and>
    db_getBlockByNumber h0 (block_number (l_block l)) (r_db re) = Inr (block_stored (l_block l))"
proof -
  have l: "layer_inv l" and db: "db_inv (r_db r)" using assms(1,2) by (simp_all add: repo_inv_def)
  note look = commit_db_lookup [OF l assms(3,4) refl]
  let ?db' = "snd (commit_db l (r_db r))"
  have run: "commit r = (Inr (), r\<lparr>r_db := ?db'\<rparr>)"
    using look(1) [of "r_db r"] by (cases "commit_db l (r_db r)") (simp add: commit_def assms(2) on_db_def)
  have re: "re = \<lparr>r_layers = [new_layer b], r_db = ?db'\<rparr>" by (simp add: assms(5) reopened_def run)
  have acc: "lg_account (abs_repo re) k = (case om_find (l_accounts l) k of Some a \<Rightarrow> Inr (account_stored a)
      | None \<Rightarrow> lg_account (abs_repo r) k)" for k
  proof (cases "om_find (l_accounts l) k")
    case None
    then show ?thesis
      unfolding abs_repo_def ledger.simps ac.view_def ac.db_value_def
      by (simp add: re look(2) assms(2) new_layer_def)
  next
    case (Some a)
    then have "account_good (account_stored a)" using cached_values(1) [OF l] stored_good by blast
    then have "account_assign EmptyAccount (account_stored a) = account_stored a" "\<not> isEmptyAccount (account_stored a)"
      using ac.copy_good account_good_not_empty by auto
    then show ?thesis using Some
      unfolding abs_repo_def ledger.simps ac.view_def ac.db_value_def
      by (simp add: re look(2) new_layer_def)
  qed
  have pro: "lg_producer (abs_repo re) k = lg_producer (abs_repo r) k" for k
    using cached_values(2) [OF l, of k]
    unfolding abs_repo_def ledger.simps pc.view_def pc.db_value_def
    by (auto simp: re look(3) assms(2) new_layer_def split: option.splits)
  have "bal re k = bal r k" for k
  proof (cases "om_find (l_accounts l) k")
    case (Some a)
    then have "lg_account (abs_repo r) k = Inr a"
      unfolding abs_repo_def ledger.simps ac.view_def by (simp add: assms(2))
    then show ?thesis using Some by (simp add: bal_def acc account_stored_def)
  qed (simp add: bal_def acc)
  moreover have "repo_inv re"
    using commit_db_inv [OF l assms(3,4) db]
    by (simp add: re repo_inv_def layer_inv_def accounts_inv_def producers_inv_def new_layer_def)
  ultimately show ?thesis
    using run acc [unfolded account_stored_def] pro look(5,6) by (simp add: fun_eq_iff) (simp add: re)
qed

lemma sample_storable: "storable (hd (r_layers sample_repo))" "transactions_inv (hd (r_layers sample_repo))"
proof -
  have "account_ok (new_account 1 3000000000 5)" "account_ok (new_account 2 40 5)"
    by (rule account_ok_small; simp add: new_account_def timestamp_ok_def)+
  moreover have "producer_ok (new_producer 7 5)"
    by (rule producer_ok_small; simp add: new_producer_def timestamp_ok_def)
  moreover have "block_ok EmptyBlock"
    by (rule block_ok_small; simp add: EmptyBlock_def empty_header_def timestamp_ok_def)
  ultimately show "storable (hd (r_layers sample_repo))" by (simp add: storable_def sample_repo_def)
qed (simp add: transactions_inv_def sample_repo_def)

theorem commit_database_witness:
  "bal (reopened EmptyBlock (snd (commit sample_repo))) = bal sample_repo"
proof -
  have "r_layers sample_repo = [hd (r_layers sample_repo)]" by (simp add: sample_repo_def)
  from commit_database [OF sample_inv this sample_storable(2,1) refl, of EmptyBlock] show ?thesis by simp
qed

text \<open>C34. Code grows with every trip through the database: the account read back has as code the RLP encoding of
  the code written, which is strictly longer unless it is a single byte below \<open>0x80\<close>. An account without code
  comes back with the one byte \<open>0x80\<close>, and with two bytes after the next trip.\<close>

theorem stored_code_grows:
  assumes "account_ok a" and "\<not> (length (a_code a) = 1 \<and> unat (a_code a ! 0) < 0x80)"
  shows "\<exists>a'. db_getAccount (a_address a) (snd (db_putAccount a db)) = Inr a' \<and> length (a_code a) < length (a_code a') \<and>
    a'\<lparr>a_code := a_code a\<rparr> = a"
proof -
  have "length (a_code a) < length (rlp_str (a_code a))"
    using assms(2) by (auto simp: rlp_str_def rlp_header_def)
  then show ?thesis
    using account_store.get_put_same [OF assms(1), of db] by (simp add: account_stored_def)
qed

theorem stored_code_grows_witness:
  "\<exists>a'. db_getAccount 9 (snd (db_putAccount (new_account 9 1 1) empty_db)) = Inr a' \<and> 0 < length (a_code a')"
proof -
  have "account_ok (new_account 9 1 1)"
    by (rule account_ok_small; simp add: new_account_def timestamp_ok_def)
  from stored_code_grows [OF this, of empty_db] show ?thesis by (auto simp: new_account_def)
qed

end
