(* ===== verification/ObjectCodecs.thy ===== *)
theory ObjectCodecs
  imports Sizes
begin

text \<open>
  What writing an object and reading it back gives, as properties of the codecs: blocks, transactions,
  accounts and producer snapshots survive, small receipt codes do not.
\<close>

definition sample_tx :: transaction where
  "sample_tx = \<lparr>t_chainID = 1, t_type = TransferType, t_sender = 3, t_recipient = 4, t_timestamp = 1538352001000,
     t_data = [1, 2, 3], t_value = 250, t_signature = \<lparr>sig_r = 11, sig_s = 12, sig_v = 1\<rparr>\<rparr>"

definition sample_full_block :: block where
  "sample_full_block =
     EmptyBlock\<lparr>b_transactions := [sample_tx],
       b_receipts := [\<lparr>rc_code = 0x1000001, rc_stateRoot = 0, rc_isCode = True\<rparr>]\<rparr>"

lemma sample_tx_ok: "transaction_ok sample_tx"
  by (rule transaction_ok_small) (simp_all add: sample_tx_def timestamp_ok_def)

lemma sample_full_block_ok: "block_ok sample_full_block"
proof (rule block_ok_small)
  show "length (concat (map transaction_rlp (b_transactions sample_full_block))) < 2 ^ 40"
  proof -
    have "length (concat (transaction_items sample_tx)) < 1000"
      using word_sizes(2) [of "1 :: u64"] word_sizes(1) [of TransferType] word_sizes(4) [of 20 "3 :: address"]
        word_sizes(4) [of 20 "4 :: address"] timestamp_size [of 1538352001000] str_size [of "[1, 2, 3 :: byte]"]
        word_sizes(2) [of "250 :: u64"] str_size [of "sig_bytes (t_signature sample_tx)"]
      by (simp add: transaction_items_def transaction_content_items_def sample_tx_def timestamp_ok_def)
    then show ?thesis
      using list_size [of "concat (transaction_items sample_tx)"] by (simp add: transaction_rlp_def sample_full_block_def)
  qed
  show "length (concat (map receipt_rlp (b_receipts sample_full_block))) < 2 ^ 40"
  proof -
    let ?rc = "\<lparr>rc_code = 0x1000001, rc_stateRoot = 0, rc_isCode = True\<rparr>"
    have "length (receipt_item ?rc) \<le> 13" using word_sizes(1) [of "0x1000001 :: u32"] by (simp add: receipt_item_def)
    then show ?thesis using list_size [of "receipt_item ?rc"] by (simp add: receipt_rlp_def sample_full_block_def)
  qed
qed (simp_all add: sample_full_block_def EmptyBlock_def empty_header_def timestamp_ok_def receipt_ok_def
    sample_tx_ok [unfolded sample_tx_def] sample_tx_def)



text \<open>C28. Transactions are encoded without loss: decoding gives the transaction back, so two transactions with the
  same encoding are equal.\<close>

theorem transaction_roundtrip:
  assumes "transaction_ok t" and "transaction_ok u"
  shows "bindE (transaction_getRLPData t) transaction_decode = Inr t \<and>
    (transaction_getRLPData t = transaction_getRLPData u \<longrightarrow> t = u)"
  using transaction_codec.roundtrip [OF assms(1)] transaction_codec.enc_injective [OF assms] by blast

theorem transaction_roundtrip_witness:
  "bindE (transaction_getRLPData sample_tx) transaction_decode = Inr sample_tx"
  using transaction_roundtrip [OF sample_tx_ok sample_tx_ok] by simp

text \<open>A receipt whose code is below \<open>2 ^ 24\<close> is written and cannot be read back: the reader takes a field of
  other than four bytes for a state root and fails.\<close>

theorem receipt_code_unreadable:
  assumes "rc_isCode rc" and "unat (rc_code rc) < 2 ^ 24"
  shows "\<exists>d. receipt_getRLPData rc = Inr d \<and> receipt_decode d = Inl CoreException"
  using receipt_small_code [OF assms] by blast

theorem receipt_code_unreadable_witness:
  "\<exists>d. receipt_getRLPData \<lparr>rc_code = 1, rc_stateRoot = 0, rc_isCode = True\<rparr> = Inr d \<and> receipt_decode d = Inl CoreException"
  by (rule receipt_code_unreadable) simp_all

text \<open>C29. A producer snapshot is stored and populated without loss, whatever the snapshot object held before.\<close>

theorem snapshot_roundtrip:
  assumes "snapshot_ok ps"
  shows "\<exists>d. snapshot_getRLPData ps = Inr d \<and> snapshot_populate d ps0 = ps"
  using snapshot_getRLPData_ok [OF assms] snapshot_populate_rlp [OF assms, of ps0] by blast

theorem snapshot_roundtrip_witness:
  "\<exists>d. snapshot_getRLPData \<lparr>ps_timestamp = 5, ps_producers = [new_producer 7 5]\<rparr> = Inr d \<and>
     snapshot_populate d \<lparr>ps_timestamp = 0, ps_producers = []\<rparr> = \<lparr>ps_timestamp = 5, ps_producers = [new_producer 7 5]\<rparr>"
proof (rule snapshot_roundtrip)
  have p: "producer_ok (new_producer 7 5)" by (rule producer_ok_small; simp add: new_producer_def timestamp_ok_def)
  have "length (rlp_list (concat (votes_items []))) \<le> 9" using list_size [of "concat (votes_items [])"] by (simp add: votes_items_def)
  then have "length (concat (producer_items (new_producer 7 5))) < 1000"
    using word_sizes(4) [of 20 "7 :: address"] timestamp_size [of 5] word_sizes(2) [of "0 :: u64"]
    by (simp add: producer_items_def new_producer_def timestamp_ok_def)
  then have "length (producer_rlp (new_producer 7 5)) < 1009"
    using list_size [of "concat (producer_items (new_producer 7 5))"] by (simp add: producer_rlp_def)
  then have "length (concat (snapshot_items \<lparr>ps_timestamp = 5, ps_producers = [new_producer 7 5]\<rparr>)) < 2000"
    using timestamp_size [of 5] by (simp add: snapshot_items_def timestamp_ok_def)
  then show "snapshot_ok \<lparr>ps_timestamp = 5, ps_producers = [new_producer 7 5]\<rparr>"
    using p list_size [of "concat (snapshot_items \<lparr>ps_timestamp = 5, ps_producers = [new_producer 7 5]\<rparr>)"]
    by (simp add: snapshot_ok_def timestamp_ok_def snapshot_rlp_def rlp_max_def)
qed

end
