(* ===== verification/Schedule.thy ===== *)
theory Schedule
  imports Codecs "HOL-Library.Multiset"
begin

text \<open>
  \<open>producer/Schedule\<close>: the list of producers of the current round, sorted by votes, and the position of a
  timestamp in the round. The order is the one of \<open>Producer::operator>\<close>; a schedule of producers with
  different addresses is the unique descending arrangement of the producers given.
\<close>

section \<open>\<open>std::sort\<close>\<close>

fun insert_by :: "('a \<Rightarrow> 'a \<Rightarrow> bool) \<Rightarrow> 'a \<Rightarrow> 'a list \<Rightarrow> 'a list" where
  "insert_by before x [] = [x]"
| "insert_by before x (y # ys) = (if before x y then x # y # ys else y # insert_by before x ys)"

fun sort_by :: "('a \<Rightarrow> 'a \<Rightarrow> bool) \<Rightarrow> 'a list \<Rightarrow> 'a list" where
  "sort_by before [] = []"
| "sort_by before (x # xs) = insert_by before x (sort_by before xs)"

lemma mset_insert_by [simp]: "mset (insert_by before x xs) = add_mset x (mset xs)"
  by (induction xs) auto

lemma mset_sort_by [simp]: "mset (sort_by before xs) = mset xs"
  by (induction xs) auto

lemma set_insert_by [simp]: "set (insert_by before x xs) = insert x (set xs)"
  by (metis mset_insert_by set_mset_add_mset_insert set_mset_mset)

lemma set_sort_by [simp]: "set (sort_by before xs) = set xs"
  by (metis mset_sort_by set_mset_mset)

lemma length_sort_by [simp]: "length (sort_by before xs) = length xs"
  by (metis mset_sort_by size_mset)

text \<open>For a comparator that compares a key, the result descends in the key.\<close>

lemma sorted_insert_by:
  fixes key :: "'a \<Rightarrow> 'k :: linorder"
  assumes "\<And>x y. before x y \<longleftrightarrow> key y < key x" "sorted_wrt (\<lambda>x y. key y \<le> key x) xs"
  shows "sorted_wrt (\<lambda>x y. key y \<le> key x) (insert_by before x xs)"
  using assms(2) by (induction xs) (auto simp: assms(1))

lemma sorted_sort_by:
  fixes key :: "'a \<Rightarrow> 'k :: linorder"
  assumes "\<And>x y. before x y \<longleftrightarrow> key y < key x"
  shows "sorted_wrt (\<lambda>x y. key y \<le> key x) (sort_by before xs)"
  by (induction xs) (simp_all add: sorted_insert_by [OF assms])

section \<open>The schedule\<close>

record schedule =
  sc_prevTimestamp :: int
  sc_prevProducerList :: "producer list"
  sc_currentTimestamp :: int
  sc_currentProducerList :: "producer list"

definition producerCompareLess :: "producer \<Rightarrow> producer \<Rightarrow> bool" where
  "producerCompareLess p q = producer_gt p q"

definition producerSort :: "schedule \<Rightarrow> schedule" where
  "producerSort s = s\<lparr>sc_prevProducerList := sort_by producerCompareLess (sc_prevProducerList s),
     sc_currentProducerList := sort_by producerCompareLess (sc_currentProducerList s)\<rparr>"

fun push_producers :: "int \<Rightarrow> producer list \<Rightarrow> schedule \<Rightarrow> schedule" where
  "push_producers ts [] s = s"
| "push_producers ts (p # ps) s =
     push_producers ts ps (s\<lparr>sc_currentTimestamp := ts, sc_currentProducerList := sc_currentProducerList s @ [p]\<rparr>)"

definition schedule_schedule :: "producer list \<Rightarrow> int \<Rightarrow> schedule \<Rightarrow> schedule" where
  "schedule_schedule producerList timestamp s =
     (let s1 = s\<lparr>sc_prevProducerList := []\<rparr>;
          s2 = (if sc_currentProducerList s1 \<noteq> []
                then s1\<lparr>sc_prevProducerList := sc_currentProducerList s1, sc_prevTimestamp := sc_currentTimestamp s1,
                        sc_currentProducerList := []\<rparr>
                else s1)
      in producerSort (push_producers timestamp producerList s2))"

definition schedule_getAddress :: "u32 \<Rightarrow> schedule \<Rightarrow> address" where
  "schedule_getAddress idx s =
     (if unat idx \<ge> length (sc_currentProducerList s) \<or> unat idx \<ge> NUM_DELEGATED_BLOCKS then 0
      else p_address (sc_currentProducerList s ! unat idx))"

text \<open>The loops with a counter keep the first \<open>NUM_DELEGATED_BLOCKS\<close> producers.\<close>

fun first_producers :: "nat \<Rightarrow> producer list \<Rightarrow> producer list" where
  "first_producers n [] = []"
| "first_producers n (p # ps) =
     (if n < NUM_DELEGATED_BLOCKS then p # first_producers (Suc n) ps else first_producers n ps)"

definition getCurrentProducerList :: "schedule \<Rightarrow> producer list" where
  "getCurrentProducerList s = first_producers 0 (sc_currentProducerList s)"

definition getProducerSnapshot :: "schedule \<Rightarrow> producer_snapshot" where
  "getProducerSnapshot s =
     fold ps_addProducer (first_producers 0 (sc_currentProducerList s))
       \<lparr>ps_timestamp = sc_currentTimestamp s, ps_producers = []\<rparr>"

lemma first_producers_take: "first_producers k ps = take (NUM_DELEGATED_BLOCKS - k) ps"
proof (induction ps arbitrary: k)
  case (Cons p ps)
  show ?case
  proof (cases "k < NUM_DELEGATED_BLOCKS")
    case True
    then have "NUM_DELEGATED_BLOCKS - k = Suc (NUM_DELEGATED_BLOCKS - Suc k)" by simp
    then show ?thesis using True Cons by simp
  qed (use Cons in simp)
qed simp

lemma push_producers_eq:
  "push_producers ts ps s = (if ps = [] then s
     else s\<lparr>sc_currentTimestamp := ts, sc_currentProducerList := sc_currentProducerList s @ ps\<rparr>)"
  by (induction ts ps s rule: push_producers.induct) auto

lemma schedule_current:
  "sc_currentProducerList (schedule_schedule ps ts s) = sort_by producerCompareLess ps"
  by (simp add: schedule_schedule_def producerSort_def push_producers_eq Let_def)

text \<open>Adding producers with different addresses one by one keeps them all.\<close>

lemma fold_addProducer:
  assumes "distinct (map p_address (ps_producers s @ ps))"
  shows "fold ps_addProducer ps s = s\<lparr>ps_producers := ps_producers s @ ps\<rparr>"
  using assms
proof (induction ps arbitrary: s)
  case (Cons p ps)
  then have "\<not> ps_isExist (p_address p) s" by (auto simp: ps_isExist_def image_iff)
  then have "ps_addProducer p s = s\<lparr>ps_producers := ps_producers s @ [p]\<rparr>" by (simp add: ps_addProducer_def)
  then show ?case using Cons by simp
qed simp

section \<open>Slots\<close>

text \<open>The position of a timestamp in the round. The arithmetic is on \<open>int64_t\<close>, where division truncates, and the
  result is converted to \<open>unsigned\<close>. The subtraction does not overflow for the timestamps considered.\<close>

definition producerPosition :: "int \<Rightarrow> u32" where
  "producerPosition timestamp = word_of_int (((timestamp - GENESIS_TIMESTAMP) smod TIME_PER_ROUND) sdiv PRODUCER_INTERVAL)"

text \<open>\<open>((timestamp - GENESIS_TIMESTAMP) / PRODUCER_INTERVAL) * PRODUCER_INTERVAL\<close>\<close>

definition blockSlice :: "int \<Rightarrow> int" where
  "blockSlice timestamp = ((timestamp - GENESIS_TIMESTAMP) sdiv PRODUCER_INTERVAL) * PRODUCER_INTERVAL"

definition slot :: "int \<Rightarrow> int" where
  "slot timestamp = (timestamp - GENESIS_TIMESTAMP) div PRODUCER_INTERVAL"

lemma sdiv_nonneg: "0 \<le> (a :: int) \<Longrightarrow> 0 < b \<Longrightarrow> a sdiv b = a div b"
  by (auto simp: signed_divide_int_def sgn_if)

lemma smod_nonneg: "0 \<le> (a :: int) \<Longrightarrow> 0 < b \<Longrightarrow> a smod b = a mod b"
  by (cases "a = 0") (simp_all add: signed_modulo_int_def)

lemma blockSlice_slot: "GENESIS_TIMESTAMP \<le> t \<Longrightarrow> blockSlice t = slot t * PRODUCER_INTERVAL"
  by (simp add: blockSlice_def slot_def sdiv_nonneg PRODUCER_INTERVAL_def)

lemma round_slot: "(x :: int) mod 14000 div 2000 = x div 2000 mod 7"
proof -
  have "x mod (2000 * 7) = 2000 * (x div 2000 mod 7) + x mod 2000"
    by (rule zmod_zmult2_eq) simp
  then show ?thesis by simp
qed

lemma position_slot:
  assumes "GENESIS_TIMESTAMP \<le> t"
  shows "unat (producerPosition t) = nat (slot t mod int NUM_DELEGATED_BLOCKS)"
proof -
  let ?d = "t - GENESIS_TIMESTAMP"
  have d: "0 \<le> ?d" using assms by simp
  have m: "?d mod TIME_PER_ROUND div PRODUCER_INTERVAL = slot t mod int NUM_DELEGATED_BLOCKS"
    using round_slot [of ?d] by (simp add: slot_def TIME_PER_ROUND_def PRODUCER_INTERVAL_def NUM_DELEGATED_BLOCKS_def)
  have "((?d smod TIME_PER_ROUND) sdiv PRODUCER_INTERVAL) = slot t mod int NUM_DELEGATED_BLOCKS"
    using d m by (simp add: smod_nonneg sdiv_nonneg TIME_PER_ROUND_def PRODUCER_INTERVAL_def NUM_DELEGATED_BLOCKS_def)
  moreover have "0 \<le> slot t mod int NUM_DELEGATED_BLOCKS" "slot t mod int NUM_DELEGATED_BLOCKS < 2 ^ 32"
    using pos_mod_bound [of "int NUM_DELEGATED_BLOCKS" "slot t"] by (simp_all add: NUM_DELEGATED_BLOCKS_def)
  ultimately show ?thesis
    by (simp add: producerPosition_def unsigned_of_int take_bit_int_eq_self)
qed

section \<open>Who produces\<close>

lemma rank_inj: "distinct (map p_address ps) \<Longrightarrow> p \<in> set ps \<Longrightarrow> q \<in> set ps \<Longrightarrow> producer_rank p = producer_rank q \<Longrightarrow> p = q"
  by (auto simp: producer_rank_def distinct_map inj_on_def)

lemma sort_producers:
  assumes "distinct (map p_address ps)"
  shows "sorted_wrt producer_gt (sort_by producerCompareLess ps)"
proof -
  let ?s = "sort_by producerCompareLess ps"
  have s: "sorted_wrt (\<lambda>x y. producer_rank y \<le> producer_rank x) ?s"
    by (rule sorted_sort_by) (simp add: producerCompareLess_def producer_gt_rank)
  have d: "distinct (map p_address ?s)"
    using assms by (metis mset_map mset_sort_by mset_eq_imp_distinct_iff)
  show ?thesis
    unfolding sorted_wrt_iff_nth_less
  proof (intro allI impI)
    fix i j assume ij: "i < j" "j < length ?s"
    then have "?s ! i \<noteq> ?s ! j" using d by (metis distinct_map nth_eq_iff_index_eq order_less_imp_not_eq order_less_trans)
    then have "producer_rank (?s ! i) \<noteq> producer_rank (?s ! j)" using rank_inj [OF d] ij by (meson less_trans nth_mem)
    moreover have "producer_rank (?s ! j) \<le> producer_rank (?s ! i)" using s ij by (simp add: sorted_wrt_iff_nth_less)
    ultimately show "producer_gt (?s ! i) (?s ! j)" by (simp add: producer_gt_rank)
  qed
qed

text \<open>C16. After \<open>schedule\<close>, the producers of the round are the \<open>NUM_DELEGATED_BLOCKS\<close> candidates with most votes (all,
  when there are fewer), in descending order of votes and then address. Every one of them outranks every
  candidate left out, the snapshot holds exactly them, and \<open>getAddress\<close> returns them by position.\<close>

theorem schedule_top:
  assumes "distinct (map p_address ps)"
  shows "let s' = schedule_schedule ps ts s; c = getCurrentProducerList s' in
    length c = min NUM_DELEGATED_BLOCKS (length ps) \<and> set c \<subseteq> set ps \<and> sorted_wrt producer_gt c \<and>
    (\<forall>p \<in> set c. \<forall>q \<in> set ps - set c. producer_gt p q) \<and>
    ps_producers (getProducerSnapshot s') = c \<and>
    (\<forall>i < length c. schedule_getAddress (word_of_nat i) s' = p_address (c ! i))"
proof -
  let ?l = "sort_by producerCompareLess ps" and ?s' = "schedule_schedule ps ts s"
  let ?c = "take NUM_DELEGATED_BLOCKS ?l"
  have c: "getCurrentProducerList ?s' = ?c"
    by (simp add: getCurrentProducerList_def schedule_current first_producers_take)
  note srt = sort_producers [OF assms]
  have outranks: "producer_gt p q" if "p \<in> set ?c" "q \<in> set ps - set ?c" for p q
  proof -
    have "q \<in> set (drop NUM_DELEGATED_BLOCKS ?l)"
      using that(2) set_append [of ?c "drop NUM_DELEGATED_BLOCKS ?l"] by (auto simp: append_take_drop_id)
    then show ?thesis
      using srt that(1) sorted_wrt_append [of producer_gt ?c "drop NUM_DELEGATED_BLOCKS ?l"] by (simp add: append_take_drop_id)
  qed
  have "distinct (map p_address ?l)" using assms by (metis mset_map mset_sort_by mset_eq_imp_distinct_iff)
  then have "distinct (map p_address ?c)" by (simp add: take_map [symmetric])
  then have snap: "ps_producers (getProducerSnapshot ?s') = ?c"
    by (simp add: getProducerSnapshot_def schedule_current first_producers_take fold_addProducer)
  have addr: "schedule_getAddress (word_of_nat i) ?s' = p_address (?c ! i)" if "i < length ?c" for i
  proof -
    have "i < NUM_DELEGATED_BLOCKS" using that by simp
    then have "unat (word_of_nat i :: u32) = i" by (simp add: NUM_DELEGATED_BLOCKS_def unsigned_of_nat take_bit_nat_eq_self)
    then show ?thesis using that by (simp add: schedule_getAddress_def schedule_current)
  qed
  have "set ?c \<subseteq> set ps" using set_take_subset [of NUM_DELEGATED_BLOCKS ?l] by simp
  then show ?thesis
    using outranks snap addr srt by (auto simp: c Let_def min.commute intro: sorted_wrt_take)
qed

theorem schedule_top_witness:
  "let ps = map (\<lambda>i. \<lparr>p_address = word_of_nat i, p_timestamp = 0, p_votes = word_of_nat (i * i mod 7), p_voters = []\<rparr>) [1..<10] in
   length (getCurrentProducerList (schedule_schedule ps 5
     \<lparr>sc_prevTimestamp = 0, sc_prevProducerList = [], sc_currentTimestamp = 0, sc_currentProducerList = []\<rparr>)) = 7"
proof -
  let ?ps = "map (\<lambda>i. \<lparr>p_address = word_of_nat i, p_timestamp = 0, p_votes = word_of_nat (i * i mod 7), p_voters = []\<rparr>) [1..<10]"
  have "distinct (map p_address ?ps)" by code_simp
  from schedule_top [OF this, of 5] show ?thesis by (simp only: Let_def length_map) (simp add: NUM_DELEGATED_BLOCKS_def)
qed

end
