(* ===== verification/FixedHash.thy ===== *)
theory FixedHash
  imports Bytes
begin

text \<open>
  \<open>core/include/core/FixedHash.h\<close>: the array of N bytes behind addresses, block identifiers and
  signatures. The rest of the development uses such a value as a machine word; here the operations of
  the class on the bytes are shown to be the operations on the number the bytes spell.
\<close>

section \<open>Construction\<close>

datatype construct_from_hash = AlignLeft | AlignRight | FailIfDifferent

datatype construct_from_string = FromHex | FromBinary

definition fh_empty :: "nat \<Rightarrow> bytes" where
  "fh_empty N = replicate N 0"

text \<open>The copying loop of the aligning constructors: \<open>c\<close> bytes, from the left or from the right end.\<close>

fun fh_align :: "nat \<Rightarrow> bool \<Rightarrow> bytes \<Rightarrow> bytes \<Rightarrow> bytes" where
  "fh_align 0 right b d = d"
| "fh_align (Suc c) right b d =
     (let i = (if right then length d - 1 - c else c); j = (if right then length b - 1 - c else c)
      in (fh_align c right b d)[i := b ! j])"

definition fh_of_hash :: "nat \<Rightarrow> construct_from_hash \<Rightarrow> bytes \<Rightarrow> bytes" where
  "fh_of_hash N t h = fh_align (min (length h) N) (t = AlignRight) h (fh_empty N)"

definition fh_of_arith :: "nat \<Rightarrow> nat \<Rightarrow> bytes" where
  "fh_of_arith N n = toBigEndian N n"

definition fh_of_bytes :: "nat \<Rightarrow> construct_from_hash \<Rightarrow> bytes \<Rightarrow> bytes" where
  "fh_of_bytes N t b =
     (if length b = N then b
      else if t \<noteq> FailIfDifferent then fh_align (min (length b) N) (t = AlignRight) b (fh_empty N)
      else fh_empty N)"

definition fh_of_string :: "nat \<Rightarrow> construct_from_string \<Rightarrow> construct_from_hash \<Rightarrow> string \<Rightarrow> exn + bytes" where
  "fh_of_string N t ht s =
     bindE (if t = FromHex then fromHex s True else Inr (map of_char s)) (\<lambda>b. Inr (fh_of_bytes N ht b))"

definition fh_arith :: "bytes \<Rightarrow> nat" where
  "fh_arith d = fromBigEndian_bigint d"

definition fh_bool :: "bytes \<Rightarrow> bool" where
  "fh_bool d = list_ex (\<lambda>b. b \<noteq> 0) d"

section \<open>Comparison\<close>

definition fh_eq :: "bytes \<Rightarrow> bytes \<Rightarrow> bool" where
  "fh_eq a b = (a = b)"

fun fh_lt :: "bytes \<Rightarrow> bytes \<Rightarrow> bool" where
  "fh_lt (x # a) (y # b) = (if x < y then True else if y < x then False else fh_lt a b)"
| "fh_lt _ _ = False"

definition fh_ge :: "bytes \<Rightarrow> bytes \<Rightarrow> bool" where "fh_ge a b = (\<not> fh_lt a b)"
definition fh_le :: "bytes \<Rightarrow> bytes \<Rightarrow> bool" where "fh_le a b = (fh_eq a b \<or> fh_lt a b)"
definition fh_gt :: "bytes \<Rightarrow> bytes \<Rightarrow> bool" where "fh_gt a b = (\<not> fh_le a b)"

text \<open>The specialised \<open>operator==\<close> of \<open>h256\<close> compares four 64-bit words loaded from memory.\<close>

definition fh_load64 :: "bytes \<Rightarrow> nat \<Rightarrow> u64" where
  "fh_load64 d k = fromBigEndian (rev (take 8 (drop (8 * k) d)))"

definition fh_eq32 :: "bytes \<Rightarrow> bytes \<Rightarrow> bool" where
  "fh_eq32 a b \<longleftrightarrow> fh_load64 a 0 = fh_load64 b 0 \<and> fh_load64 a 1 = fh_load64 b 1 \<and>
     fh_load64 a 2 = fh_load64 b 2 \<and> fh_load64 a 3 = fh_load64 b 3"

section \<open>Bitwise operations\<close>

definition fh_xor :: "bytes \<Rightarrow> bytes \<Rightarrow> bytes" where "fh_xor a b = map2 (XOR) a b"
definition fh_or :: "bytes \<Rightarrow> bytes \<Rightarrow> bytes" where "fh_or a b = map2 (OR) a b"
definition fh_and :: "bytes \<Rightarrow> bytes \<Rightarrow> bytes" where "fh_and a b = map2 (AND) a b"
definition fh_not :: "bytes \<Rightarrow> bytes" where "fh_not a = map NOT a"

text \<open>The compound operators of \<open>SecureFixedHash\<close> all call \<open>operator^=\<close> of the base class.\<close>

definition secure_xor :: "bytes \<Rightarrow> bytes \<Rightarrow> bytes" where "secure_xor a b = fh_xor a b"
definition secure_or :: "bytes \<Rightarrow> bytes \<Rightarrow> bytes" where "secure_or a b = fh_xor a b"
definition secure_and :: "bytes \<Rightarrow> bytes \<Rightarrow> bytes" where "secure_and a b = fh_xor a b"

text \<open>\<open>operator++\<close>: \<open>for (i = size; i > 0 && !++m_data[--i]; ) {}\<close>\<close>

fun fh_inc_loop :: "nat \<Rightarrow> bytes \<Rightarrow> bytes" where
  "fh_inc_loop 0 d = d"
| "fh_inc_loop (Suc i) d =
     (let b = d ! i + 1; d' = d[i := b] in if b = 0 then fh_inc_loop i d' else d')"

definition fh_inc :: "bytes \<Rightarrow> bytes" where
  "fh_inc d = fh_inc_loop (length d) d"

definition fh_contains :: "bytes \<Rightarrow> bytes \<Rightarrow> bool" where
  "fh_contains a c = fh_eq (fh_and a c) c"

definition fh_setFirstBit :: "bytes \<Rightarrow> bytes" where "fh_setFirstBit d = d[0 := d ! 0 OR 0x80]"
definition fh_unsetFirstBit :: "bytes \<Rightarrow> bytes" where "fh_unsetFirstBit d = d[0 := d ! 0 AND 0x7F]"
definition fh_checkFirstBit :: "bytes \<Rightarrow> u32" where "fh_checkFirstBit d = ucast (d ! 0 AND 0x80)"

fun byte_first_bit :: "nat \<Rightarrow> byte \<Rightarrow> nat \<Rightarrow> nat" where
  "byte_first_bit 0 d ret = ret"
| "byte_first_bit (Suc fuel) d ret =
     (if d AND 0x80 \<noteq> 0 then ret else byte_first_bit fuel (push_bit 1 d) (ret + 1))"

text \<open>The inner loop ends within eight shifts of a non-zero byte.\<close>

fun fh_firstBitSet_loop :: "bytes \<Rightarrow> nat \<Rightarrow> nat" where
  "fh_firstBitSet_loop [] ret = ret"
| "fh_firstBitSet_loop (d # ds) ret =
     (if d \<noteq> 0 then byte_first_bit 8 d ret else fh_firstBitSet_loop ds (ret + 8))"

definition fh_firstBitSet :: "bytes \<Rightarrow> nat" where
  "fh_firstBitSet d = fh_firstBitSet_loop d 0"

definition right160 :: "bytes \<Rightarrow> bytes" where
  "right160 h = take 20 (drop 12 h)"

text \<open>\<open>bloomPart\<close>: \<open>P\<close> indices of \<open>c_bloomBytes\<close> bytes each, one bit set for each index. \<open>c_bloomBytes\<close> is the
  compile-time \<open>(log2 (8 M) + 7) / 8\<close>.\<close>

fun staticLog2 :: "nat \<Rightarrow> nat" where
  "staticLog2 n = (if n \<le> 1 then 0 else 1 + staticLog2 (n div 2))"

declare staticLog2.simps [simp del]

definition bloom_bytes :: "nat \<Rightarrow> nat" where
  "bloom_bytes M = (staticLog2 (M * 8) + 7) div 8"

definition bloom_index :: "nat \<Rightarrow> bytes \<Rightarrow> nat \<Rightarrow> u32" where
  "bloom_index M h i =
     foldl (\<lambda>index p. push_bit 8 index OR ucast p) 0 (take (bloom_bytes M) (drop (i * bloom_bytes M) h))
       AND (word_of_nat (M * 8) - 1)"

definition bloom_set :: "nat \<Rightarrow> u32 \<Rightarrow> bytes \<Rightarrow> bytes" where
  "bloom_set M index ret =
     (let k = M - 1 - unat index div 8 in ret[k := ret ! k OR push_bit (unat index mod 8) 1])"

definition fh_bloomPart :: "nat \<Rightarrow> nat \<Rightarrow> bytes \<Rightarrow> bytes" where
  "fh_bloomPart P M h = fold (\<lambda>i. bloom_set M (bloom_index M h i)) [0..<P] (fh_empty M)"

definition fh_shiftBloom :: "nat \<Rightarrow> bytes \<Rightarrow> bytes \<Rightarrow> bytes" where
  "fh_shiftBloom P this h = fh_or this (fh_bloomPart P (length this) h)"

definition fh_containsBloom :: "nat \<Rightarrow> bytes \<Rightarrow> bytes \<Rightarrow> bool" where
  "fh_containsBloom P this h = fh_contains this (fh_bloomPart P (length this) h)"

section \<open>Bytes and numbers\<close>

lemma fh_arith_val: "fh_arith d = be_val d"
  by (simp add: fh_arith_def fromBigEndian_bigint_val)

lemma fh_of_arith_val: "fh_arith (fh_of_arith N n) = n mod 256 ^ N"
  by (simp add: fh_arith_val fh_of_arith_def be_val_toBigEndian)

lemma fh_eq_val: "length a = length b \<Longrightarrow> fh_eq a b \<longleftrightarrow> be_val a = be_val b"
  unfolding fh_eq_def by (metis toBigEndian_be_val)

lemma fh_lt_val: "length a = length b \<Longrightarrow> fh_lt a b \<longleftrightarrow> be_val a < be_val b"
proof (induction a b rule: fh_lt.induct)
  case (1 x a y b)
  have l: "be_val a < 256 ^ length b" "be_val b < 256 ^ length b"
    using be_val_bound [of a] be_val_bound [of b] 1(2) by auto
  consider "x < y" | "y < x" | "x = y" by fastforce
  then show ?case
  proof cases
    case 1
    then have "unat x + 1 \<le> unat y" by (simp add: word_less_nat_alt)
    then have "(unat x + 1) * 256 ^ length b \<le> unat y * 256 ^ length b" by (rule mult_right_mono) simp
    then show ?thesis using l \<open>x < y\<close> \<open>length (x # a) = length (y # b)\<close> by simp
  next
    case 2
    then have "unat y + 1 \<le> unat x" by (simp add: word_less_nat_alt)
    then have "(unat y + 1) * 256 ^ length b \<le> unat x * 256 ^ length b" by (rule mult_right_mono) simp
    then show ?thesis using l 2 \<open>length (x # a) = length (y # b)\<close> by (simp add: less_not_sym)
  next
    case 3
    then show ?thesis using 1 by simp
  qed
qed auto

lemma fh_inc_loop_length [simp]: "length (fh_inc_loop i d) = length d"
  by (induction i arbitrary: d) (auto simp: Let_def)

lemma be_val_zeros: "be_val (replicate n 0) = 0"
  by (induction n) auto

lemma fh_inc_loop_val:
  assumes "i \<le> length d" "drop i d = replicate (length d - i) 0"
  shows "be_val (fh_inc_loop i d) = (if be_val (take i d) + 1 < 256 ^ i
           then (be_val (take i d) + 1) * 256 ^ (length d - i) else 0)"
  using assms
proof (induction i arbitrary: d)
  case 0
  have "be_val d = 0" using 0(2) be_val_zeros [of "length d"] by simp
  then show ?case by simp
next
  case (Suc i)
  have i: "i < length d" using Suc.prems by simp
  have t: "take (Suc i) d = take i d @ [d ! i]" using i by (simp add: take_Suc_conv_app_nth)
  have d: "d = take i d @ d ! i # drop (Suc i) d" using i by (simp add: id_take_nth_drop)
  let ?b = "d ! i + 1"
  show ?case
  proof (cases "?b = 0")
    case True
    let ?d = "d[i := 0]"
    have dr: "drop i ?d = replicate (length ?d - i) 0"
      using Suc.prems i by (simp add: drop_update_cancel Cons_nth_drop_Suc [symmetric] Suc_diff_Suc)
        (metis Suc_diff_Suc replicate_Suc)
    have "d ! i = - 1" using True by (simp add: eq_neg_iff_add_eq_0)
    moreover have "(- 1 :: byte) = 255" by code_simp
    ultimately have "unat (d ! i) = 255" by simp
    then have v: "be_val (take (Suc i) d) + 1 = (be_val (take i d) + 1) * 256" by (simp add: t)
    have "be_val (fh_inc_loop (Suc i) d) = (if be_val (take i d) + 1 < 256 ^ i
        then (be_val (take i d) + 1) * 256 ^ (length d - i) else 0)"
      using Suc.IH [OF _ dr] i True by (simp add: Let_def)
    moreover have "be_val (take (Suc i) d) + 1 < 256 ^ Suc i \<longleftrightarrow> be_val (take i d) + 1 < 256 ^ i"
    proof -
      have "x * 256 < 256 * 256 ^ i \<longleftrightarrow> x < 256 ^ i" for x :: nat by auto
      then show ?thesis unfolding v power_Suc .
    qed
    moreover have "(be_val (take (Suc i) d) + 1) * 256 ^ (length d - Suc i) = (be_val (take i d) + 1) * 256 ^ (length d - i)"
      unfolding v using i by (simp add: Suc_diff_Suc [symmetric] algebra_simps)
    ultimately show ?thesis by simp
  next
    case False
    have "unat ?b = unat (d ! i) + 1" using False unatSuc [of "d ! i"] by (simp add: add.commute)
    have "be_val (fh_inc_loop (Suc i) d) = be_val (take i d @ [?b]) * 256 ^ (length d - Suc i)"
    proof -
      have "d[i := ?b] = (take i d @ [?b]) @ replicate (length d - Suc i) 0"
        using i Suc.prems(2) by (simp add: upd_conv_take_nth_drop)
      then show ?thesis using False be_val_zeros by (simp add: Let_def be_val_append algebra_simps)
    qed
    moreover have "be_val (take i d @ [?b]) = be_val (take (Suc i) d) + 1"
      using \<open>unat ?b = _\<close> by (simp add: t)
    moreover have "be_val (take i d @ [?b]) < 256 ^ Suc i" using be_val_bound [of "take i d @ [?b]"] i by simp
    ultimately show ?thesis by simp
  qed
qed

lemma fh_inc_val: "be_val (fh_inc d) = (be_val d + 1) mod 256 ^ length d"
proof -
  have "be_val d < 256 ^ length d" by (rule be_val_bound)
  then consider "be_val d + 1 < 256 ^ length d" | "be_val d + 1 = 256 ^ length d" by linarith
  then show ?thesis using fh_inc_loop_val [of "length d" d] by cases (auto simp: fh_inc_def)
qed

lemma load64_eq:
  assumes "length a = 32" "length b = 32" "k < 4" "fh_load64 a k = fh_load64 b k"
  shows "take 8 (drop (8 * k) a) = take 8 (drop (8 * k) b)"
proof -
  let ?a = "rev (take 8 (drop (8 * k) a))" and ?b = "rev (take 8 (drop (8 * k) b))"
  have l: "length ?a = 8" "length ?b = 8" using assms(1-3) by auto
  have "be_val ?a < 2 ^ 64" "be_val ?b < 2 ^ 64" using be_val_bound [of ?a] be_val_bound [of ?b] l by simp_all
  then have "be_val ?a = be_val ?b"
    using assms(4) by (simp add: fh_load64_def fromBigEndian_val word_of_nat_eq_iff take_bit_nat_eq_self)
  then have "?a = ?b" using toBigEndian_be_val [of ?a] toBigEndian_be_val [of ?b] l by metis
  then show ?thesis by simp
qed

lemma fh_eq32_eq:
  assumes "length a = 32" "length b = 32"
  shows "fh_eq32 a b \<longleftrightarrow> a = b"
proof
  assume e: "fh_eq32 a b"
  have split: "d = take 8 (drop (8 * 0) d) @ take 8 (drop (8 * 1) d) @ take 8 (drop (8 * 2) d) @ take 8 (drop (8 * 3) d)"
    if "length d = 32" for d :: bytes
  proof -
    have "drop 24 d = take 8 (drop 24 d)" using that by simp
    moreover have "take n e @ drop n e = e" for n and e :: bytes by simp
    ultimately show ?thesis
      using append_take_drop_id [of 8 d] append_take_drop_id [of 8 "drop 8 d"] append_take_drop_id [of 8 "drop 16 d"]
      by (simp add: drop_drop)
  qed
  have "take 8 (drop (8 * k) a) = take 8 (drop (8 * k) b)" if "k < 4" for k
    using load64_eq [OF assms that] e that by (auto simp: fh_eq32_def less_Suc_eq numeral_eq_Suc)
  from this [of 0] this [of 1] this [of 2] this [of 3] split [OF assms(1)] split [OF assms(2)]
  show "a = b" by simp
qed (simp add: fh_eq32_def)

text \<open>C27. The byte-wise operations of \<open>FixedHash\<close> are operations on the big-endian number: the comparison loops
  compare the numbers, \<open>operator++\<close> adds one modulo \<open>256 ^ N\<close>, construction from a number and back is reduction
  modulo \<open>256 ^ N\<close>, and the fast comparison of 32-byte hashes is equality.\<close>

theorem fixedhash_is_number:
  assumes "length a = N" and "length b = N"
  shows "(fh_lt a b \<longleftrightarrow> fh_arith a < fh_arith b) \<and> (fh_le a b \<longleftrightarrow> fh_arith a \<le> fh_arith b) \<and>
    (fh_gt a b \<longleftrightarrow> fh_arith b < fh_arith a) \<and> (fh_eq a b \<longleftrightarrow> fh_arith a = fh_arith b) \<and>
    fh_arith (fh_inc a) = (fh_arith a + 1) mod 256 ^ N \<and>
    fh_arith (fh_of_arith N n) = n mod 256 ^ N \<and> (N = 32 \<longrightarrow> fh_eq32 a b = fh_eq a b)"
proof -
  have l: "length a = length b" using assms by simp
  show ?thesis
    using fh_lt_val [OF l] fh_eq_val [OF l] fh_of_arith_val fh_inc_val [of a] fh_eq32_eq assms
    by (auto simp: fh_arith_val fh_le_def fh_gt_def fh_eq_def [symmetric])
qed

theorem fixedhash_is_number_witness:
  "fh_arith (fh_inc [0, 255]) = 256 \<and> fh_lt [0, 255] [1, 0] \<and> length [0 :: byte, 255] = 2"
  using fixedhash_is_number [of "[0, 255]" 2 "[1, 0]"] by (simp add: fh_arith_val)

text \<open>The compound operators of \<open>SecureFixedHash\<close> are all exclusive or: \<open>|=\<close> and \<open>&=\<close> of a value with itself give zero.\<close>

theorem secure_operators_xor:
  "secure_or a a = fh_empty (length a) \<and> secure_and a a = fh_empty (length a) \<and> fh_or a a = a \<and> fh_and a a = a"
  by (induction a) (auto simp: secure_or_def secure_and_def fh_xor_def fh_or_def fh_and_def fh_empty_def)

end
