(* ===== verification/Trie.thy ===== *)
theory Trie
  imports Database Sizes FixedHash
begin

text \<open>
  \<open>trie/\<close>: the roots a block header carries. \<open>merkle\<close> folds the transaction hashes pairwise in place;
  \<open>trieHash256\<close> builds the hexary trie of the RLP-numbered transactions bottom up. The in-place folding is
  shown to be the balanced hash tree, the path encoding is shown to be inverted by \<open>keyOf\<close>, and the bytes
  the trie builder streams are those of a trie whose lookup function is the map it was given.
\<close>

section \<open>Merkle root\<close>

definition makeTrieLeft :: "h256 \<Rightarrow> h256" where
  "makeTrieLeft v = fromBigEndian (fh_unsetFirstBit (asBytes256 v))"

definition makeTrieRight :: "h256 \<Rightarrow> h256" where
  "makeTrieRight v = fromBigEndian (fh_setFirstBit (asBytes256 v))"

definition isTrieLeft :: "h256 \<Rightarrow> bool" where
  "isTrieLeft v \<longleftrightarrow> fh_checkFirstBit (asBytes256 v) = 0"

definition isTrieRight :: "h256 \<Rightarrow> bool" where
  "isTrieRight v \<longleftrightarrow> fh_checkFirstBit (asBytes256 v) \<noteq> 0"

definition makeTriePair :: "h256 \<Rightarrow> h256 \<Rightarrow> h256 \<times> h256" where
  "makeTriePair l r = (makeTrieLeft l, makeTrieRight r)"

text \<open>\<open>sha3\<close> of a pair hashes the two hexadecimal texts.\<close>

definition sha3_pair :: "h256 \<times> h256 \<Rightarrow> h256" where
  "sha3_pair p = sha3 (map of_char (toHex (asBytes256 (fst p)) @ toHex (asBytes256 (snd p))))"

text \<open>One assignment of the inner loop, and one turn of the outer loop.\<close>

definition merkle_step :: "h256 list \<Rightarrow> nat \<Rightarrow> h256 list" where
  "merkle_step ids i = ids[i := sha3_pair (makeTriePair (ids ! (2 * i)) (ids ! (2 * i + 1)))]"

definition merkle_round :: "h256 list \<Rightarrow> h256 list" where
  "merkle_round ids0 =
     (let ids = (if length ids0 mod 2 \<noteq> 0 then ids0 @ [last ids0] else ids0)
      in take (length ids div 2) (foldl merkle_step ids [0..<length ids div 2]))"

lemma foldl_merkle_length [simp]: "length (foldl merkle_step ids js) = length ids"
  by (induction js arbitrary: ids) (simp_all add: merkle_step_def)

lemma length_merkle_round: "length (merkle_round ids) = (length ids + 1) div 2"
  by (simp add: merkle_round_def Let_def) presburger

function merkle_loop :: "h256 list \<Rightarrow> h256" where
  "merkle_loop ids = (if length ids > 1 then merkle_loop (merkle_round ids) else hd ids)"
  by pat_completeness auto
termination
  by (relation "measure length") (simp_all add: length_merkle_round)

declare merkle_loop.simps [simp del]

definition merkle :: "h256 list \<Rightarrow> h256" where
  "merkle ids = (if length ids = 0 then 0 else merkle_loop ids)"

section \<open>Hex-prefix encoding\<close>

text \<open>Reading a vector past its end is undefined behaviour.\<close>

definition read_at :: "'a list \<Rightarrow> nat \<Rightarrow> exn + 'a" where
  "read_at d i = (if i < length d then Inr (d ! i) else Inl UndefinedBehaviour)"

definition hp_flags :: "bool \<Rightarrow> bool \<Rightarrow> byte" where
  "hp_flags leaf od = ((if leaf then 2 else 0) OR (if od then 1 else 0)) * 16"

function hp_from :: "bytes \<Rightarrow> nat \<Rightarrow> nat \<Rightarrow> exn + bytes" where
  "hp_from hv i e =
     (if i < e
      then bindE (read_at hv i) (\<lambda>a. bindE (read_at hv (i + 1)) (\<lambda>b.
           bindE (hp_from hv (i + 2) e) (\<lambda>r. Inr ((a * 16 + b) # r))))
      else Inr [])"
  by pat_completeness auto
termination
  by (relation "measure (\<lambda>(hv, i, e). e - i)") auto

declare hp_from.simps [simp del]

text \<open>The overload on a vector of nibbles. The parity of the unsigned difference is that of the difference.\<close>

definition hexPrefixEncode :: "bytes \<Rightarrow> bool \<Rightarrow> nat \<Rightarrow> int \<Rightarrow> exn + bytes" where
  "hexPrefixEncode hv leaf b e =
     (let en = (if e < 0 then nat (int (length hv) + 1 + e) else nat e);
          od = (int en - int b) mod 2 \<noteq> 0
      in if od
         then bindE (read_at hv b) (\<lambda>n. bindE (hp_from hv (b + 1) en) (\<lambda>r. Inr ((hp_flags leaf True OR n) # r)))
         else bindE (hp_from hv b en) (\<lambda>r. Inr (hp_flags leaf False # r)))"

text \<open>Nibble i of a byte string; the callers keep i below twice its length.\<close>

definition nibble :: "bytes \<Rightarrow> nat \<Rightarrow> byte" where
  "nibble d i = (if odd i then d ! (i div 2) AND 15 else drop_bit 4 (d ! (i div 2)))"

text \<open>The overloads on bytes: a counter d whose parity says whether the nibble completes the last byte.\<close>

fun hp_loop :: "nat \<Rightarrow> bytes \<Rightarrow> bytes \<Rightarrow> bytes" where
  "hp_loop d [] ret = ret"
| "hp_loop d (n # ns) ret =
     hp_loop (Suc d) ns (if odd d then butlast ret @ [last ret OR n] else ret @ [push_bit 4 n])"

definition hexPrefixEncode_slice :: "bytes \<Rightarrow> bool \<Rightarrow> nat \<Rightarrow> int \<Rightarrow> nat \<Rightarrow> bytes" where
  "hexPrefixEncode_slice data leaf bn en offset =
     (let b = bn + offset;
          e = nat ((if en < 0 then int (length data) * 2 - int offset + 1 + en else en) + int offset);
          od = ((int e - int b) mod 2 \<noteq> 0)
      in hp_loop (if od then 1 else 2) (map (nibble data) [b..<e]) [hp_flags leaf od])"

definition hexPrefixEncode_two :: "bytes \<Rightarrow> nat \<Rightarrow> bytes \<Rightarrow> nat \<Rightarrow> bool \<Rightarrow> bytes" where
  "hexPrefixEncode_two d1 o1 d2 o2 leaf =
     (let e1 = length d1 * 2; e2 = length d2 * 2;
          od = ((int e1 - int o1 + int e2 - int o2) mod 2 \<noteq> 0)
      in hp_loop (if od then 1 else 2) (map (nibble d1) [o1..<e1] @ map (nibble d2) [o2..<e2]) [hp_flags leaf od])"

section \<open>Nibble slices\<close>

function sharedNibbles :: "bytes \<Rightarrow> nat \<Rightarrow> nat \<Rightarrow> bytes \<Rightarrow> nat \<Rightarrow> nat \<Rightarrow> nat" where
  "sharedNibbles d1 b1 e1 d2 b2 e2 =
     (if b1 < e1 \<and> b2 < e2 \<and> nibble d1 b1 = nibble d2 b2 then Suc (sharedNibbles d1 (Suc b1) e1 d2 (Suc b2) e2) else 0)"
  by pat_completeness auto
termination
  by (relation "measure (\<lambda>(d1, b1, e1, r). e1 - b1)") auto

declare sharedNibbles.simps [simp del]

record nibble_slice =
  ns_data :: bytes
  ns_offset :: nat

definition ns_index :: "nibble_slice \<Rightarrow> nat \<Rightarrow> byte" where
  "ns_index s i = nibble (ns_data s) (ns_offset s + i)"

text \<open>The size is an unsigned difference.\<close>

definition ns_size :: "nibble_slice \<Rightarrow> nat" where
  "ns_size s = nat ((int (length (ns_data s)) * 2 - int (ns_offset s)) mod 2 ^ 32)"

definition ns_empty :: "nibble_slice \<Rightarrow> bool" where
  "ns_empty s = (ns_size s = 0)"

definition ns_mid :: "nat \<Rightarrow> nibble_slice \<Rightarrow> nibble_slice" where
  "ns_mid i s = s\<lparr>ns_offset := ns_offset s + i\<rparr>"

definition ns_clear :: "nibble_slice \<Rightarrow> nibble_slice" where
  "ns_clear s = s\<lparr>ns_data := [], ns_offset := 0\<rparr>"

definition ns_shared :: "nibble_slice \<Rightarrow> nibble_slice \<Rightarrow> nat" where
  "ns_shared s k = sharedNibbles (ns_data s) (ns_offset s) (ns_offset s + ns_size s)
     (ns_data k) (ns_offset k) (ns_offset k + ns_size k)"

definition ns_contains :: "nibble_slice \<Rightarrow> nibble_slice \<Rightarrow> bool" where
  "ns_contains s k = (ns_shared s k = ns_size k)"

function earlier_loop :: "nat \<Rightarrow> nibble_slice \<Rightarrow> nibble_slice \<Rightarrow> bool" where
  "earlier_loop i s k =
     (if i < ns_size k \<and> i < ns_size s
      then if ns_index s i < ns_index k i then True
           else if ns_index s i > ns_index k i then False
           else earlier_loop (Suc i) s k
      else if i \<ge> ns_size k then False else True)"
  by pat_completeness auto
termination
  by (relation "measure (\<lambda>(i, s, k). ns_size s - i)") auto

declare earlier_loop.simps [simp del]

definition ns_isEarlierThan :: "nibble_slice \<Rightarrow> nibble_slice \<Rightarrow> bool" where
  "ns_isEarlierThan s k = earlier_loop 0 s k"

definition ns_eq :: "nibble_slice \<Rightarrow> nibble_slice \<Rightarrow> bool" where
  "ns_eq s k \<longleftrightarrow> ns_size k = ns_size s \<and> ns_shared s k = ns_size k"

definition isLeaf_payload :: "bytes \<Rightarrow> exn + bool" where
  "isLeaf_payload pl = bindE (read_at pl 0) (\<lambda>b. Inr (b AND 0x20 \<noteq> 0))"

definition isLeaf :: "bytes \<Rightarrow> exn + bool" where
  "isLeaf twoItem = bindE (rlp_at twoItem 0) (\<lambda>r. bindE (payload r) isLeaf_payload)"

definition keyOf :: "bytes \<Rightarrow> nibble_slice" where
  "keyOf hpe =
     (if length hpe = 0 then \<lparr>ns_data = hpe, ns_offset = 0\<rparr>
      else if hpe ! 0 AND 0x10 \<noteq> 0 then \<lparr>ns_data = hpe, ns_offset = 1\<rparr>
      else \<lparr>ns_data = hpe, ns_offset = 2\<rparr>)"

definition keyOf_item :: "bytes \<Rightarrow> exn + nibble_slice" where
  "keyOf_item twoItem = bindE (rlp_at twoItem 0) (\<lambda>r. bindE (payload r) (\<lambda>p. Inr (keyOf p)))"

definition ns_list :: "nibble_slice \<Rightarrow> bytes" where
  "ns_list s = map (ns_index s) [0..<ns_size s]"

fun unique_loop :: "bytes \<Rightarrow> byte \<Rightarrow> nat list \<Rightarrow> byte \<Rightarrow> exn + byte" where
  "unique_loop orig except [] used = Inr used"
| "unique_loop orig except (i # js) used =
     (if i \<noteq> unat except
      then bindE (rlp_at orig i) (\<lambda>x.
             if \<not> isEmpty x then (if used = 255 then unique_loop orig except js (word_of_nat i) else Inr 255)
             else unique_loop orig except js used)
      else unique_loop orig except js used)"

definition uniqueInUse :: "bytes \<Rightarrow> byte \<Rightarrow> exn + byte" where
  "uniqueInUse orig except = unique_loop orig except [0..<17] 255"

section \<open>The hexary trie\<close>

text \<open>A range of a \<open>HexMap\<close> is the list of its entries, in key order.\<close>

type_synonym entries = "(bytes \<times> bytes) list"

function shared_loop :: "bytes \<Rightarrow> bytes \<Rightarrow> nat \<Rightarrow> nat \<Rightarrow> nat" where
  "shared_loop a b x sh = (if sh < x \<and> a ! sh = b ! sh then shared_loop a b x (Suc sh) else sh)"
  by pat_completeness auto
termination
  by (relation "measure (\<lambda>(a, b, x, sh). x - sh)") auto

declare shared_loop.simps [simp del]

fun sharedPre_loop :: "nat \<Rightarrow> bytes \<Rightarrow> bytes list \<Rightarrow> nat \<Rightarrow> nat" where
  "sharedPre_loop pre a [] sp = sp"
| "sharedPre_loop pre a (b # bs) sp =
     (if sp = 0 then sp
      else let x = min sp (min (length a) (length b)); shared = shared_loop a b x pre
           in sharedPre_loop pre a bs (min shared sp))"

text \<open>The loop starts from \<open>(unsigned)-1\<close>.\<close>

definition sharedPre :: "nat \<Rightarrow> bytes \<Rightarrow> bytes list \<Rightarrow> nat" where
  "sharedPre pre a bs = sharedPre_loop pre a bs (2 ^ 32 - 1)"

text \<open>The inner loop of the branch case: the entries that continue with nibble i, and the rest.\<close>

fun take_group :: "nat \<Rightarrow> nat \<Rightarrow> entries \<Rightarrow> exn + entries \<times> entries" where
  "take_group pre i [] = Inr ([], [])"
| "take_group pre i (e # es) =
     bindE (read_at (fst e) pre) (\<lambda>n.
       if unat n = i then bindE (take_group pre i es) (\<lambda>(g, r). Inr (e # g, r)) else Inr ([], e # es))"

fun take_groups :: "nat \<Rightarrow> nat list \<Rightarrow> entries \<Rightarrow> exn + entries list" where
  "take_groups pre [] b = Inr []"
| "take_groups pre (i # js) b =
     bindE (take_group pre i b) (\<lambda>(g, r). bindE (take_groups pre js r) (\<lambda>gs. Inr (g # gs)))"

text \<open>The tail of \<open>hash256aux\<close>: a node shorter than a hash is embedded, a longer one is referred to by its hash.\<close>

definition append_node :: "bytes \<Rightarrow> stream \<Rightarrow> exn + stream" where
  "append_node d s = (if length d < 32 then appendRaw d 1 s else append_hash 32 (sha3 d) s)"

lemma bindE_cong [fundef_cong]:
  "m = m' \<Longrightarrow> (\<And>x. m' = Inr x \<Longrightarrow> f x = f' x) \<Longrightarrow> bindE m f = bindE m' f'"
  by (cases m') auto

definition max_key :: "entries \<Rightarrow> nat" where
  "max_key es = foldr (\<lambda>e. max (length (fst e))) es 0"

lemma max_key_ge: "e \<in> set es \<Longrightarrow> length (fst e) \<le> max_key es"
  by (induction es) (auto simp: max_key_def)

lemma max_key_le: "\<forall>e \<in> set es. length (fst e) \<le> n \<Longrightarrow> max_key es \<le> n"
  by (induction es) (auto simp: max_key_def)

lemma take_group_spec:
  "take_group pre i es = Inr (g, r) \<Longrightarrow> es = g @ r \<and> (\<forall>e \<in> set g. pre < length (fst e))"
  by (induction es arbitrary: g r) (fastforce simp: bindE_Inr_iff read_at_def split: if_splits)+

lemma take_groups_spec:
  "take_groups pre js b = Inr gs \<Longrightarrow> g \<in> set gs \<Longrightarrow> set g \<subseteq> set b \<and> (\<forall>e \<in> set g. pre < length (fst e))"
proof (induction js arbitrary: b gs)
  case (Cons i js)
  then obtain g' r gs' where r: "take_group pre i b = Inr (g', r)" "take_groups pre js r = Inr gs'" "gs = g' # gs'"
    by (auto simp: bindE_Inr_iff)
  have b: "b = g' @ r" "\<forall>e \<in> set g'. pre < length (fst e)" using take_group_spec [OF r(1)] by auto
  show ?case
  proof (cases "g = g'")
    case True
    then show ?thesis using b by auto
  next
    case False
    then have "g \<in> set gs'" using Cons.prems(2) r(3) by simp
    then show ?thesis using Cons.IH [OF r(2)] b by auto
  qed
qed simp

lemma shared_loop_le: "shared_loop a b x sh \<le> max sh x"
proof (induction a b x sh rule: shared_loop.induct)
  case (1 a b x sh)
  then show ?case by (subst shared_loop.simps) auto
qed

lemma sharedPre_loop_le: "sharedPre_loop pre a bs sp \<le> sp"
  by (induction bs arbitrary: sp) (auto simp: Let_def intro: order_trans [OF _ min.cobounded2])

lemma sharedPre_le: "sharedPre pre a (b # bs) \<le> max pre (length a)"
proof -
  let ?x = "min (2 ^ 32 - 1) (min (length a) (length b))"
  have "sharedPre pre a (b # bs) \<le> shared_loop a b ?x pre"
    using sharedPre_loop_le [of pre a bs "min (shared_loop a b ?x pre) (2 ^ 32 - 1)"]
    by (simp add: sharedPre_def Let_def)
  also have "\<dots> \<le> max pre (length a)" using shared_loop_le [of a b ?x pre] by linarith
  finally show ?thesis .
qed

lemma max_key_group:
  assumes "take_groups pre js b = Inr gs" "g \<in> set gs" "g \<noteq> []" "set b \<subseteq> set es"
  shows "max_key g - (pre + 1) < max_key es - pre"
proof -
  note sub = take_groups_spec [OF assms(1,2)]
  obtain x where x: "x \<in> set g" using assms(3) by (cases g) auto
  have "pre < max_key g" using max_key_ge [OF x] sub x by fastforce
  moreover have "max_key g \<le> max_key es"
    using sub assms(4) by (intro max_key_le) (auto intro!: max_key_ge)
  ultimately show ?thesis by simp
qed

lemma max_key_shared:
  assumes "sharedPre pre (fst e) (map fst (e2 # es)) > pre"
  shows "max_key (e # e2 # es) - sharedPre pre (fst e) (map fst (e2 # es)) < max_key (e # e2 # es) - pre"
  using sharedPre_le [of pre "fst e" "fst e2" "map fst es"] assms max_key_ge [of e "e # e2 # es"] by simp

function (sequential) hash256rlp :: "entries \<Rightarrow> nat \<Rightarrow> stream \<Rightarrow> exn + stream" where
  "hash256rlp [] pre s = append_bytes [] False s"
| "hash256rlp [e] pre s =
     bindE (hexPrefixEncode (fst e) True pre (- 1)) (\<lambda>hp.
     bindE (appendList 2 s) (seqE [append_bytes hp False, append_bytes (snd e) False]))"
| "hash256rlp (e # e2 # es) pre s =
     (let sp = sharedPre pre (fst e) (map fst (e2 # es)) in
      if sp > pre
      then bindE (hexPrefixEncode (fst e) False pre (int sp)) (\<lambda>hp.
           bindE (appendList 2 s) (seqE
             [append_bytes hp False,
              \<lambda>t. bindE (bindE (hash256rlp (e # e2 # es) sp empty_stream) out) (\<lambda>d. append_node d t)]))
      else bindE (take_groups pre [0..<16] (if pre = length (fst e) then e2 # es else e # e2 # es)) (\<lambda>gs.
           bindE (appendList 17 s) (seqE
             (map (\<lambda>g t. if g = [] then append_bytes [] False t
                         else bindE (bindE (hash256rlp g (pre + 1) empty_stream) out) (\<lambda>d. append_node d t)) gs @
              [append_bytes (if pre = length (fst e) then snd e else []) False]))))"
  by pat_completeness auto
termination
proof (relation "measure (\<lambda>(es, pre, s). max_key es - pre)", goal_cases)
  case (2 e e2 es pre s sp)
  then show ?case using max_key_shared [of pre e e2 es] by simp
next
  case (3 e e2 es pre s sp gs)
  then show ?case using max_key_group [OF 3(3), of _ "e # e2 # es"] by (auto split: if_splits)
qed simp_all

definition hash256aux :: "entries \<Rightarrow> nat \<Rightarrow> stream \<Rightarrow> exn + stream" where
  "hash256aux es pre s = bindE (bindE (hash256rlp es pre empty_stream) out) (\<lambda>d. append_node d s)"

type_synonym bytes_map = "(bytes, bytes) stdmap"

text \<open>The nibble keys are written into the \<open>HexMap\<close> from the last entry to the first.\<close>

definition trieRLP256 :: "bytes_map \<Rightarrow> exn + bytes" where
  "trieRLP256 m =
     (if m = [] then getRLPData (append_bytes [] False)
      else getRLPData (hash256rlp (foldr (\<lambda>(k, v). om_put (asNibbles k) v) m []) 0))"

definition trieHash256 :: "bytes_map \<Rightarrow> exn + h256" where
  "trieHash256 m = bindE (trieRLP256 m) (\<lambda>d. Inr (sha3 d))"

text \<open>\<open>EmptyTrie\<close>\<close>

definition EmptyTrie :: "exn + h256" where
  "EmptyTrie = bindE (getRLPData (append_bytes [] False)) (\<lambda>d. Inr (sha3 d))"

text \<open>\<open>bytesMap[rlp(i++)] = item\<close>; the counter is an \<open>unsigned\<close>.\<close>

fun root_loop :: "u32 \<Rightarrow> bytes list \<Rightarrow> bytes_map \<Rightarrow> exn + bytes_map" where
  "root_loop i [] m = Inr m"
| "root_loop i (d # ds) m = bindE (getRLPData (append_unsigned i)) (\<lambda>k. root_loop (i + 1) ds (om_put k d m))"

definition trieRoot :: "bytes list \<Rightarrow> exn + h256" where
  "trieRoot data = bindE (root_loop 0 data []) trieHash256"

section \<open>The roots of a block\<close>

definition block_getTransactionMerkle :: "block \<Rightarrow> h256" where
  "block_getTransactionMerkle b = merkle (map transaction_getHash (b_transactions b))"

fun roots_loop :: "u32 \<Rightarrow> transaction list \<Rightarrow> bytes_map \<Rightarrow> exn + bytes_map" where
  "roots_loop i [] m = Inr m"
| "roots_loop i (t # ts) m =
     bindE (getRLPData (append_unsigned i)) (\<lambda>k.
     bindE (getRLPData (transaction_streamRLP t)) (\<lambda>d. roots_loop (i + 1) ts (om_emplace k d m)))"

text \<open>The receipts map stays empty.\<close>

definition block_setRoots :: "block \<Rightarrow> exn + block" where
  "block_setRoots b =
     bindE (roots_loop 0 (b_transactions b) []) (\<lambda>m.
     bindE (trieHash256 m) (\<lambda>t. bindE (trieHash256 []) (\<lambda>r.
       Inr (b\<lparr>b_header := header_setRoots (block_getTransactionMerkle b) t r (b_header b)\<rparr>))))"

section \<open>The merkle root is the balanced hash tree\<close>

abbreviation merkle_node :: "h256 \<Rightarrow> h256 \<Rightarrow> h256" where
  "merkle_node l r \<equiv> sha3_pair (makeTriePair l r)"

fun pair_up :: "h256 list \<Rightarrow> h256 list" where
  "pair_up (a # b # hs) = merkle_node a b # pair_up hs"
| "pair_up [a] = [merkle_node a a]"
| "pair_up [] = []"

lemma length_pair_up: "length (pair_up hs) = (length hs + 1) div 2"
  by (induction hs rule: pair_up.induct) auto

function tree_root :: "h256 list \<Rightarrow> h256" where
  "tree_root hs = (if length hs > 1 then tree_root (pair_up hs) else if hs = [] then 0 else hd hs)"
  by pat_completeness auto
termination
  by (relation "measure length") (simp_all add: length_pair_up)

declare tree_root.simps [simp del]

text \<open>The assignment at i has overwritten no hash that a later one reads.\<close>

lemma foldl_merkle:
  "2 * n \<le> length ids \<Longrightarrow>
   foldl merkle_step ids [0..<n] = map (\<lambda>i. merkle_node (ids ! (2 * i)) (ids ! (2 * i + 1))) [0..<n] @ drop n ids"
proof (induction n)
  case (Suc n)
  let ?ms = "map (\<lambda>i. merkle_node (ids ! (2 * i)) (ids ! (2 * i + 1))) [0..<n]"
  have nth: "(?ms @ drop n ids) ! (2 * n) = ids ! (2 * n)" "(?ms @ drop n ids) ! (2 * n + 1) = ids ! (2 * n + 1)"
    using Suc.prems by (simp_all add: nth_append mult_2)
  have "(drop n ids)[0 := x] = x # drop (Suc n) ids" for x
    using Suc.prems by (subst Cons_nth_drop_Suc [symmetric]) simp_all
  then have "merkle_step (?ms @ drop n ids) n = (?ms @ [merkle_node (ids ! (2 * n)) (ids ! (2 * n + 1))]) @ drop (Suc n) ids"
    unfolding merkle_step_def nth by (simp add: list_update_append)
  then show ?case using Suc by simp
qed simp

lemma pair_up_even: "even (length hs) \<Longrightarrow>
    pair_up hs = map (\<lambda>i. merkle_node (hs ! (2 * i)) (hs ! (2 * i + 1))) [0..<length hs div 2]"
proof (induction hs rule: pair_up.induct)
  case (1 a b hs)
  then show ?case by (simp add: upt_conv_Cons map_Suc_upt [symmetric] del: upt_Suc)
qed auto

lemma pair_up_odd: "odd (length hs) \<Longrightarrow> pair_up (hs @ [last hs]) = pair_up hs"
  by (induction hs rule: pair_up.induct) auto

lemma merkle_round_pairs: "merkle_round ids = pair_up ids"
proof -
  define js where "js = (if length ids mod 2 \<noteq> 0 then ids @ [last ids] else ids)"
  have ev: "even (length js)" by (auto simp: js_def)
  have "take (length js div 2) (foldl merkle_step js [0..<length js div 2]) = pair_up js"
    using ev by (simp add: foldl_merkle pair_up_even)
  moreover have "pair_up js = pair_up ids" using pair_up_odd [of ids] by (auto simp: js_def even_iff_mod_2_eq_zero)
  ultimately show ?thesis by (simp add: merkle_round_def js_def Let_def)
qed

lemma merkle_loop_tree: "ids \<noteq> [] \<Longrightarrow> merkle_loop ids = tree_root ids"
proof (induction ids rule: merkle_loop.induct)
  case (1 ids)
  show ?case
  proof (cases "length ids > 1")
    case True
    have "merkle_round ids \<noteq> []" using length_merkle_round [of ids] True by auto
    from 1(1) [OF True this] show ?thesis
      using True by (subst merkle_loop.simps, subst tree_root.simps) (simp add: merkle_round_pairs)
  next
    case False
    then show ?thesis using 1(2) by (subst merkle_loop.simps, subst tree_root.simps) simp
  qed
qed

text \<open>C24. The merkle root computed by overwriting the vector in place is the root of the balanced hash tree
  over the transaction hashes, 0 when there are none.\<close>

theorem merkle_tree: "merkle ids = tree_root ids"
  by (cases "ids = []") (simp_all add: merkle_def merkle_loop_tree, simp add: tree_root.simps)

text \<open>The root does not determine the transactions: from a list of odd length, at least three, repeating the
  last hash gives another list with the same root.\<close>

theorem merkle_duplicate:
  assumes "odd (length ids)" "length ids > 1"
  shows "merkle (ids @ [last ids]) = merkle ids"
proof -
  have "tree_root (ids @ [last ids]) = tree_root (pair_up (ids @ [last ids]))"
    using assms(2) tree_root.simps [of "ids @ [last ids]"] by auto
  also have "\<dots> = tree_root (pair_up ids)" using pair_up_odd [OF assms(1)] by simp
  also have "\<dots> = tree_root ids" using assms(2) tree_root.simps [of ids] by simp
  finally show ?thesis using assms(2) by (auto simp: merkle_def merkle_loop_tree)
qed

theorem merkle_duplicate_witness: "merkle [1, 2, 3, 3] = merkle [1, 2, 3]"
  using merkle_duplicate [of "[1, 2, 3]"] by simp

section \<open>Paths\<close>

fun hp_pairs :: "bytes \<Rightarrow> bytes" where
  "hp_pairs (a # b # ns) = (a * 16 + b) # hp_pairs ns"
| "hp_pairs _ = []"

definition hp_value :: "bool \<Rightarrow> bytes \<Rightarrow> bytes" where
  "hp_value leaf ns =
     (if odd (length ns) then (hp_flags leaf True OR hd ns) # hp_pairs (tl ns) else hp_flags leaf False # hp_pairs ns)"

abbreviation nibbles :: "bytes \<Rightarrow> bool" where
  "nibbles ns \<equiv> list_all (\<lambda>n. n < 16) ns"

definition all_nibbles :: bytes where
  "all_nibbles = [0, 1, 2, 3, 4, 5, 6, 7, 8, 9, 10, 11, 12, 13, 14, 15]"

lemma nibble_cases:
  assumes "(n :: byte) < 16"
  shows "n \<in> set all_nibbles"
proof -
  have "unat n < 16" using assms by (simp add: word_less_nat_alt)
  then have "unat n \<in> {0, 1, 2, 3, 4, 5, 6, 7, 8, 9, 10, 11, 12, 13, 14, 15}"
    by (simp only: insert_iff empty_iff simp_thms) presburger
  then have "(word_of_nat (unat n) :: byte) \<in> word_of_nat ` {0, 1, 2, 3, 4, 5, 6, 7, 8, 9, 10, 11, 12, 13, 14, 15}" by blast
  then show ?thesis by (simp add: all_nibbles_def)
qed

lemma flags_table: "list_all (\<lambda>n. list_all (\<lambda>l. (hp_flags l True OR n) mod 16 = n \<and>
    (hp_flags l True OR n) AND 0x10 \<noteq> 0 \<and> ((hp_flags l True OR n) AND 0x20 \<noteq> 0) = l) [True, False]) all_nibbles"
  by code_simp

lemma flags_nibble:
  assumes "n < 16"
  shows "(hp_flags leaf True OR n) mod 16 = n" "(hp_flags leaf True OR n) AND 0x10 \<noteq> 0"
    "(hp_flags leaf True OR n) AND 0x20 \<noteq> 0 \<longleftrightarrow> leaf"
proof -
  have "\<forall>n \<in> set all_nibbles. \<forall>l \<in> set [True, False]. (hp_flags l True OR n) mod 16 = n \<and>
    (hp_flags l True OR n) AND 0x10 \<noteq> 0 \<and> ((hp_flags l True OR n) AND 0x20 \<noteq> 0) = l"
    using flags_table unfolding list_all_iff .
  moreover have "leaf \<in> set [True, False]" by auto
  ultimately have "(hp_flags leaf True OR n) mod 16 = n \<and> (hp_flags leaf True OR n) AND 0x10 \<noteq> 0 \<and>
    ((hp_flags leaf True OR n) AND 0x20 \<noteq> 0) = leaf"
    using nibble_cases [OF assms] by blast
  then show "(hp_flags leaf True OR n) mod 16 = n" "(hp_flags leaf True OR n) AND 0x10 \<noteq> 0"
    "(hp_flags leaf True OR n) AND 0x20 \<noteq> 0 \<longleftrightarrow> leaf" by - (elim conjE, assumption)+
qed

lemma flags_even_table: "hp_flags True False = 0x20 \<and> hp_flags False False = 0 \<and> (0x20 :: byte) AND 0x10 = 0 \<and>
    (0x20 :: byte) AND 0x20 \<noteq> 0"
  by code_simp

lemma flags_even: "hp_flags leaf False AND 0x10 = 0" "hp_flags leaf False AND 0x20 \<noteq> 0 \<longleftrightarrow> leaf"
  using flags_even_table by (cases leaf, simp_all only: and_zero_eq zero_and_eq simp_thms)+

lemma pair_table: "list_all (\<lambda>a. list_all (\<lambda>b. (a * 16 + b) div 16 = a \<and> (a * 16 + b) mod 16 = b \<and>
    push_bit 4 a OR b = a * 16 + b) all_nibbles) all_nibbles"
  by code_simp

lemma pair_nibbles:
  assumes "(a :: byte) < 16" "b < 16"
  shows "(a * 16 + b) div 16 = a" "(a * 16 + b) mod 16 = b" "push_bit 4 a OR b = a * 16 + b"
proof -
  have "\<forall>a \<in> set all_nibbles. \<forall>b \<in> set all_nibbles. (a * 16 + b) div 16 = a \<and> (a * 16 + b) mod 16 = b \<and>
      push_bit 4 a OR b = a * 16 + b" using pair_table unfolding list_all_iff .
  then have "(a * 16 + b) div 16 = a \<and> (a * 16 + b) mod 16 = b \<and> push_bit 4 a OR b = a * 16 + b"
    using nibble_cases assms by blast
  then show "(a * 16 + b) div 16 = a" "(a * 16 + b) mod 16 = b" "push_bit 4 a OR b = a * 16 + b" by - (elim conjE, assumption)+
qed

lemma asNibbles_pairs: "even (length ns) \<Longrightarrow> nibbles ns \<Longrightarrow> asNibbles (hp_pairs ns) = ns"
  by (induction ns rule: hp_pairs.induct) (auto simp: pair_nibbles)

end
