(* ===== verification/TrieSpec.thy ===== *)
theory TrieSpec
  imports Trie
begin

text \<open>
  What the trie builder promises: a trie as a datatype with its lookup function and its encoding, and the
  refinement of \<open>hash256rlp\<close> to it. The overloads of \<open>hexPrefixEncode\<close> are shown to agree and to be inverted by
  \<open>keyOf\<close> and \<open>isLeaf\<close>.
\<close>

section \<open>Paths\<close>

lemma hp_from_pairs:
  assumes "i \<le> e" "e \<le> length hv" "even (e - i)"
  shows "hp_from hv i e = Inr (hp_pairs (take (e - i) (drop i hv)))"
  using assms
proof (induction hv i e rule: hp_from.induct)
  case (1 hv i e)
  show ?case
  proof (cases "i < e")
    case True
    then have e: "e \<ge> i + 2" using 1(4) by presburger
    have "drop i hv = hv ! i # hv ! (i + 1) # drop (i + 2) hv"
      using e 1(3) by (simp add: Cons_nth_drop_Suc)
    moreover have "e - i = Suc (Suc (e - (i + 2)))" using e by simp
    ultimately have "take (e - i) (drop i hv) = hv ! i # hv ! (i + 1) # take (e - (i + 2)) (drop (i + 2) hv)" by simp
    moreover have "hp_from hv (i + 2) e = Inr (hp_pairs (take (e - (i + 2)) (drop (i + 2) hv)))"
      by (rule 1(1)) (use True e 1 in \<open>auto simp: read_at_def\<close>)
    ultimately show ?thesis using True e 1(3) by (subst hp_from.simps) (simp add: read_at_def)
  next
    case False
    then show ?thesis using 1 by (subst hp_from.simps) simp
  qed
qed

lemma hexPrefixEncode_value:
  assumes "b \<le> en" "en \<le> length hv" "en = (if e < 0 then nat (int (length hv) + 1 + e) else nat e)"
  shows "hexPrefixEncode hv leaf b e = Inr (hp_value leaf (take (en - b) (drop b hv)))"
proof -
  let ?ns = "take (en - b) (drop b hv)"
  have len: "length ?ns = en - b" using assms(1,2) by simp
  have par: "(int en - int b) mod 2 \<noteq> 0 \<longleftrightarrow> odd (en - b)" using assms(1) by presburger
  show ?thesis
  proof (cases "odd (en - b)")
    case True
    then have "en - b \<noteq> 0" by (rule odd_pos [THEN less_imp_neq, symmetric])
    then have b: "b < en" by simp
    then have ns: "?ns = hv ! b # take (en - (b + 1)) (drop (b + 1) hv)"
      using assms(2) by (simp add: take_Suc_conv_app_nth Cons_nth_drop_Suc [symmetric, of b] Suc_diff_Suc [symmetric])
    have "even (en - (b + 1))" using True b by presburger
    then have "hp_from hv (b + 1) en = Inr (hp_pairs (take (en - (b + 1)) (drop (b + 1) hv)))"
      using b assms(2) by (intro hp_from_pairs) auto
    then show ?thesis using True par len assms(1,2) b ns
      unfolding hexPrefixEncode_def Let_def assms(3) [symmetric] by (simp add: hp_value_def read_at_def)
  next
    case False
    then have "hp_from hv b en = Inr (hp_pairs ?ns)" using assms(1,2) by (intro hp_from_pairs) auto
    then show ?thesis using False par len
      unfolding hexPrefixEncode_def Let_def assms(3) [symmetric] by (simp add: hp_value_def)
  qed
qed

lemma hexPrefixEncode_all: "hexPrefixEncode hv leaf 0 (- 1) = Inr (hp_value leaf hv)"
  using hexPrefixEncode_value [of 0 "length hv" hv "- 1" leaf] by simp

lemma nth_asNibbles: "i < 2 * length d \<Longrightarrow> nibble d i = asNibbles d ! i"
proof (induction d arbitrary: i rule: asNibbles.induct)
  case (2 b bs)
  have hi: "drop_bit 4 b = b div 16" by (simp add: drop_bit_eq_div)
  have lo: "b AND 15 = b mod 16"
    using take_bit_eq_mask [of 4 b] by (simp add: mask_eq_exp_minus_1 take_bit_eq_mod)
  show ?case
  proof (cases "i < 2")
    case True
    then have "i = 0 \<or> i = 1" by auto
    then show ?thesis using hi lo by (auto simp: nibble_def)
  next
    case False
    then obtain j where j: "i = Suc (Suc j)" by (metis add_2_eq_Suc le_Suc_ex not_less)
    have "nibble (b # bs) i = nibble bs j" by (simp add: nibble_def j)
    then show ?thesis using 2 j by simp
  qed
qed simp

lemma map_nibble: "e \<le> 2 * length d \<Longrightarrow> map (nibble d) [b..<e] = take (e - b) (drop b (asNibbles d))"
  by (rule nth_equalityI) (auto simp: nth_asNibbles)

lemma nibbles_asNibbles: "nibbles (asNibbles d)"
proof (induction d)
  case (Cons b d)
  have "unat (b div 16) < 16" "unat (b mod 16) < 16"
    using byte_bound [of b] by (simp_all add: unat_div unat_mod less_mult_imp_div_less)
  then show ?case using Cons by (simp add: word_less_nat_alt)
qed simp

lemma hp_loop_even:
  assumes "even d" "even (length ns)" "nibbles ns"
  shows "hp_loop d ns ret = ret @ hp_pairs ns"
  using assms
  by (induction ns arbitrary: d ret rule: hp_pairs.induct) (auto simp: pair_nibbles(3))

lemma hp_loop_value:
  assumes "nibbles ns" "od = odd (length ns)"
  shows "hp_loop (if od then 1 else 2) ns [hp_flags leaf od] = hp_value leaf ns"
proof (cases od)
  case True
  then obtain n ms where ns: "ns = n # ms" using assms(2) by (cases ns) auto
  have "hp_loop (Suc 1) ms [hp_flags leaf True OR n] = [hp_flags leaf True OR n] @ hp_pairs ms"
    by (rule hp_loop_even) (use assms True ns in auto)
  then show ?thesis using assms True ns by (simp add: hp_value_def)
next
  case False
  then show ?thesis using assms hp_loop_even [of 2 ns "[hp_flags leaf False]"] by (simp add: hp_value_def)
qed

lemma ns_list_drop:
  assumes "length d * 2 < 2 ^ 32" "k \<le> length d * 2"
  shows "ns_list \<lparr>ns_data = d, ns_offset = k\<rparr> = drop k (asNibbles d)"
proof -
  have sz: "ns_size \<lparr>ns_data = d, ns_offset = k\<rparr> = length d * 2 - k"
    using assms by (simp add: ns_size_def)
  show ?thesis
    by (rule nth_equalityI) (use assms in \<open>auto simp: ns_list_def sz ns_index_def nth_asNibbles\<close>)
qed

lemma length_hp_pairs: "length (hp_pairs ns) = length ns div 2"
  by (induction ns rule: hp_pairs.induct) auto

lemma length_hp_value: "length (hp_value leaf ns) = Suc (length ns div 2)"
  by (auto simp: hp_value_def length_hp_pairs elim: oddE)

lemma keyOf_value:
  assumes "nibbles ns" "length ns < 2 ^ 31"
  shows "ns_list (keyOf (hp_value leaf ns)) = ns"
proof (cases "odd (length ns)")
  case True
  then obtain n ms where ns: "ns = n # ms" by (cases ns) auto
  have v: "hp_value leaf ns = (hp_flags leaf True OR n) # hp_pairs ms" using True ns by (simp add: hp_value_def)
  have k: "keyOf (hp_value leaf ns) = \<lparr>ns_data = hp_value leaf ns, ns_offset = 1\<rparr>"
    unfolding keyOf_def v using assms(1) ns flags_nibble(2) [of n leaf] by simp
  have ev: "even (length ms)" "nibbles ms" "n < 16" using True assms(1) ns by auto
  have "asNibbles (hp_value leaf ns) = ((hp_flags leaf True OR n) div 16) # n # ms"
    using ev by (simp only: v asNibbles.simps flags_nibble(1) asNibbles_pairs)
  then have "drop 1 (asNibbles (hp_value leaf ns)) = ns" by (simp add: ns)
  moreover have "length (hp_value leaf ns) * 2 < 2 ^ 32" "1 \<le> length (hp_value leaf ns) * 2"
    using assms(2) by (simp_all add: length_hp_value)
  ultimately show ?thesis using ns_list_drop [of "hp_value leaf ns" 1] k by simp
next
  case False
  have v: "hp_value leaf ns = hp_flags leaf False # hp_pairs ns" using False by (simp add: hp_value_def)
  have k: "keyOf (hp_value leaf ns) = \<lparr>ns_data = hp_value leaf ns, ns_offset = 2\<rparr>"
    unfolding keyOf_def v using flags_even(1) [of leaf] by simp
  have "drop 2 (asNibbles (hp_value leaf ns)) = ns" using False assms(1) by (simp add: v asNibbles_pairs)
  moreover have "length (hp_value leaf ns) * 2 < 2 ^ 32" "2 \<le> length (hp_value leaf ns) * 2"
    using assms(2) by (simp_all add: length_hp_value)
  ultimately show ?thesis using ns_list_drop [of "hp_value leaf ns" 2] k by simp
qed

lemma leaf_value: "nibbles ns \<Longrightarrow> isLeaf_payload (hp_value leaf ns) = Inr leaf"
proof (cases "odd (length ns)")
  case True
  assume nib: "nibbles ns"
  obtain n ms where ns: "ns = n # ms" using True by (cases ns) auto
  then show ?thesis using True nib flags_nibble(3) [of n leaf]
    by (simp only: isLeaf_payload_def read_at_def hp_value_def) simp
next
  case False
  then show ?thesis using flags_even(2) [of leaf]
    by (simp only: isLeaf_payload_def read_at_def hp_value_def) simp
qed

text \<open>C35. Hex-prefix round trip: encoding a path of nibbles succeeds, \<open>keyOf\<close> reads the path back from the bytes and the
  leaf flag is the one that was written; the overload that takes bytes encodes their nibbles.\<close>

theorem hex_prefix_roundtrip:
  assumes "list_all (\<lambda>n. n < 16) ns" "length ns < 2 ^ 31" "2 * length d < 2 ^ 31"
  shows "\<exists>hp. hexPrefixEncode ns leaf 0 (- 1) = Inr hp \<and> ns_list (keyOf hp) = ns \<and> isLeaf_payload hp = Inr leaf \<and>
    hexPrefixEncode (asNibbles d) leaf 0 (- 1) = Inr (hexPrefixEncode_slice d leaf 0 (- 1) 0)"
proof -
  have "hexPrefixEncode_slice d leaf 0 (- 1) 0 = hp_value leaf (asNibbles d)"
  proof -
    have "nat (int (length d) * 2 + 1 + - 1) = 2 * length d" by simp
    moreover have "map (nibble d) [0..<2 * length d] = asNibbles d" using map_nibble [of "2 * length d" d 0] by simp
    ultimately show ?thesis using hp_loop_value [OF nibbles_asNibbles [of d], of False leaf]
      by (simp add: hexPrefixEncode_slice_def Let_def)
  qed
  then have "hexPrefixEncode ns leaf 0 (- 1) = Inr (hp_value leaf ns) \<and> ns_list (keyOf (hp_value leaf ns)) = ns \<and>
      isLeaf_payload (hp_value leaf ns) = Inr leaf \<and>
      hexPrefixEncode (asNibbles d) leaf 0 (- 1) = Inr (hexPrefixEncode_slice d leaf 0 (- 1) 0)"
    using keyOf_value [OF assms(1,2)] leaf_value [OF assms(1)] hexPrefixEncode_all by simp
  then show ?thesis by blast
qed

theorem hex_prefix_roundtrip_witness:
  "\<exists>hp. hexPrefixEncode [1, 2, 3] True 0 (- 1) = Inr hp \<and> ns_list (keyOf hp) = [1, 2, 3] \<and> isLeaf_payload hp = Inr True \<and>
    hexPrefixEncode (asNibbles [0x12]) True 0 (- 1) = Inr (hexPrefixEncode_slice [0x12] True 0 (- 1) 0)"
  using hex_prefix_roundtrip [of "[1, 2, 3]" "[0x12]" True] by simp

section \<open>Tries\<close>

datatype node = Empty | LeafNode bytes bytes | Extension bytes node | Branch "node list" bytes

fun node_lookup :: "node \<Rightarrow> bytes \<Rightarrow> bytes option" where
  "node_lookup Empty k = None"
| "node_lookup (LeafNode p v) k = (if k = p then Some v else None)"
| "node_lookup (Extension p n) k = (if take (length p) k = p then node_lookup n (drop (length p) k) else None)"
| "node_lookup (Branch ns v) [] = (if v = [] then None else Some v)"
| "node_lookup (Branch ns v) (x # k) = (if unat x < length ns then node_lookup (ns ! unat x) k else None)"

definition node_ref :: "bytes \<Rightarrow> bytes" where
  "node_ref d = (if length d < 32 then d else rlp_hash 32 (sha3 d))"

fun node_bytes :: "node \<Rightarrow> bytes" where
  "node_bytes Empty = rlp_str []"
| "node_bytes (LeafNode p v) = rlp_list (rlp_str (hp_value True p) @ rlp_str v)"
| "node_bytes (Extension p n) = rlp_list (rlp_str (hp_value False p) @ node_ref (node_bytes n))"
| "node_bytes (Branch ns v) = rlp_list (concat (map (\<lambda>n. node_ref (node_bytes n)) ns) @ rlp_str v)"

text \<open>A range of entries that share the prefix P, as the recursion reaches it.\<close>

definition range_ok :: "bytes \<Rightarrow> entries \<Rightarrow> bool" where
  "range_ok P es \<longleftrightarrow> sorted_wrt (<) (map fst es) \<and>
     (\<forall>e \<in> set es. take (length P) (fst e) = P \<and> nibbles (fst e) \<and> length (fst e) < 2 ^ 31 \<and>
        snd e \<noteq> [] \<and> length (snd e) < 2 ^ 59)"

lemma range_okD:
  assumes "range_ok P es" "e \<in> set es"
  shows "take (length P) (fst e) = P" "length P \<le> length (fst e)" "nibbles (fst e)" "length (fst e) < 2 ^ 31"
    "snd e \<noteq> []" "length (snd e) < 2 ^ 59" "fst e = P @ drop (length P) (fst e)"
proof -
  show p: "take (length P) (fst e) = P" and "nibbles (fst e)" "length (fst e) < 2 ^ 31" "snd e \<noteq> []" "length (snd e) < 2 ^ 59"
    using assms by (auto simp: range_ok_def)
  show "length P \<le> length (fst e)" using arg_cong [OF p, of length] by simp
  show "fst e = P @ drop (length P) (fst e)" using append_take_drop_id [of "length P" "fst e"] p by simp
qed

lemma range_ok_sub:
  assumes "range_ok P es" "sorted_wrt (<) (map fst gs)" "set gs \<subseteq> set es" "\<forall>e \<in> set gs. take (length Q) (fst e) = Q"
  shows "range_ok Q gs"
  using assms by (auto simp: range_ok_def)

lemma range_distinct: "range_ok P es \<Longrightarrow> distinct (map fst es)"
  by (simp add: range_ok_def strict_sorted_iff)

subsection \<open>The shared prefix\<close>

lemma shared_loop_spec:
  assumes "take sh a = take sh b" "sh \<le> x" "x \<le> length a" "x \<le> length b"
  shows "sh \<le> shared_loop a b x sh \<and> shared_loop a b x sh \<le> x \<and>
    take (shared_loop a b x sh) a = take (shared_loop a b x sh) b"
  using assms
proof (induction a b x sh rule: shared_loop.induct)
  case (1 a b x sh)
  show ?case
  proof (cases "sh < x \<and> a ! sh = b ! sh")
    case True
    then have "take (Suc sh) a = take (Suc sh) b" using 1 by (simp add: take_Suc_conv_app_nth)
    then show ?thesis using 1(1) [OF True] 1(2-) True by (subst (1 2 3 4) shared_loop.simps) auto
  next
    case False
    then show ?thesis using 1 by (subst (1 2 3 4) shared_loop.simps) auto
  qed
qed

lemma sharedPre_loop_spec:
  assumes "\<forall>b \<in> set bs. take pre a = take pre b \<and> pre \<le> length b" "pre \<le> length a" "pre \<le> sp" "sp \<le> length a"
    "sp' = sharedPre_loop pre a bs sp"
  shows "pre \<le> sp' \<and> sp' \<le> sp \<and> (\<forall>b \<in> set bs. take sp' b = take sp' a)"
  using assms
proof (induction bs arbitrary: sp)
  case (Cons b bs)
  show ?case
  proof (cases "sp = 0")
    case True
    then show ?thesis using Cons.prems by simp
  next
    case False
    define x where "x = min sp (min (length a) (length b))"
    define sh where "sh = shared_loop a b x pre"
    have sh: "pre \<le> sh" "sh \<le> x" "take sh a = take sh b"
      using shared_loop_spec [of pre a b x] Cons.prems by (auto simp: x_def sh_def)
    then have m: "min sh sp = sh" by (simp add: x_def)
    have sp': "sp' = sharedPre_loop pre a bs sh"
      using Cons.prems(5) False m by (simp add: Let_def x_def [symmetric] sh_def [symmetric])
    have "pre \<le> sp' \<and> sp' \<le> sh \<and> (\<forall>b \<in> set bs. take sp' b = take sp' a)"
      using Cons.IH [OF _ _ sh(1) _ sp'] Cons.prems sh by (auto simp: x_def)
    moreover have "take sp' b = take sp' a"
      using sh(3) calculation by (metis min.absorb1 take_take)
    ultimately show ?thesis using sh(2) by (auto simp: x_def)
  qed
qed simp

lemma sharedPre_spec:
  assumes ok: "range_ok P (e # e2 # es)" and sp: "sp = sharedPre (length P) (fst e) (map fst (e2 # es))"
  shows "length P \<le> sp \<and> sp \<le> length (fst e) \<and> (\<forall>x \<in> set (e # e2 # es). take sp (fst x) = take sp (fst e))"
proof -
  let ?pre = "length P" and ?a = "fst e" and ?b = "fst e2"
  note de = range_okD [OF ok, of e, simplified] and d2 = range_okD [OF ok, of e2, simplified]
  define x where "x = min (2 ^ 32 - 1) (min (length ?a) (length ?b))"
  have xle: "x \<le> length ?a" "x \<le> length ?b" "?pre \<le> x" using de d2 by (auto simp: x_def)
  define sh where "sh = shared_loop ?a ?b x ?pre"
  have sh: "?pre \<le> sh" "sh \<le> x" "take sh ?a = take sh ?b"
    using shared_loop_spec [of ?pre ?a ?b x] de d2 xle by (auto simp: sh_def)
  have "sh \<le> 2 ^ 32 - 1" using sh(2) by (simp add: x_def)
  then have spe: "sp = sharedPre_loop ?pre ?a (map fst es) sh"
    by (simp add: sp sharedPre_def Let_def x_def sh_def min_absorb1)
  have all: "\<forall>b \<in> set (map fst es). take ?pre ?a = take ?pre b \<and> ?pre \<le> length b"
  proof
    fix b assume "b \<in> set (map fst es)"
    then obtain y where y: "y \<in> set es" "b = fst y" by auto
    then have "y \<in> set (e # e2 # es)" by simp
    from range_okD(1,2) [OF ok this] show "take ?pre ?a = take ?pre b \<and> ?pre \<le> length b"
      by (simp only: y(2) de(1) simp_thms)
  qed
  have "sh \<le> length ?a" using sh(2) xle(1) by simp
  note r = sharedPre_loop_spec [OF all de(2) sh(1) this spe]
  have "take sp (take sh ?b) = take sp (take sh ?a)" by (simp only: sh(3))
  moreover have "min sp sh = sp" using r by linarith
  ultimately have "take sp ?b = take sp ?a" by (simp only: take_take)
  then have "\<forall>x \<in> set (e # e2 # es). take sp (fst x) = take sp (fst e)" using r by simp
  then show ?thesis using r sh(2) xle(1) by simp
qed

subsection \<open>The groups of a branch\<close>

lemma take_group_filter:
  assumes "\<forall>e \<in> set b. pre < length (fst e) \<and> i \<le> unat (fst e ! pre)" "sorted (map (\<lambda>e. unat (fst e ! pre)) b)"
  shows "take_group pre i b = Inr (filter (\<lambda>e. unat (fst e ! pre) = i) b, filter (\<lambda>e. i < unat (fst e ! pre)) b)"
  using assms
proof (induction b)
  case (Cons e b)
  show ?case
  proof (cases "unat (fst e ! pre) = i")
    case True
    then show ?thesis using Cons by (simp add: read_at_def)
  next
    case False
    then have gt: "\<forall>x \<in> set (e # b). i < unat (fst x ! pre)"
      using Cons.prems by (fastforce intro: order.strict_trans2)
    have "filter (\<lambda>x. i < unat (fst x ! pre)) (e # b) = e # b" using gt by (intro filter_True) auto
    moreover have "filter (\<lambda>x. unat (fst x ! pre) = i) (e # b) = []" using gt by (intro filter_False) auto
    ultimately show ?thesis using False Cons.prems by (simp add: read_at_def del: filter.simps)
  qed
qed simp

lemma take_groups_filter:
  assumes "\<forall>e \<in> set b. pre < length (fst e) \<and> j \<le> unat (fst e ! pre)" "sorted (map (\<lambda>e. unat (fst e ! pre)) b)"
  shows "take_groups pre [j..<j + n] b = Inr (map (\<lambda>i. filter (\<lambda>e. unat (fst e ! pre) = i) b) [j..<j + n])"
  using assms
proof (induction n arbitrary: j b)
  case (Suc n)
  let ?r = "filter (\<lambda>e. j < unat (fst e ! pre)) b"
  have "sorted (map (\<lambda>e. unat (fst e ! pre)) ?r)"
    using Suc.prems(2) by (rule sorted_filter)
  then have "take_groups pre [Suc j..<Suc j + n] ?r =
      Inr (map (\<lambda>i. filter (\<lambda>e. unat (fst e ! pre) = i) ?r) [Suc j..<Suc j + n])"
    using Suc.prems by (intro Suc.IH) auto
  moreover have "map (\<lambda>i. filter (\<lambda>e. unat (fst e ! pre) = i) ?r) [Suc j..<Suc j + n] =
      map (\<lambda>i. filter (\<lambda>e. unat (fst e ! pre) = i) b) [Suc j..<Suc j + n]"
    by (auto simp: filter_filter intro!: filter_cong)
  ultimately show ?case using take_group_filter [OF Suc.prems]
    by (simp add: upt_conv_Cons del: upt_Suc)
qed simp

lemma lex_nth:
  assumes "(a :: bytes) < b" "take n a = take n b" "n < length a" "n < length b"
  shows "a ! n \<le> b ! n"
proof -
  have a: "a = take n a @ a ! n # drop (Suc n) a" using assms(3) by (simp add: id_take_nth_drop)
  have b: "b = take n a @ b ! n # drop (Suc n) b" using assms(2,4) by (simp add: id_take_nth_drop)
  have "x @ u # r < x @ v # t \<Longrightarrow> u \<le> v" for x :: bytes and u v r t by (induction x) auto
  then show ?thesis using assms(1) a b by metis
qed

lemma lex_prefix: "(take n a :: bytes) \<le> a"
  by (induction a arbitrary: n) (auto simp: take_Cons split: nat.splits)

text \<open>In a range only the first key can end with the shared prefix.\<close>

lemma range_longer:
  assumes ok: "range_ok P (e # es)" and x: "x \<in> set es"
  shows "length P < length (fst x)"
proof (rule ccontr)
  assume "\<not> ?thesis"
  then have "fst x = P" using range_okD(1,2) [OF ok, of x] x by simp
  then have "fst x \<le> fst e" using lex_prefix [of "length P" "fst e"] range_okD(1) [OF ok, of e] by simp
  moreover have "fst e < fst x" using ok x by (auto simp: range_ok_def)
  ultimately show False by simp
qed

lemma range_sorted_nibble:
  assumes "range_ok P b" "\<forall>e \<in> set b. length P < length (fst e)"
  shows "sorted (map (\<lambda>e. unat (fst e ! length P)) b)"
  using assms
proof (induction b)
  case (Cons e b)
  have "range_ok P b" using Cons.prems(1) by (auto simp: range_ok_def)
  moreover have "fst e ! length P \<le> fst x ! length P" if "x \<in> set b" for x
  proof (rule lex_nth)
    show "fst e < fst x" using Cons.prems(1) that by (auto simp: range_ok_def)
    show "take (length P) (fst e) = take (length P) (fst x)" using Cons.prems(1) that by (auto simp: range_ok_def)
  qed (use Cons.prems(2) that in auto)
  ultimately show ?case using Cons by (auto simp: word_le_nat_alt)
qed simp

subsection \<open>Refinement\<close>

text \<open>The builder on a range streams the encoding of a node whose lookup function is the range.\<close>

definition builds :: "bytes \<Rightarrow> entries \<Rightarrow> node \<Rightarrow> bool" where
  "builds P es t \<longleftrightarrow> appends (hash256rlp es (length P)) (node_bytes t) \<and> length (node_bytes t) < 2 ^ 60 \<and>
     (\<forall>k. node_lookup t k = map_of es (P @ k))"

lemma rlp_max_60: "n < 2 ^ 60 \<Longrightarrow> n < rlp_max"
  by (simp add: rlp_max_def)

lemma appends_node: "appends (append_node d) (node_ref d)"
  using appends_raw [of d] appends_hash [of 32 "sha3 d"]
  by (cases "length d < 32") (simp_all add: append_node_def [abs_def] node_ref_def)

lemma node_ref_size: "length (node_ref d) \<le> 41"
  using word_sizes(4) [of 32 "sha3 d"] by (simp add: node_ref_def)

lemma appends_child:
  assumes "appends f d"
  shows "appends (\<lambda>t. bindE (bindE (f empty_stream) out) (\<lambda>d. append_node d t)) (node_ref d)"
  using appends_node [of d] by (simp add: out_appends [OF assms])

lemma builds_empty: "builds P [] Empty"
  using appends_bytes [of "[]"]
  by (simp add: builds_def rlp_max_def rlp_str_def rlp_header_def hash256rlp.simps(1) [abs_def])

lemma appends_pair:
  assumes "appends f d1" "appends g d2" "length (d1 @ d2) < 2 ^ 60 - 9"
  shows "appends (\<lambda>s. bindE (appendList 2 s) (seqE [f, g])) (rlp_list (d1 @ d2))"
    "length (rlp_list (d1 @ d2)) < 2 ^ 60"
proof -
  show "appends (\<lambda>s. bindE (appendList 2 s) (seqE [f, g])) (rlp_list (d1 @ d2))"
    using appends_list [of "[f, g]" "[d1, d2]" 2] assms rlp_max_60 by simp
  show "length (rlp_list (d1 @ d2)) < 2 ^ 60" using list_size [of "d1 @ d2"] assms(3) by simp
qed

lemma path_str:
  assumes "length ns < 2 ^ 31"
  shows "appends (append_bytes (hp_value leaf ns) False) (rlp_str (hp_value leaf ns))"
    "length (rlp_str (hp_value leaf ns)) < 2 ^ 32"
proof -
  have l: "length (hp_value leaf ns) < 2 ^ 31" using assms by (simp add: length_hp_value)
  then show "appends (append_bytes (hp_value leaf ns) False) (rlp_str (hp_value leaf ns))"
    by (intro appends_bytes rlp_max_60) simp
  show "length (rlp_str (hp_value leaf ns)) < 2 ^ 32" using l str_size [of "hp_value leaf ns"] by simp
qed

lemma value_str:
  assumes "length v < 2 ^ 59"
  shows "appends (append_bytes v False) (rlp_str v)" "length (rlp_str v) < 2 ^ 59 + 9"
  using assms appends_bytes [of v] str_size [of v] by (simp_all add: rlp_max_def)

lemma builds_leaf:
  assumes "range_ok P [e]"
  shows "builds P [e] (LeafNode (drop (length P) (fst e)) (snd e))"
proof -
  let ?p = "drop (length P) (fst e)"
  have "e \<in> set [e]" by simp
  note d = range_okD [OF assms this]
  have "hexPrefixEncode (fst e) True (length P) (- 1) = Inr (hp_value True ?p)"
    using hexPrefixEncode_value [of "length P" "length (fst e)" "fst e" "- 1" True] d(2) by simp
  then have eq: "hash256rlp [e] (length P) =
      (\<lambda>s. bindE (appendList 2 s) (seqE [append_bytes (hp_value True ?p) False, append_bytes (snd e) False]))"
    by (intro ext) simp
  have "length ?p < 2 ^ 31" using d(4) by simp
  note path = path_str [OF this, of True] and val = value_str [OF d(6)]
  have "length (rlp_str (hp_value True ?p) @ rlp_str (snd e)) < 2 ^ 60 - 9" using path(2) val(2) by simp
  note pair = appends_pair [OF path(1) val(1) this]
  have "(k = ?p) = (P @ k = fst e)" for k using d(7) by (metis append_eq_conv_conj same_append_eq)
  then have "node_lookup (LeafNode ?p (snd e)) k = map_of [e] (P @ k)" for k by (cases e) auto
  then show ?thesis using pair unfolding builds_def eq by simp
qed

lemma builds_extension:
  assumes ok: "range_ok P (e # e2 # es)" and sp: "sp = sharedPre (length P) (fst e) (map fst (e2 # es))" "length P < sp"
    and t: "builds (take sp (fst e)) (e # e2 # es) t"
  shows "builds P (e # e2 # es) (Extension (drop (length P) (take sp (fst e))) t)"
proof -
  let ?es = "e # e2 # es"
  define p where "p = drop (length P) (take sp (fst e))"
  have "e \<in> set ?es" by simp
  note d = range_okD [OF ok this] and shared = sharedPre_spec [OF ok sp(1)]
  have len: "length (take sp (fst e)) = sp" using shared by simp
  have pp: "P @ p = take sp (fst e)"
    using d(1) sp(2) append_take_drop_id [of "length P" "take sp (fst e)"] by (simp add: min_absorb1 p_def)
  have "hexPrefixEncode (fst e) False (length P) (int sp) = Inr (hp_value False p)"
    using hexPrefixEncode_value [of "length P" sp "fst e" "int sp" False] shared by (simp add: drop_take p_def)
  then have eq: "hash256rlp ?es (length P) = (\<lambda>s. bindE (appendList 2 s) (seqE [append_bytes (hp_value False p) False,
      \<lambda>t. bindE (bindE (hash256rlp ?es sp empty_stream) out) (\<lambda>d. append_node d t)]))"
    using sp(2) by (intro ext) (simp add: Let_def sp(1) [symmetric] del: list.map)
  have "appends (hash256rlp ?es sp) (node_bytes t)" using t len by (simp add: builds_def)
  note child = appends_child [OF this]
  have "length p \<le> length (fst e)" by (simp add: p_def)
  then have "length p < 2 ^ 31" using d(4) by (rule le_less_trans)
  note path = path_str [OF this, of False]
  have "length (rlp_str (hp_value False p) @ node_ref (node_bytes t)) < 2 ^ 60 - 9"
    using path(2) node_ref_size [of "node_bytes t"] by simp
  note pair = appends_pair [OF path(1) child this]
  have "node_lookup (Extension p t) k = map_of ?es (P @ k)" for k
  proof (cases "take (length p) k = p")
    case True
    then have "k = p @ drop (length p) k" using append_take_drop_id [of "length p" k] by simp
    then have "P @ k = take sp (fst e) @ drop (length p) k" using pp by (metis append.assoc)
    moreover have "node_lookup t (drop (length p) k) = map_of ?es (take sp (fst e) @ drop (length p) k)"
      using t unfolding builds_def by blast
    ultimately show ?thesis using True by (simp only: node_lookup.simps if_True simp_thms)
  next
    case False
    have "P @ k \<noteq> fst x" if "x \<in> set ?es" for x
    proof
      assume "P @ k = fst x"
      then have "take sp (P @ k) = P @ p" using shared that pp by auto
      moreover have "sp = length P + length p" using arg_cong [OF pp, of length] len by simp
      ultimately show False using False by simp
    qed
    then have "P @ k \<notin> fst ` set ?es" by auto
    then have "map_of ?es (P @ k) = None" by (simp only: map_of_eq_None_iff not_False_eq_True)
    then show ?thesis using False by simp
  qed
  then show ?thesis using pair unfolding builds_def eq p_def [symmetric] by simp
qed

lemma map_of_filter_key: "Q k \<Longrightarrow> map_of (filter (\<lambda>e. Q (fst e)) b) k = map_of b k"
  by (induction b) auto

lemma group_ok:
  assumes ok: "range_ok P b" and longer: "\<forall>e \<in> set b. length P < length (fst e)"
  shows "range_ok (P @ [word_of_nat i]) (filter (\<lambda>e. unat (fst e ! length P) = i) b)"
proof (rule range_ok_sub [OF ok])
  show "sorted_wrt (<) (map fst (filter (\<lambda>e. unat (fst e ! length P) = i) b))"
    using ok by (auto simp: range_ok_def sorted_wrt_map intro: sorted_wrt_filter)
  show "\<forall>e \<in> set (filter (\<lambda>e. unat (fst e ! length P) = i) b). take (length (P @ [word_of_nat i])) (fst e) = P @ [word_of_nat i]"
  proof
    fix x assume "x \<in> set (filter (\<lambda>e. unat (fst e ! length P) = i) b)"
    then have x: "x \<in> set b" "fst x ! length P = word_of_nat i" by auto
    have "take (Suc (length P)) (fst x) = take (length P) (fst x) @ [fst x ! length P]"
      using longer x(1) by (simp add: take_Suc_conv_app_nth)
    then show "take (length (P @ [word_of_nat i])) (fst x) = P @ [word_of_nat i]"
      using range_okD(1) [OF ok x(1)] x(2) by simp
  qed
qed (rule filter_is_subset)

lemma range_ok_tl: "range_ok P (e # es) \<Longrightarrow> range_ok P es"
  by (simp add: range_ok_def)

lemma branch_rest:
  assumes ok: "range_ok P (e # es)" and b: "b = (if length P = length (fst e) then es else e # es)"
  shows "range_ok P b" "\<forall>x \<in> set b. length P < length (fst x)" "set b \<subseteq> set (e # es)"
proof -
  have e: "length P \<le> length (fst e)" using range_okD(2) [OF ok, of e] by simp
  show "range_ok P b" using ok range_ok_tl [OF ok] b by (cases "length P = length (fst e)") simp_all
  show "\<forall>x \<in> set b. length P < length (fst x)"
    using range_longer [OF ok] e b by (cases "length P = length (fst e)") simp_all
  show "set b \<subseteq> set (e # es)" using b by (cases "length P = length (fst e)") auto
qed

lemma branch_lookup:
  assumes ok: "range_ok P (e # es)" and b: "b = (if length P = length (fst e) then es else e # es)"
    and v: "v = (if length P = length (fst e) then snd e else [])"
    and f: "\<And>i k. i < 16 \<Longrightarrow> node_lookup (f i) k = map_of (filter (\<lambda>e. unat (fst e ! length P) = i) b) ((P @ [word_of_nat i]) @ k)"
  shows "node_lookup (Branch (map f [0..<16]) v) k = map_of (e # es) (P @ k)"
proof (cases k)
  case Nil
  note rest = branch_rest [OF ok b]
  have "P \<notin> fst ` set b" using rest(2) by force
  then have none: "map_of b P = None" by (simp add: map_of_eq_None_iff)
  have e: "e \<in> set (e # es)" by simp
  show ?thesis
  proof (cases "length P = length (fst e)")
    case True
    then have "fst e = P" "snd e \<noteq> []" using range_okD(1,5) [OF ok e] by simp_all
    then show ?thesis using True Nil v by (cases e) simp
  next
    case False
    then show ?thesis using none b v Nil by simp
  qed
next
  case (Cons x k')
  have bk: "map_of b (P @ k) = map_of (e # es) (P @ k)"
  proof (cases "length P = length (fst e)")
    case True
    then have "fst e = P" using range_okD(1) [OF ok, of e] by simp
    then show ?thesis using True b Cons by (cases e) simp
  qed (simp add: b)
  have key: "map_of (filter (\<lambda>e. unat (fst e ! length P) = unat x) b) (P @ k) = map_of b (P @ k)"
    by (rule map_of_filter_key) (simp add: Cons)
  show ?thesis
  proof (cases "unat x < 16")
    case True
    then show ?thesis using f [OF True, of k'] key bk Cons by simp
  next
    case False
    have "P @ k \<noteq> fst y" if "y \<in> set (e # es)" for y
    proof
      assume "P @ k = fst y"
      then have "x \<in> set (fst y)" using Cons by (metis in_set_conv_decomp)
      then have "x < 16" using range_okD(3) [OF ok that] by (simp add: list_all_iff)
      then show False using False by (simp add: word_less_nat_alt)
    qed
    then have "P @ k \<notin> fst ` set (e # es)" by auto
    then have "map_of (e # es) (P @ k) = None" by (simp only: map_of_eq_None_iff not_False_eq_True)
    then show ?thesis using False Cons by simp
  qed
qed

text \<open>One child slot of a branch.\<close>

definition child_slot :: "nat \<Rightarrow> entries \<Rightarrow> stream \<Rightarrow> exn + stream" where
  "child_slot pre g t = (if g = [] then append_bytes [] False t
     else bindE (bindE (hash256rlp g (pre + 1) empty_stream) out) (\<lambda>d. append_node d t))"

lemma child_slot_appends:
  assumes "builds Q g t" "length Q = pre + 1"
  shows "appends (child_slot pre g) (node_ref (node_bytes t))"
proof (cases "g = []")
  case True
  have e: "node_bytes t = rlp_str []"
    using assms(1) appends_bytes [of "[]"] out_appends True
    by (auto simp: builds_def rlp_max_def hash256rlp.simps(1) [abs_def] dest!: out_appends)
  then have "node_ref (node_bytes t) = rlp_str []" by (simp add: node_ref_def rlp_str_def rlp_header_def)
  then show ?thesis using True appends_bytes [of "[]"] by (simp add: child_slot_def [abs_def] rlp_max_def)
next
  case False
  then show ?thesis using appends_child [of "hash256rlp g (pre + 1)" "node_bytes t"] assms
    by (simp add: child_slot_def [abs_def] builds_def)
qed

lemma concat_size: "\<forall>x \<in> set xs. length x \<le> n \<Longrightarrow> length (concat xs) \<le> n * length xs"
  by (induction xs) auto

lemma branch_appends:
  assumes gs: "take_groups (length P) [0..<16] b = Inr (map g [0..<16])"
    and b: "b = (if length P = length (fst e) then e2 # es else e # e2 # es)"
    and v: "v = (if length P = length (fst e) then snd e else [])" "length v < 2 ^ 59"
    and sp: "\<not> length P < sharedPre (length P) (fst e) (map fst (e2 # es))"
    and f: "\<And>i. i < 16 \<Longrightarrow> builds (P @ [word_of_nat i]) (g i) (f i)"
  shows "appends (hash256rlp (e # e2 # es) (length P)) (node_bytes (Branch (map f [0..<16]) v))"
    "length (node_bytes (Branch (map f [0..<16]) v)) < 2 ^ 60"
proof -
  let ?fs = "map (\<lambda>i. child_slot (length P) (g i)) [0..<16] @ [append_bytes v False]"
  let ?ds = "map (\<lambda>i. node_ref (node_bytes (f i))) [0..<16] @ [rlp_str v]"
  have eq: "hash256rlp (e # e2 # es) (length P) = (\<lambda>s. bindE (appendList 17 s) (seqE ?fs))"
  proof
    fix s
    show "hash256rlp (e # e2 # es) (length P) s = bindE (appendList 17 s) (seqE ?fs)"
      by (subst hash256rlp.simps(3), simp only: Let_def b [symmetric] v(1) [symmetric] gs if_not_P [OF sp] bindE_simps
          child_slot_def [abs_def] map_map comp_def)
  qed
  have kids: "list_all2 appends (map (\<lambda>i. child_slot (length P) (g i)) [0..<16]) (map (\<lambda>i. node_ref (node_bytes (f i))) [0..<16])"
    using child_slot_appends [OF f] by (auto simp: list_all2_conv_all_nth)
  have all: "list_all2 appends ?fs ?ds" using kids value_str(1) [OF v(2)] by (simp add: list_all2_append del: upt_rec_numeral)
  have "length (concat (map (\<lambda>i. node_ref (node_bytes (f i))) [0..<16])) \<le> 41 * length (map (\<lambda>i. node_ref (node_bytes (f i))) [0..<16])"
    by (rule concat_size) (auto simp: node_ref_size)
  then have len: "length (concat ?ds) < 2 ^ 59 + 1000" using value_str(2) [OF v(2)] by (simp del: upt_rec_numeral)
  have bytes: "node_bytes (Branch (map f [0..<16]) v) = rlp_list (concat ?ds)" by (simp add: comp_def del: upt_rec_numeral)
  show "appends (hash256rlp (e # e2 # es) (length P)) (node_bytes (Branch (map f [0..<16]) v))"
    unfolding eq bytes by (rule appends_list [OF all]) (use len in \<open>simp_all add: rlp_max_def del: upt_rec_numeral\<close>)
  show "length (node_bytes (Branch (map f [0..<16]) v)) < 2 ^ 60"
    unfolding bytes using list_size [of "concat ?ds"] len by simp
qed

lemma builds_ex: "range_ok P es \<Longrightarrow> \<exists>t. builds P es t"
proof (induction "max_key es - length P" arbitrary: P es rule: less_induct)
  case less
  note ok = less.prems
  consider "es = []" | e where "es = [e]" | e e2 rest where "es = e # e2 # rest" by (cases es rule: remdups_adj.cases) auto
  then show ?case
  proof cases
    case 1
    then show ?thesis using builds_empty by blast
  next
    case 2
    then show ?thesis using builds_leaf ok by blast
  next
    case 3
    define sp where "sp = sharedPre (length P) (fst e) (map fst (e2 # rest))"
    show ?thesis
    proof (cases "length P < sp")
      case True
      note sh = sharedPre_spec [OF ok [unfolded 3] sp_def]
      have len: "length (take sp (fst e)) = sp" using sh by simp
      have rng: "range_ok (take sp (fst e)) es"
        using ok sh by (intro range_ok_sub [OF ok]) (auto simp: 3 range_ok_def len)
      have "max_key es - length (take sp (fst e)) < max_key es - length P"
        using max_key_shared [of "length P" e e2 rest, folded sp_def, OF True] by (simp only: len 3)
      from less.hyps [OF this rng] obtain t where "builds (take sp (fst e)) es t" by blast
      then show ?thesis using builds_extension [OF ok [unfolded 3] sp_def True] 3 by blast
    next
      case False
      define b where "b = (if length P = length (fst e) then e2 # rest else e # e2 # rest)"
      define v where "v = (if length P = length (fst e) then snd e else [])"
      let ?g = "\<lambda>i. filter (\<lambda>e. unat (fst e ! length P) = i) b"
      note rb = branch_rest [OF ok [unfolded 3] b_def]
      have "take_groups (length P) [0..<0 + 16] b = Inr (map ?g [0..<0 + 16])"
        by (rule take_groups_filter) (use rb(2) range_sorted_nibble [OF rb(1,2)] in auto)
      then have gs: "take_groups (length P) [0..<16] b = Inr (map ?g [0..<16])" by (simp only: add_0)
      have "\<exists>t. builds (P @ [word_of_nat i]) (?g i) t" if i: "i < 16" for i
      proof (cases "?g i = []")
        case True
        show ?thesis unfolding True using builds_empty by blast
      next
        case ne: False
        have "?g i \<in> set (map ?g [0..<16])" by (simp only: set_map) (rule imageI, use i in simp)
        from max_key_group [OF gs this ne rb(3)]
        have "max_key (?g i) - length (P @ [word_of_nat i]) < max_key es - length P" by (simp add: 3)
        from less.hyps [OF this group_ok [OF rb(1,2)]] show ?thesis .
      qed
      then obtain f where f: "\<And>i. i < 16 \<Longrightarrow> builds (P @ [word_of_nat i]) (?g i) (f i)" by metis
      have "length v < 2 ^ 59" using range_okD(6) [OF ok, of e] 3 by (simp add: v_def)
      note app = branch_appends [OF gs b_def v_def this False [unfolded sp_def] f]
      have "node_lookup (Branch (map f [0..<16]) v) k = map_of es (P @ k)" for k
        unfolding 3 by (rule branch_lookup [OF ok [unfolded 3] b_def v_def]) (use f in \<open>simp add: builds_def\<close>)
      then show ?thesis using app unfolding 3 builds_def by blast
    qed
  qed
qed

subsection \<open>The trie of a map\<close>

lemma nibble_inj: "(a :: byte) div 16 = b div 16 \<Longrightarrow> a mod 16 = b mod 16 \<Longrightarrow> a = b"
  by (metis div_mult_mod_eq)

lemma asNibbles_inj: "asNibbles a = asNibbles b \<longleftrightarrow> a = b"
proof (induction a arbitrary: b)
  case Nil
  then show ?case by (cases b) auto
next
  case (Cons x a)
  then show ?case using nibble_inj [of x] by (cases b) auto
qed

definition hex_map :: "bytes_map \<Rightarrow> entries" where
  "hex_map m = foldr (\<lambda>(k, v). om_put (asNibbles k) v) m []"

lemma hex_map_inv: "om_inv (hex_map m)"
  by (induction m) (auto simp: hex_map_def om.invar_empty om.invar_put)

lemma hex_map_find: "om_find (hex_map m) x = map_of (map (\<lambda>(k, v). (asNibbles k, v)) m) x"
  by (induction m) (auto simp: hex_map_def)

lemma map_of_nibbles: "map_of (map (\<lambda>(k, v). (asNibbles k, v)) m) (asNibbles k) = map_of m k"
  by (induction m) (auto simp: asNibbles_inj)

lemma hex_map_entry: "e \<in> set (hex_map m) \<Longrightarrow> \<exists>k. fst e = asNibbles k \<and> (k, snd e) \<in> set m"
proof -
  assume "e \<in> set (hex_map m)"
  then have "om_find (hex_map m) (fst e) = Some (snd e)" using om.find_entries [OF hex_map_inv] by simp
  then have "(fst e, snd e) \<in> set (map (\<lambda>(k, v). (asNibbles k, v)) m)"
    using hex_map_find map_of_SomeD by metis
  then show ?thesis by auto
qed

lemma hex_map_range:
  assumes "\<forall>(k, v) \<in> set m. length k < 2 ^ 30 \<and> v \<noteq> [] \<and> length v < 2 ^ 59"
  shows "range_ok [] (hex_map m)"
proof -
  have "nibbles (fst e) \<and> length (fst e) < 2 ^ 31 \<and> snd e \<noteq> [] \<and> length (snd e) < 2 ^ 59" if "e \<in> set (hex_map m)" for e
    using hex_map_entry [OF that] assms nibbles_asNibbles by fastforce
  then show ?thesis using hex_map_inv [of m] by (simp add: range_ok_def om_inv_def)
qed

text \<open>C3. Refinement of the trie builder: for every map with non-empty values below 2^59 bytes and keys below 2^30 bytes,
  \<open>trieRLP256\<close> succeeds, without reading any key past its end, and returns the encoding of a trie whose lookup
  function is the map; \<open>trieHash256\<close> is its hash.\<close>

theorem trie_refines:
  assumes "\<forall>(k, v) \<in> set m. length k < 2 ^ 30 \<and> v \<noteq> [] \<and> length v < 2 ^ 59"
  shows "\<exists>t. trieRLP256 m = Inr (node_bytes t) \<and> trieHash256 m = Inr (sha3 (node_bytes t)) \<and>
    (\<forall>k. node_lookup t (asNibbles k) = om_find m k)"
proof -
  obtain t where t: "builds [] (hex_map m) t" using builds_ex [OF hex_map_range [OF assms]] by blast
  have look: "node_lookup t (asNibbles k) = om_find m k" for k
    using t hex_map_find [of m "asNibbles k"] map_of_nibbles [of m k] by (simp add: builds_def om_find_def)
  have "trieRLP256 m = Inr (node_bytes t)"
  proof (cases "m = []")
    case True
    then show ?thesis using t by (auto simp: trieRLP256_def getRLPData_def hex_map_def builds_def hash256rlp.simps(1) [abs_def] dest!: out_appends)
  next
    case False
    then show ?thesis using t out_appends by (auto simp: trieRLP256_def getRLPData_def hex_map_def builds_def)
  qed
  then show ?thesis using look by (auto simp: trieHash256_def)
qed

theorem trie_refines_witness:
  "\<exists>t. trieRLP256 [([0x12], [1]), ([0x13], [2])] = Inr (node_bytes t) \<and>
    trieHash256 [([0x12], [1]), ([0x13], [2])] = Inr (sha3 (node_bytes t)) \<and>
    (\<forall>k. node_lookup t (asNibbles k) = om_find [([0x12], [1]), ([0x13], [2])] k)"
  using trie_refines [of "[([0x12], [1]), ([0x13], [2])]"] by simp

end
