(* ===== verification/BlockState.thy ===== *)
theory BlockState
  imports Schedule Database Sizes
begin

text \<open>
  \<open>chain/BlockState\<close>: the confirmations that producers send for a block, and the state the node keeps for a
  block that is not yet final. Their codecs are shown to be inverse; the confirmation list is shown to hold no
  duplicates and only confirmations of active producers, and what that does not rule out is shown too.
\<close>

section \<open>Header confirmations\<close>

record header_confirmation =
  hc_chainID :: u64
  hc_number :: u64
  hc_blockID :: h256
  hc_timestamp :: int
  hc_producer :: address
  hc_signature :: sigstruct

definition HEADER_CONFIRMATION_FIELDS_WITHOUT_SIG :: nat where "HEADER_CONFIRMATION_FIELDS_WITHOUT_SIG = 5"
definition HEADER_CONFIRMATION_FIELDS_ALL :: nat where "HEADER_CONFIRMATION_FIELDS_ALL = 5 + 1"

definition new_confirmation :: "u64 \<Rightarrow> u64 \<Rightarrow> h256 \<Rightarrow> int \<Rightarrow> address \<Rightarrow> header_confirmation" where
  "new_confirmation chainID number blockID timestamp addr =
     \<lparr>hc_chainID = chainID, hc_number = number, hc_blockID = blockID, hc_timestamp = timestamp,
      hc_producer = addr, hc_signature = empty_sig\<rparr>"

definition confirmation_eq :: "header_confirmation \<Rightarrow> header_confirmation \<Rightarrow> bool" where
  "confirmation_eq a b \<longleftrightarrow> hc_chainID a = hc_chainID b \<and> hc_number a = hc_number b \<and>
     hc_blockID a = hc_blockID b \<and> hc_timestamp a = hc_timestamp b \<and> hc_producer a = hc_producer b"

definition confirmation_content :: "header_confirmation \<Rightarrow> (stream \<Rightarrow> exn + stream) list" where
  "confirmation_content hc =
     [append_u64 (hc_chainID hc), append_u64 (hc_number hc), append_hash 32 (hc_blockID hc),
      append_bigint (hc_timestamp hc), append_hash 20 (hc_producer hc)]"

definition confirmation_streamRLP :: "header_confirmation \<Rightarrow> stream \<Rightarrow> exn + stream" where
  "confirmation_streamRLP hc s =
     bindE (appendList HEADER_CONFIRMATION_FIELDS_ALL s)
       (seqE (confirmation_content hc @ [append_bytes (sig_bytes (hc_signature hc)) False]))"

definition confirmation_streamRLPContent :: "header_confirmation \<Rightarrow> stream \<Rightarrow> exn + stream" where
  "confirmation_streamRLPContent hc s =
     bindE (appendList HEADER_CONFIRMATION_FIELDS_WITHOUT_SIG s) (seqE (confirmation_content hc))"

definition confirmation_getRLPData :: "header_confirmation \<Rightarrow> exn + bytes" where
  "confirmation_getRLPData hc = getRLPData (confirmation_streamRLP hc)"

definition confirmation_getHash :: "header_confirmation \<Rightarrow> h256" where
  "confirmation_getHash hc = hash_of (getRLPData (confirmation_streamRLPContent hc))"

text \<open>The constructor from bytes; the handlers rethrow what they catch.\<close>

definition confirmation_decode :: "bytes \<Rightarrow> exn + header_confirmation" where
  "confirmation_decode data =
     bindE (RLP_new data VeryStrict) (\<lambda>r.
     bindE (isListOf HEADER_CONFIRMATION_FIELDS_ALL r) (\<lambda>good.
     if \<not> good then Inl DeserializeException else
     bindE (field r 0 toInt_u64) (\<lambda>chain.
     bindE (field r 1 toInt_u64) (\<lambda>number.
     bindE (field r 2 toHash256) (\<lambda>blockID.
     bindE (field r 3 toInt_i64) (\<lambda>ts.
     bindE (field r 4 toHash160) (\<lambda>addr.
     bindE (field r 5 (toHash 65 VeryStrict)) (\<lambda>sig.
       Inr \<lparr>hc_chainID = chain, hc_number = number, hc_blockID = blockID, hc_timestamp = ts,
            hc_producer = addr, hc_signature = sig_of_bytes sig\<rparr>))))))))"

text \<open>\<open>crypto::sign\<close> is the parameter \<open>sign\<close>.\<close>

definition confirmation_sign :: "('k \<Rightarrow> h256 \<Rightarrow> sigstruct) \<Rightarrow> 'k \<Rightarrow> header_confirmation \<Rightarrow> header_confirmation" where
  "confirmation_sign sign privKey hc =
     (let sig = sign privKey (confirmation_getHash hc)
      in if sig_isValid sig then hc\<lparr>hc_signature := sig\<rparr> else hc)"

section \<open>Block states\<close>

record block_state =
  bs_block :: block
  bs_blockNumber :: u64
  bs_blockID :: h256
  bs_bftSolidifyBlockNumber :: u64
  bs_validated :: bool
  bs_inCurrentChain :: bool
  bs_activeProducers :: producer_snapshot
  bs_confirmCount :: byte
  bs_confirmations :: "header_confirmation list"

text \<open>The global \<open>EmptyBlockState\<close> lies in zero-initialised storage.\<close>

definition EmptyBlockState :: block_state where
  "EmptyBlockState = \<lparr>bs_block = EmptyBlock, bs_blockNumber = 0, bs_blockID = 0, bs_bftSolidifyBlockNumber = 0,
     bs_validated = False, bs_inCurrentChain = False, bs_activeProducers = \<lparr>ps_timestamp = 0, ps_producers = []\<rparr>,
     bs_confirmCount = 0, bs_confirmations = []\<rparr>"

text \<open>The constructor from a block leaves \<open>m_confirmCount\<close> and the snapshot's time stamp as the allocator
  returned them: they are the parameters \<open>c0\<close> and \<open>t0\<close>.\<close>

definition new_blockState :: "byte \<Rightarrow> int \<Rightarrow> block \<Rightarrow> block_state" where
  "new_blockState c0 t0 b = \<lparr>bs_block = b, bs_blockNumber = block_number b, bs_blockID = block_getHash b,
     bs_bftSolidifyBlockNumber = 0, bs_validated = False, bs_inCurrentChain = False,
     bs_activeProducers = \<lparr>ps_timestamp = t0, ps_producers = []\<rparr>, bs_confirmCount = c0, bs_confirmations = []\<rparr>"

definition bs_getPrev :: "block_state \<Rightarrow> h256" where
  "bs_getPrev bs = h_parentHash (b_header (bs_block bs))"

definition bs_setProducerSnapshot :: "producer_snapshot \<Rightarrow> block_state \<Rightarrow> block_state" where
  "bs_setProducerSnapshot ps bs = bs\<lparr>bs_activeProducers := ps\<rparr>"

text \<open>The copy constructor, and \<open>operator=\<close>, which appends to the confirmations of the target.\<close>

definition blockState_assign :: "block_state \<Rightarrow> block_state \<Rightarrow> block_state" where
  "blockState_assign this bs =
     \<lparr>bs_block = bs_block bs, bs_blockNumber = bs_blockNumber bs, bs_blockID = bs_blockID bs,
      bs_bftSolidifyBlockNumber = bs_bftSolidifyBlockNumber bs, bs_validated = bs_validated bs,
      bs_inCurrentChain = bs_inCurrentChain bs, bs_activeProducers = bs_activeProducers bs,
      bs_confirmCount = bs_confirmCount bs, bs_confirmations = bs_confirmations this @ bs_confirmations bs\<rparr>"

definition blockState_eq :: "block_state \<Rightarrow> block_state \<Rightarrow> bool" where
  "blockState_eq a b \<longleftrightarrow> bs_blockNumber a = bs_blockNumber b \<and> bs_blockID a = bs_blockID b \<and>
     ps_size (bs_activeProducers a) = ps_size (bs_activeProducers b) \<and> bs_confirmCount a = bs_confirmCount b"

definition addConfirmation :: "header_confirmation \<Rightarrow> block_state \<Rightarrow> block_state" where
  "addConfirmation hc bs =
     (if hc_number hc \<noteq> bs_blockNumber bs \<or> hc_blockID hc \<noteq> bs_blockID bs then bs
      else if \<not> ps_isExist (hc_producer hc) (bs_activeProducers bs) then bs
      else if list_ex (\<lambda>c. confirmation_eq c hc) (bs_confirmations bs) then bs
      else bs\<lparr>bs_confirmCount := bs_confirmCount bs + 1, bs_confirmations := bs_confirmations bs @ [hc]\<rparr>)"

definition bs_isSolidified :: "block_state \<Rightarrow> bool" where
  "bs_isSolidified bs =
     (if ps_size (bs_activeProducers bs) = 0 then False
      else unat (bs_confirmCount bs) \<ge> (ps_size (bs_activeProducers bs) * 2) div 3)"

definition blockState_streamRLP :: "block_state \<Rightarrow> stream \<Rightarrow> exn + stream" where
  "blockState_streamRLP bs s =
     bindE (appendList (4 + length (bs_confirmations bs)) s) (seqE
       ([append_u64 (bs_blockNumber bs), append_hash 32 (bs_blockID bs),
         append_nested (snapshot_getRLPData (bs_activeProducers bs)),
         append_unsigned (ucast (bs_confirmCount bs))] @
        map (\<lambda>hc. append_nested (confirmation_getRLPData hc)) (bs_confirmations bs)))"

definition blockState_getRLPData :: "block_state \<Rightarrow> exn + bytes" where
  "blockState_getRLPData bs = getRLPData (blockState_streamRLP bs)"

text \<open>The constructor from bytes assigns member by member and swallows every exception; \<open>bs0\<close> is the object
  before the body runs.\<close>

definition blockState_decode :: "block_state \<Rightarrow> bytes \<Rightarrow> block_state" where
  "blockState_decode bs0 data =
     (case bindE (RLP_new data VeryStrict) (\<lambda>r. bindE (itemCount r) (\<lambda>n. Inr (r, n))) of
        Inl _ \<Rightarrow> bs0
      | Inr (r, n) \<Rightarrow>
          if \<not> (isList r \<and> n \<ge> 4) then bs0
          else (case field r 0 toInt_u64 of Inl _ \<Rightarrow> bs0 | Inr number \<Rightarrow>
            let bs1 = bs0\<lparr>bs_blockNumber := number\<rparr> in
            (case field r 1 toHash256 of Inl _ \<Rightarrow> bs1 | Inr blockID \<Rightarrow>
              let bs2 = bs1\<lparr>bs_blockID := blockID\<rparr> in
              (case field r 2 Inr of Inl _ \<Rightarrow> bs2 | Inr aps \<Rightarrow>
                let bs3 = bs2\<lparr>bs_activeProducers := snapshot_populate aps (bs_activeProducers bs2)\<rparr> in
                (case field r 3 toInt_u8 of Inl _ \<Rightarrow> bs3 | Inr cnt \<Rightarrow>
                  bs3\<lparr>bs_confirmCount := cnt,
                      bs_confirmations := push_until (\<lambda>i. field r i confirmation_decode) [4..<n] (bs_confirmations bs3)\<rparr>)))))"

section \<open>The codecs\<close>

definition confirmation_items :: "header_confirmation \<Rightarrow> bytes list" where
  "confirmation_items hc =
     [rlp_word (hc_chainID hc), rlp_word (hc_number hc), rlp_hash 32 (hc_blockID hc),
      rlp_int (nat (hc_timestamp hc)), rlp_hash 20 (hc_producer hc), rlp_str (sig_bytes (hc_signature hc))]"

definition confirmation_rlp :: "header_confirmation \<Rightarrow> bytes" where
  "confirmation_rlp hc = rlp_list (concat (confirmation_items hc))"

definition confirmation_ok :: "header_confirmation \<Rightarrow> bool" where
  "confirmation_ok hc \<longleftrightarrow> timestamp_ok (hc_timestamp hc)"

lemma confirmation_size:
  assumes "confirmation_ok hc"
  shows "length (confirmation_rlp hc) < 300"
proof -
  have "length (concat (confirmation_items hc)) < 280"
    using word_sizes(2) [of "hc_chainID hc"] word_sizes(2) [of "hc_number hc"] word_sizes(4) [of 32 "hc_blockID hc"]
      timestamp_size [of "hc_timestamp hc"] word_sizes(4) [of 20 "hc_producer hc"] str_size [of "sig_bytes (hc_signature hc)"]
      assms
    by (simp add: confirmation_items_def confirmation_ok_def)
  then show ?thesis using list_size [of "concat (confirmation_items hc)"] by (simp add: confirmation_rlp_def)
qed

lemma confirmation_bound: "confirmation_ok hc \<Longrightarrow> length (rlp_list (concat (confirmation_items hc))) < rlp_max"
  using confirmation_size [of hc] by (simp add: confirmation_rlp_def rlp_max_def)

lemma confirmation_items_item: "\<forall>e \<in> set (confirmation_items hc). item e"
  by (simp add: confirmation_items_def)

lemma appends_confirmation:
  assumes "confirmation_ok hc"
  shows "appends (confirmation_streamRLP hc) (confirmation_rlp hc)"
  unfolding confirmation_streamRLP_def [abs_def] confirmation_rlp_def
proof (rule appends_list')
  show "list_all2 appends (confirmation_content hc @ [append_bytes (sig_bytes (hc_signature hc)) False]) (confirmation_items hc)"
    using assms appends_timestamp [of "hc_timestamp hc"]
    by (simp add: confirmation_content_def confirmation_items_def appends_hash appends_sig confirmation_ok_def)
qed (use confirmation_bound [OF assms] in
      \<open>simp_all add: HEADER_CONFIRMATION_FIELDS_ALL_def confirmation_content_def\<close>)

lemma confirmation_decode_rlp:
  assumes "confirmation_ok hc"
  shows "confirmation_decode (confirmation_rlp hc) = Inr hc"
proof -
  note r = list_reader [OF confirmation_items_item confirmation_bound [OF assms]]
  have sig: "toHash 65 VeryStrict (rlp_str (sig_bytes (hc_signature hc))) = Inr (sig_bytes (hc_signature hc))"
    by (rule toHash_str) (simp_all add: rlp_max_def)
  show ?thesis
    by (simp add: confirmation_decode_def confirmation_rlp_def r HEADER_CONFIRMATION_FIELDS_ALL_def)
      (use assms in \<open>simp add: confirmation_items_def sig toInt_i64_timestamp confirmation_ok_def\<close>)
qed

interpretation confirmation_codec:
  codec confirmation_getRLPData confirmation_decode confirmation_rlp "\<lambda>hc. hc" confirmation_ok
  by unfold_locales
    (simp_all add: confirmation_getRLPData_def confirmation_decode_rlp appends_out [OF appends_confirmation]
      confirmation_rlp_def confirmation_decode_rlp [unfolded confirmation_rlp_def])

definition blockState_items :: "block_state \<Rightarrow> bytes list" where
  "blockState_items bs =
     [rlp_word (bs_blockNumber bs), rlp_hash 32 (bs_blockID bs), snapshot_rlp (bs_activeProducers bs),
      rlp_word (ucast (bs_confirmCount bs) :: u32)] @ map confirmation_rlp (bs_confirmations bs)"

definition blockState_rlp :: "block_state \<Rightarrow> bytes" where
  "blockState_rlp bs = rlp_list (concat (blockState_items bs))"

definition blockState_ok :: "block_state \<Rightarrow> bool" where
  "blockState_ok bs \<longleftrightarrow> snapshot_ok (bs_activeProducers bs) \<and> list_all confirmation_ok (bs_confirmations bs) \<and>
     length (blockState_rlp bs) < rlp_max"

lemma blockState_items_item: "\<forall>e \<in> set (blockState_items bs). item e"
  by (auto simp: blockState_items_def snapshot_rlp_def confirmation_rlp_def)

lemma blockState_getRLPData_ok:
  assumes "blockState_ok bs"
  shows "blockState_getRLPData bs = Inr (blockState_rlp bs)"
proof -
  let ?ops = "map (\<lambda>hc. append_nested (confirmation_getRLPData hc)) (bs_confirmations bs)"
  have conf: "list_all2 appends ?ops (map confirmation_rlp (bs_confirmations bs))"
    using assms appends_nested confirmation_codec.enc_spec
    by (simp add: list_all2_conv_all_nth blockState_ok_def list_all_length)
  have "appends (append_nested (snapshot_getRLPData (bs_activeProducers bs))) (snapshot_rlp (bs_activeProducers bs))"
    using assms snapshot_getRLPData_ok by (intro appends_nested) (simp add: blockState_ok_def)
  then have "list_all2 appends ([append_u64 (bs_blockNumber bs), append_hash 32 (bs_blockID bs),
         append_nested (snapshot_getRLPData (bs_activeProducers bs)), append_unsigned (ucast (bs_confirmCount bs))] @ ?ops)
      (blockState_items bs)"
    using conf by (simp add: blockState_items_def appends_hash)
  from appends_list' [OF this] have "appends (blockState_streamRLP bs) (blockState_rlp bs)"
    using assms by (simp add: blockState_streamRLP_def [abs_def] blockState_rlp_def blockState_ok_def eval_nat_numeral)
  then show ?thesis by (simp add: blockState_getRLPData_def appends_out)
qed

lemma toInt_u8_byte: "toInt_u8 (rlp_word (ucast (b :: byte) :: u32)) = Inr b"
proof -
  have "unat b mod 2 ^ 32 = unat b" by (intro mod_less less_trans [OF byte_bound]) simp
  then have "unat (ucast b :: u32) = unat b" by (simp add: unsigned_ucast_eq take_bit_eq_mod)
  then have "rlp_word (ucast b :: u32) = rlp_word b" by (simp add: rlp_word_def)
  then show ?thesis by simp
qed

text \<open>C23. A block state that is stored and loaded keeps its number, identifier, active producers, confirmation count and
  confirmations; the members that are not serialised are those of the object it is loaded into.\<close>

theorem blockstate_roundtrip:
  assumes "blockState_ok bs" and "bs_confirmations bs0 = []"
  shows "\<exists>d. blockState_getRLPData bs = Inr d \<and>
    blockState_decode bs0 d = bs0\<lparr>bs_blockNumber := bs_blockNumber bs, bs_blockID := bs_blockID bs,
      bs_activeProducers := bs_activeProducers bs, bs_confirmCount := bs_confirmCount bs,
      bs_confirmations := bs_confirmations bs\<rparr>"
proof (intro exI conjI)
  show "blockState_getRLPData bs = Inr (blockState_rlp bs)" by (rule blockState_getRLPData_ok [OF assms(1)])
  have l: "length (rlp_list (concat (blockState_items bs))) < rlp_max"
    using assms by (simp add: blockState_ok_def blockState_rlp_def)
  note r = list_reader [OF blockState_items_item l]
  let ?n = "length (blockState_items bs)"
  have n: "?n = 4 + length (bs_confirmations bs)" by (simp add: blockState_items_def)
  have "push_until (\<lambda>i. field (rlp_list (concat (blockState_items bs))) i confirmation_decode) [4..<?n] [] =
      [] @ map (\<lambda>i. bs_confirmations bs ! (i - 4)) [4..<?n]"
  proof (rule push_until_all)
    fix i assume "i \<in> set [4..<?n]"
    then have i: "4 \<le> i" "i < ?n" by auto
    then have "blockState_items bs ! i = confirmation_rlp (bs_confirmations bs ! (i - 4))"
      using n by (simp add: blockState_items_def nth_Cons' numeral_eq_Suc)
    then show "field (rlp_list (concat (blockState_items bs))) i confirmation_decode = Inr (bs_confirmations bs ! (i - 4))"
      using i n assms r(5) [of i confirmation_decode] by (simp add: confirmation_decode_rlp blockState_ok_def list_all_length)
  qed
  also have "map (\<lambda>i. bs_confirmations bs ! (i - 4)) [4..<?n] = bs_confirmations bs"
    by (rule nth_equalityI) (simp_all add: n)
  finally have confs: "push_until (\<lambda>i. field (rlp_list (concat (blockState_items bs))) i confirmation_decode) [4..<?n] [] =
      bs_confirmations bs" by simp
  have nth: "blockState_items bs ! 0 = rlp_word (bs_blockNumber bs)" "blockState_items bs ! 1 = rlp_hash 32 (bs_blockID bs)"
    "blockState_items bs ! 2 = snapshot_rlp (bs_activeProducers bs)"
    "blockState_items bs ! 3 = rlp_word (ucast (bs_confirmCount bs) :: u32)"
    by (simp_all add: blockState_items_def numeral_eq_Suc)
  have fields: "field (rlp_list (concat (blockState_items bs))) 0 toInt_u64 = Inr (bs_blockNumber bs)"
    "field (rlp_list (concat (blockState_items bs))) 1 toHash256 = Inr (bs_blockID bs)"
    "field (rlp_list (concat (blockState_items bs))) 2 Inr = Inr (snapshot_rlp (bs_activeProducers bs))"
    "field (rlp_list (concat (blockState_items bs))) 3 toInt_u8 = Inr (bs_confirmCount bs)"
    by (simp_all add: r(5) n nth toInt_u8_byte del: One_nat_def)
  have "snapshot_populate (snapshot_rlp (bs_activeProducers bs)) (bs_activeProducers bs0) = bs_activeProducers bs"
    using assms(1) by (intro snapshot_populate_rlp) (simp add: blockState_ok_def)
  then show "blockState_decode bs0 (blockState_rlp bs) = bs0\<lparr>bs_blockNumber := bs_blockNumber bs, bs_blockID := bs_blockID bs,
      bs_activeProducers := bs_activeProducers bs, bs_confirmCount := bs_confirmCount bs, bs_confirmations := bs_confirmations bs\<rparr>"
    unfolding blockState_decode_def blockState_rlp_def r(1) bindE_simps r(3)
    using r(2) n confs assms(2) by (simp add: fields Let_def del: One_nat_def)
qed

section \<open>Confirmations\<close>

text \<open>What \<open>addConfirmation\<close> keeps of the list: each entry is for this block, from an active producer, and no two
  are equal.\<close>

definition confirmations_inv :: "block_state \<Rightarrow> bool" where
  "confirmations_inv bs \<longleftrightarrow>
     (\<forall>c \<in> set (bs_confirmations bs). hc_number c = bs_blockNumber bs \<and> hc_blockID c = bs_blockID bs \<and>
        ps_isExist (hc_producer c) (bs_activeProducers bs)) \<and>
     sorted_wrt (\<lambda>a b. \<not> confirmation_eq a b) (bs_confirmations bs)"

lemma addConfirmation_frame [simp]:
  "bs_block (addConfirmation hc bs) = bs_block bs" "bs_blockNumber (addConfirmation hc bs) = bs_blockNumber bs"
  "bs_blockID (addConfirmation hc bs) = bs_blockID bs" "bs_activeProducers (addConfirmation hc bs) = bs_activeProducers bs"
  "bs_bftSolidifyBlockNumber (addConfirmation hc bs) = bs_bftSolidifyBlockNumber bs"
  "bs_getPrev (addConfirmation hc bs) = bs_getPrev bs"
  by (simp_all add: addConfirmation_def bs_getPrev_def)

lemma addConfirmation_inv: "confirmations_inv bs \<Longrightarrow> confirmations_inv (addConfirmation hc bs)"
  by (auto simp: confirmations_inv_def addConfirmation_def sorted_wrt_append list_ex_iff confirmation_eq_def)

text \<open>The confirmation of producer p with time stamp t, under any signature.\<close>

definition stamped :: "block_state \<Rightarrow> u64 \<Rightarrow> address \<Rightarrow> sigstruct \<Rightarrow> int \<Rightarrow> header_confirmation" where
  "stamped bs chain p sg t = \<lparr>hc_chainID = chain, hc_number = bs_blockNumber bs, hc_blockID = bs_blockID bs,
     hc_timestamp = t, hc_producer = p, hc_signature = sg\<rparr>"

lemma stamped_all:
  assumes "ps_isExist p (bs_activeProducers bs)" "distinct ts" "\<forall>c \<in> set (bs_confirmations bs). hc_timestamp c \<notin> set ts"
  shows "bs_confirmations (fold addConfirmation (map (\<lambda>t. stamped bs chain p (sg t) t) ts) bs) =
      bs_confirmations bs @ map (\<lambda>t. stamped bs chain p (sg t) t) ts \<and>
    bs_confirmCount (fold addConfirmation (map (\<lambda>t. stamped bs chain p (sg t) t) ts) bs) =
      bs_confirmCount bs + word_of_nat (length ts) \<and>
    bs_activeProducers (fold addConfirmation (map (\<lambda>t. stamped bs chain p (sg t) t) ts) bs) = bs_activeProducers bs"
  using assms
proof (induction ts arbitrary: bs)
  case (Cons t ts)
  let ?b = "addConfirmation (stamped bs chain p (sg t) t) bs"
  have "\<not> list_ex (\<lambda>c. confirmation_eq c (stamped bs chain p (sg t) t)) (bs_confirmations bs)"
    using Cons.prems(3) by (auto simp: list_ex_iff confirmation_eq_def stamped_def)
  then have b: "bs_confirmations ?b = bs_confirmations bs @ [stamped bs chain p (sg t) t]"
    "bs_confirmCount ?b = bs_confirmCount bs + 1"
    using Cons.prems(1) by (simp_all add: addConfirmation_def stamped_def)
  have st: "stamped ?b = stamped bs" by (intro ext) (simp add: stamped_def)
  have "\<forall>c \<in> set (bs_confirmations ?b). hc_timestamp c \<notin> set ts"
    unfolding b using Cons.prems by (auto simp: stamped_def)
  with Cons.IH [of ?b] Cons.prems show ?case by (simp add: b st)
qed simp

text \<open>C36. The quorum counts messages, not producers: confirmations are told apart by their time stamp and their signature is not
  looked at, so two thirds as many messages as there are producers, all naming one active producer, make a block
  count as final.\<close>

theorem single_producer_solidifies:
  assumes "ps_isExist p (bs_activeProducers bs)" "bs_confirmations bs = []" "bs_confirmCount bs = 0"
    and "distinct ts" "length ts = (ps_size (bs_activeProducers bs) * 2) div 3" "length ts < 256"
  shows "bs_isSolidified (fold addConfirmation (map (\<lambda>t. stamped bs chain p (sg t) t) ts) bs)"
proof -
  note all = stamped_all [OF assms(1,4), of chain sg]
  have "ps_size (bs_activeProducers bs) \<noteq> 0" using assms(1) by (auto simp: ps_isExist_def ps_size_def)
  moreover have "unat (word_of_nat (length ts) :: byte) = length ts"
    using assms(6) by (simp add: unsigned_of_nat take_bit_eq_mod)
  ultimately show ?thesis using all assms by (simp add: bs_isSolidified_def)
qed

definition sample_state :: block_state where
  "sample_state = EmptyBlockState\<lparr>bs_activeProducers := \<lparr>ps_timestamp = 0, ps_producers = map (\<lambda>a. new_producer a 0) [1, 2, 3]\<rparr>\<rparr>"

theorem single_producer_solidifies_witness:
  "bs_isSolidified (fold addConfirmation (map (\<lambda>t. stamped sample_state 1 2 empty_sig t) [10, 11]) sample_state)"
  by (rule single_producer_solidifies)
    (simp_all add: sample_state_def EmptyBlockState_def ps_isExist_def ps_size_def new_producer_def)

theorem blockstate_roundtrip_witness:
  "\<exists>d. blockState_getRLPData EmptyBlockState = Inr d \<and>
    blockState_decode sample_state d = sample_state\<lparr>bs_blockNumber := 0, bs_blockID := 0,
      bs_activeProducers := \<lparr>ps_timestamp = 0, ps_producers = []\<rparr>, bs_confirmCount := 0, bs_confirmations := []\<rparr>"
proof -
  have snap: "snapshot_ok \<lparr>ps_timestamp = 0, ps_producers = []\<rparr>"
    by (simp add: snapshot_ok_def timestamp_ok_def snapshot_rlp_def snapshot_items_def rlp_list_def rlp_int_def rlp_str_def
        rlp_header_def rlp_max_def)
  have "length (concat (blockState_items EmptyBlockState)) < 1000"
    using word_sizes(2) [of "0 :: u64"] word_sizes(4) [of 32 "0 :: h256"] word_sizes(1) [of "0 :: u32"]
    by (simp add: blockState_items_def EmptyBlockState_def snapshot_rlp_def snapshot_items_def rlp_list_def rlp_int_def rlp_str_def
        rlp_header_def)
  then have "blockState_ok EmptyBlockState"
    using snap list_size [of "concat (blockState_items EmptyBlockState)"]
    by (simp add: blockState_ok_def EmptyBlockState_def blockState_rlp_def rlp_max_def)
  from blockstate_roundtrip [OF this, of sample_state] show ?thesis
    by (simp add: sample_state_def EmptyBlockState_def)
qed

end
