(* ===== verification/RollbackState.thy ===== *)
theory RollbackState
  imports BlockState
begin

text \<open>
  \<open>chain/RollbackState\<close>: the tree of blocks that are not yet final. The \<open>multi_index_container\<close> is the list of its
  elements in insertion order; an ordered non-unique index keeps equal keys in that order. A stored block state is
  shared between the container and the pointers to it: the members that change (confirmations and the BFT number) are
  only read through the container, so the head is kept as a copy. The loops that follow parent links are partial
  functions; they are shown to end because a parent is always inserted before its children.
\<close>

section \<open>State\<close>

record rollback =
  rs_head :: "block_state option"
  rs_index :: "block_state list"
  rs_solidifyNumber :: u64

definition empty_rollback :: rollback where
  "empty_rollback = \<lparr>rs_head = None, rs_index = [], rs_solidifyNumber = 0\<rparr>"

definition rs_close :: "rollback \<Rightarrow> rollback" where
  "rs_close rs = rs\<lparr>rs_index := []\<rparr>"

definition by_id :: "h256 \<Rightarrow> block_state list \<Rightarrow> block_state option" where
  "by_id blockID idx = List.find (\<lambda>b. bs_blockID b = blockID) idx"

definition rs_getBlock :: "h256 \<Rightarrow> rollback \<Rightarrow> block_state option" where
  "rs_getBlock blockID rs = by_id blockID (rs_index rs)"

definition rs_getBlockByNumber :: "u64 \<Rightarrow> rollback \<Rightarrow> block_state option" where
  "rs_getBlockByNumber number rs = List.find (\<lambda>b. bs_blockNumber b = number) (rs_index rs)"

text \<open>The first element of an ordered index.\<close>

fun begin_of :: "('a \<Rightarrow> 'a \<Rightarrow> bool) \<Rightarrow> 'a list \<Rightarrow> 'a option" where
  "begin_of before [] = None"
| "begin_of before (x # xs) = Some (foldl (\<lambda>m y. if before y m then y else m) x xs)"

definition ByBlockNumber :: "block_state \<Rightarrow> block_state \<Rightarrow> bool" where
  "ByBlockNumber a b \<longleftrightarrow> bs_blockNumber a > bs_blockNumber b"

definition ByUpBlockNumber :: "block_state \<Rightarrow> block_state \<Rightarrow> bool" where
  "ByUpBlockNumber a b \<longleftrightarrow> bs_blockNumber a < bs_blockNumber b"

definition ByMultiBlockNumber :: "block_state \<Rightarrow> block_state \<Rightarrow> bool" where
  "ByMultiBlockNumber a b \<longleftrightarrow> bs_bftSolidifyBlockNumber a > bs_bftSolidifyBlockNumber b \<or>
     bs_bftSolidifyBlockNumber a = bs_bftSolidifyBlockNumber b \<and> bs_blockNumber a < bs_blockNumber b"

section \<open>Insertion\<close>

type_synonym 'a rollback_op = "(rollback, exn, 'a) exec"

definition rs_set :: "block_state \<Rightarrow> unit rollback_op" where
  "rs_set bsp = (\<lambda>rs.
     if by_id (bs_blockID bsp) (rs_index rs) \<noteq> None then (Inl RollbackStateException, rs)
     else let rs1 = rs\<lparr>rs_index := rs_index rs @ [bsp]\<rparr> in
       (Inr (), case rs_head rs of
          None \<Rightarrow> rs1\<lparr>rs_head := Some bsp\<rparr>
        | Some h \<Rightarrow> if bs_blockNumber h < bs_blockNumber bsp then rs1\<lparr>rs_head := Some bsp\<rparr> else rs1))"

text \<open>\<open>add(BlockStatePtr)\<close>; the block state passed to the signal \<open>m_solidifiable\<close> is returned.\<close>

definition rs_add_state :: "block_state \<Rightarrow> block_state option rollback_op" where
  "rs_add_state nextBSP = (\<lambda>rs.
     if by_id (bs_blockID nextBSP) (rs_index rs) \<noteq> None then (Inl RollbackStateException, rs)
     else let idx = rs_index rs @ [nextBSP];
              rs1 = rs\<lparr>rs_index := idx, rs_head := begin_of ByBlockNumber idx\<rparr> in
       (case (begin_of ByMultiBlockNumber idx, begin_of ByUpBlockNumber idx) of
          (Some multi, Some oldest) \<Rightarrow>
            let solidifyNumber = bs_bftSolidifyBlockNumber multi in
            if bs_blockNumber oldest < solidifyNumber
            then (Inr (rs_getBlockByNumber solidifyNumber rs1), rs1)
            else (Inr None, rs1)
        | _ \<Rightarrow> (Inl RollbackStateException, rs1)))"

definition rs_add_block :: "byte \<Rightarrow> int \<Rightarrow> block \<Rightarrow> producer_snapshot \<Rightarrow> block_state option rollback_op" where
  "rs_add_block c0 t0 b ps = (\<lambda>rs.
     if rs_head rs = None then (Inl RollbackStateException, rs)
     else if by_id (block_getHash b) (rs_index rs) \<noteq> None then (Inl RollbackStateException, rs)
     else if by_id (h_parentHash (b_header b)) (rs_index rs) = None then (Inl RollbackStateException, rs)
     else rs_add_state (bs_setProducerSnapshot ps (new_blockState c0 t0 b)) rs)"

section \<open>Removal\<close>

definition erase_id :: "h256 \<Rightarrow> block_state list \<Rightarrow> block_state list" where
  "erase_id blockID idx = filter (\<lambda>b. bs_blockID b \<noteq> blockID) idx"

partial_function (option) remove_loop :: "h256 \<Rightarrow> block_state list \<Rightarrow> block_state list option" where
  "remove_loop blockID idx =
     (case by_id blockID idx of
        None \<Rightarrow> Some idx
      | Some b \<Rightarrow>
          (case by_id (bs_getPrev b) idx of
             None \<Rightarrow> Some (erase_id blockID idx)
           | Some p \<Rightarrow> Option.bind (remove_loop (bs_getPrev b) idx) (\<lambda>idx'. Some (erase_id blockID idx'))))"

declare remove_loop.simps [code]

definition rs_remove :: "h256 \<Rightarrow> rollback \<Rightarrow> rollback option" where
  "rs_remove blockID rs = map_option (\<lambda>idx. rs\<lparr>rs_index := idx\<rparr>) (remove_loop blockID (rs_index rs))"

definition rs_removeNumber :: "u64 \<Rightarrow> rollback \<Rightarrow> rollback option" where
  "rs_removeNumber number rs =
     (case rs_getBlockByNumber number rs of None \<Rightarrow> Some rs | Some b \<Rightarrow> rs_remove (bs_blockID b) rs)"

section \<open>Confirmations\<close>

definition on_block :: "h256 \<Rightarrow> (block_state \<Rightarrow> block_state) \<Rightarrow> rollback \<Rightarrow> rollback" where
  "on_block blockID f rs = rs\<lparr>rs_index := map (\<lambda>b. if bs_blockID b = blockID then f b else b) (rs_index rs)\<rparr>"

definition setBFTSolidify :: "h256 \<Rightarrow> rollback \<Rightarrow> rollback" where
  "setBFTSolidify blockID rs = on_block blockID (\<lambda>b. b\<lparr>bs_bftSolidifyBlockNumber := bs_blockNumber b\<rparr>) rs"

definition rs_confirm :: "header_confirmation \<Rightarrow> rollback \<Rightarrow> rollback" where
  "rs_confirm hc rs =
     (case rs_getBlock (hc_blockID hc) rs of
        None \<Rightarrow> rs
      | Some b0 \<Rightarrow>
          let b = addConfirmation hc b0; rs1 = on_block (hc_blockID hc) (addConfirmation hc) rs in
          if bs_bftSolidifyBlockNumber b < bs_blockNumber b \<and>
             length (bs_confirmations b) \<ge> (ps_size (bs_activeProducers b) * 2) div 3
          then setBFTSolidify (bs_blockID b) rs1 else rs1)"

definition setSolidifyNumber :: "u64 \<Rightarrow> rollback \<Rightarrow> rollback" where
  "setSolidifyNumber number rs = rs\<lparr>rs_solidifyNumber := number\<rparr>"

definition addSyncBlockState :: "block_state \<Rightarrow> rollback \<Rightarrow> rollback" where
  "addSyncBlockState bs rs =
     (if bs_blockNumber bs \<le> rs_solidifyNumber rs then rs else fold rs_confirm (bs_confirmations bs) rs)"

section \<open>Branches\<close>

text \<open>The first two loops of \<open>fetchBranchFrom\<close>: climb from \<open>x\<close> until it is not above \<open>other\<close>.\<close>

partial_function (option) climb ::
  "block_state list \<Rightarrow> block_state \<Rightarrow> block_state \<Rightarrow> block_state list \<Rightarrow> (exn + block_state \<times> block_state list) option" where
  "climb idx x other branch =
     (if bs_blockNumber x > bs_blockNumber other
      then (case by_id (bs_getPrev x) idx of
              None \<Rightarrow> Some (Inl RollbackStateAncestorException)
            | Some p \<Rightarrow> climb idx p other (branch @ [x]))
      else Some (Inr (x, branch)))"

text \<open>The third loop: both climb in step; a missing parent ends it (the exception object is built but not thrown).\<close>

partial_function (option) climb_both ::
  "block_state list \<Rightarrow> block_state option \<Rightarrow> block_state option \<Rightarrow> block_state list \<times> block_state list \<Rightarrow>
   (block_state list \<times> block_state list) option" where
  "climb_both idx first second result =
     (case (first, second) of
        (Some f, Some s) \<Rightarrow>
          if bs_getPrev f \<noteq> bs_getPrev s
          then climb_both idx (by_id (bs_getPrev f) idx) (by_id (bs_getPrev s) idx) (fst result @ [f], snd result @ [s])
          else Some result
      | _ \<Rightarrow> Some result)"

definition fetchBranchFrom :: "h256 \<Rightarrow> h256 \<Rightarrow> rollback \<Rightarrow> (exn + block_state list \<times> block_state list) option" where
  "fetchBranchFrom first second rs =
     (let idx = rs_index rs in
      case (by_id first idx, by_id second idx) of
        (Some f, Some s) \<Rightarrow>
          Option.bind (climb idx f s []) (\<lambda>r1. case r1 of Inl e \<Rightarrow> Some (Inl e) | Inr (f1, b1) \<Rightarrow>
          Option.bind (climb idx s f1 []) (\<lambda>r2. case r2 of Inl e \<Rightarrow> Some (Inl e) | Inr (s1, b2) \<Rightarrow>
          map_option Inr (climb_both idx (Some f1) (Some s1) (b1, b2))))
      | _ \<Rightarrow> Some (Inr ([], [])))"

partial_function (option) rollback_loop ::
  "block_state list \<Rightarrow> block_state \<Rightarrow> block_state \<Rightarrow> block_state list \<Rightarrow> (block_state \<times> block_state list) option option" where
  "rollback_loop idx first prevItem branch =
     (if bs_blockNumber first < bs_blockNumber prevItem
      then (case by_id (bs_getPrev prevItem) idx of
              None \<Rightarrow> Some None
            | Some p \<Rightarrow> rollback_loop idx first p (branch @ [prevItem]))
      else Some (Some (prevItem, branch)))"

text \<open>\<open>rollbackTo\<close> returns its verdict and the branch.\<close>

definition rollbackTo :: "block_state \<Rightarrow> block_state \<Rightarrow> rollback \<Rightarrow> (bool \<times> block_state list) option" where
  "rollbackTo first second rs =
     map_option (\<lambda>r. case r of
         None \<Rightarrow> (False, [])
       | Some (prevItem, branch) \<Rightarrow>
           if bs_blockNumber first \<noteq> bs_blockNumber prevItem then (False, [])
           else if bs_getPrev first \<noteq> bs_getPrev prevItem then (False, [])
           else (True, branch))
       (rollback_loop (rs_index rs) first second [])"

section \<open>Parents come first\<close>

definition parents_first :: "block_state list \<Rightarrow> bool" where
  "parents_first idx \<longleftrightarrow> distinct (map bs_blockID idx) \<and>
     (\<forall>i j. i < length idx \<longrightarrow> j < length idx \<longrightarrow> bs_getPrev (idx ! i) = bs_blockID (idx ! j) \<longrightarrow> j < i)"

lemma by_id_Some:
  assumes "by_id x idx = Some b"
  shows "b \<in> set idx" "bs_blockID b = x"
  using assms by (auto simp: by_id_def find_Some_iff)

lemma by_id_None: "by_id x idx = None \<longleftrightarrow> (\<forall>b \<in> set idx. bs_blockID b \<noteq> x)"
  by (auto simp: by_id_def find_None_iff)

lemma by_id_member: "distinct (map bs_blockID idx) \<Longrightarrow> b \<in> set idx \<Longrightarrow> by_id (bs_blockID b) idx = Some b"
  by (induction idx) (auto simp: by_id_def)

text \<open>The position of a block in the list decreases along parent links.\<close>

definition position :: "block_state list \<Rightarrow> h256 \<Rightarrow> nat" where
  "position idx x = length (takeWhile (\<lambda>b. bs_blockID b \<noteq> x) idx)"

lemma position_nth:
  assumes "by_id x idx = Some b"
  shows "position idx x < length idx" "idx ! position idx x = b"
proof -
  have "\<exists>b \<in> set idx. bs_blockID b = x" using by_id_Some [OF assms] by blast
  then show "position idx x < length idx" unfolding position_def by (induction idx) auto
  show "idx ! position idx x = b" using assms by (induction idx) (auto simp: by_id_def position_def split: if_splits)
qed

lemma position_parent:
  assumes "parents_first idx" "by_id x idx = Some b" "by_id (bs_getPrev b) idx = Some p"
  shows "position idx (bs_getPrev b) < position idx x"
  using assms(1) position_nth [OF assms(2)] position_nth [OF assms(3)] by_id_Some(2) [OF assms(3)]
  unfolding parents_first_def by auto

section \<open>Removal takes the whole lineage\<close>

text \<open>\<open>lineage idx x y\<close>: y is x or one of its ancestors in the list.\<close>

inductive lineage :: "block_state list \<Rightarrow> h256 \<Rightarrow> h256 \<Rightarrow> bool" for idx where
  self: "b \<in> set idx \<Longrightarrow> lineage idx (bs_blockID b) (bs_blockID b)"
| parent: "b \<in> set idx \<Longrightarrow> lineage idx (bs_getPrev b) y \<Longrightarrow> lineage idx (bs_blockID b) y"

lemma lineage_in: "lineage idx x y \<Longrightarrow> x \<in> bs_blockID ` set idx"
  by (induction rule: lineage.induct) auto

lemma lineage_step:
  assumes "distinct (map bs_blockID idx)" "by_id x idx = Some b"
  shows "lineage idx x y \<longleftrightarrow> y = x \<or> lineage idx (bs_getPrev b) y"
proof
  have b: "b \<in> set idx" "bs_blockID b = x" using by_id_Some [OF assms(2)] by auto
  show "y = x \<or> lineage idx (bs_getPrev b) y \<Longrightarrow> lineage idx x y"
    using lineage.self [OF b(1)] lineage.parent [OF b(1)] b(2) by auto
  assume "lineage idx x y"
  then show "y = x \<or> lineage idx (bs_getPrev b) y"
  proof (cases rule: lineage.cases)
    case (parent c)
    then have "c = b" using by_id_member [OF assms(1)] assms(2) by fastforce
    then show ?thesis using parent by simp
  qed simp
qed

lemma remove_loop_lineage:
  assumes "parents_first idx"
  shows "remove_loop x idx = Some (filter (\<lambda>b. \<not> lineage idx x (bs_blockID b)) idx)"
proof (induction "position idx x" arbitrary: x rule: less_induct)
  case less
  have dist: "distinct (map bs_blockID idx)" using assms by (simp add: parents_first_def)
  show ?case
  proof (cases "by_id x idx")
    case None
    then have "\<not> lineage idx x y" for y using lineage_in by (fastforce simp: by_id_None)
    then show ?thesis using None by (simp add: remove_loop.simps)
  next
    case (Some b)
    note step = lineage_step [OF dist Some]
    show ?thesis
    proof (cases "by_id (bs_getPrev b) idx")
      case None
      then have "\<not> lineage idx (bs_getPrev b) y" for y using lineage_in by (fastforce simp: by_id_None)
      then show ?thesis using Some None by (simp add: remove_loop.simps [of x] erase_id_def step)
    next
      case p: (Some p)
      have "remove_loop (bs_getPrev b) idx = Some (filter (\<lambda>c. \<not> lineage idx (bs_getPrev b) (bs_blockID c)) idx)"
        by (rule less) (rule position_parent [OF assms Some p])
      then show ?thesis using Some p
        by (simp add: remove_loop.simps [of x] erase_id_def step conj_commute)
    qed
  qed
qed

lemma parents_first_filter:
  assumes "parents_first idx"
  shows "parents_first (filter P idx)"
  using assms
proof (induction idx rule: rev_induct)
  case (snoc b idx)
  have sub: "parents_first idx"
    unfolding parents_first_def
  proof (intro conjI allI impI)
    show "distinct (map bs_blockID idx)" using snoc.prems by (simp add: parents_first_def)
    fix i j assume "i < length idx" "j < length idx" "bs_getPrev (idx ! i) = bs_blockID (idx ! j)"
    then show "j < i" using snoc.prems unfolding parents_first_def by (auto simp: nth_append dest!: spec [of _ i] spec [of _ j])
  qed
  have new: "bs_getPrev x \<noteq> bs_blockID b" if "x \<in> set (idx @ [b])" for x
  proof
    assume "bs_getPrev x = bs_blockID b"
    moreover obtain i where "i < length (idx @ [b])" "(idx @ [b]) ! i = x" using \<open>x \<in> set (idx @ [b])\<close> by (metis in_set_conv_nth)
    ultimately have "length idx < i" using snoc.prems unfolding parents_first_def by (auto dest!: spec [of _ i] spec [of _ "length idx"])
    then show False using \<open>i < length (idx @ [b])\<close> by simp
  qed
  show ?case
  proof (cases "P b")
    case True
    have "parents_first (filter P idx @ [b])"
      unfolding parents_first_def
    proof (intro conjI allI impI)
      show "distinct (map bs_blockID (filter P idx @ [b]))"
        using snoc.prems by (auto simp: parents_first_def distinct_map inj_on_def)
      fix i j assume ij: "i < length (filter P idx @ [b])" "j < length (filter P idx @ [b])"
        and eq: "bs_getPrev ((filter P idx @ [b]) ! i) = bs_blockID ((filter P idx @ [b]) ! j)"
      have "(filter P idx @ [b]) ! i \<in> set (idx @ [b])" using nth_mem [OF ij(1)] by auto
      then have j: "j < length (filter P idx)" using new eq ij by (auto simp: nth_append split: if_splits)
      show "j < i"
      proof (cases "i < length (filter P idx)")
        case True
        then show ?thesis using snoc.IH [OF sub] eq j unfolding parents_first_def by (auto simp: nth_append)
      next
        case False
        then show ?thesis using j by simp
      qed
    qed
    then show ?thesis using True by simp
  next
    case False
    then show ?thesis using snoc.IH [OF sub] by simp
  qed
qed simp

lemma parents_first_snoc:
  assumes "parents_first idx" "by_id (bs_blockID b) idx = None"
    and "\<forall>x \<in> set (idx @ [b]). bs_getPrev x \<noteq> bs_blockID b"
  shows "parents_first (idx @ [b])"
  unfolding parents_first_def
proof (intro conjI allI impI)
  show "distinct (map bs_blockID (idx @ [b]))" using assms by (auto simp: parents_first_def by_id_None)
  fix i j assume ij: "i < length (idx @ [b])" "j < length (idx @ [b])"
    and eq: "bs_getPrev ((idx @ [b]) ! i) = bs_blockID ((idx @ [b]) ! j)"
  have "(idx @ [b]) ! i \<in> set (idx @ [b])" using nth_mem [OF ij(1)] .
  then have j: "j < length idx" using assms(3) eq ij by (auto simp: nth_append split: if_splits)
  show "j < i"
  proof (cases "i < length idx")
    case True
    then show ?thesis using assms(1) eq j unfolding parents_first_def by (auto simp: nth_append)
  qed (use j in simp)
qed

text \<open>C21. \<open>remove(blockID)\<close> returns: it takes the block and every ancestor of it that is still in the container, and
  nothing else, and the parents of what remains still come first.\<close>

theorem remove_takes_lineage:
  assumes "parents_first (rs_index rs)"
  shows "\<exists>rs'. rs_remove x rs = Some rs' \<and> rs_index rs' = filter (\<lambda>b. \<not> lineage (rs_index rs) x (bs_blockID b)) (rs_index rs) \<and>
    rs_head rs' = rs_head rs \<and> parents_first (rs_index rs')"
  using remove_loop_lineage [OF assms] parents_first_filter [OF assms] by (simp add: rs_remove_def)

section \<open>Rolling back\<close>

text \<open>A branch: each element is followed by its parent, and all are above the given number.\<close>

fun branch_from :: "block_state list \<Rightarrow> u64 \<Rightarrow> block_state \<Rightarrow> block_state list \<Rightarrow> block_state \<Rightarrow> bool" where
  "branch_from idx n b [] low \<longleftrightarrow> b = low \<and> bs_blockNumber low \<le> n"
| "branch_from idx n b (x # xs) low \<longleftrightarrow> x = b \<and> n < bs_blockNumber b \<and>
     (\<exists>p. by_id (bs_getPrev b) idx = Some p \<and> branch_from idx n p xs low)"

lemma rollback_loop_spec:
  assumes "parents_first idx" "by_id (bs_blockID b) idx = Some b"
  shows "rollback_loop idx first b br = Some None \<or>
    (\<exists>xs low. rollback_loop idx first b br = Some (Some (low, br @ xs)) \<and> branch_from idx (bs_blockNumber first) b xs low)"
  using assms(2)
proof (induction "position idx (bs_blockID b)" arbitrary: b br rule: less_induct)
  case less
  show ?case
  proof (cases "bs_blockNumber first < bs_blockNumber b")
    case False
    then show ?thesis by (subst (1 2) rollback_loop.simps) (auto intro!: exI [of _ "[]"])
  next
    case True
    show ?thesis
    proof (cases "by_id (bs_getPrev b) idx")
      case None
      then show ?thesis using True by (subst rollback_loop.simps) simp
    next
      case (Some p)
      have id: "bs_blockID p = bs_getPrev b" by (rule by_id_Some(2) [OF Some])
      have "position idx (bs_blockID p) < position idx (bs_blockID b)"
        using position_parent [OF assms(1) less.prems Some] id by simp
      from less.hyps [OF this, of "br @ [b]"] Some id consider
          "rollback_loop idx first p (br @ [b]) = Some None"
        | xs l where "rollback_loop idx first p (br @ [b]) = Some (Some (l, (br @ [b]) @ xs))"
            "branch_from idx (bs_blockNumber first) p xs l"
        by auto
      then show ?thesis
      proof cases
        case 1
        then show ?thesis using True Some by (subst rollback_loop.simps) simp
      next
        case (2 xs l)
        then have "rollback_loop idx first b br = Some (Some (l, br @ b # xs))"
          using True Some by (subst rollback_loop.simps) simp
        then show ?thesis using 2(2) True Some by (intro disjI2 exI [of _ "b # xs"] exI [of _ l]) simp
      qed
    qed
  qed
qed


section \<open>Reachable states\<close>

text \<open>The calls the node makes on its rollback state, from the state that holds the last final block. No block in the
  container is a child of a block that arrives later (a hash cannot be chosen before what it hashes).\<close>

inductive rollback_step :: "rollback \<Rightarrow> rollback \<Rightarrow> bool" where
  add: "rs_add_block c0 t0 b ps rs = (r, rs') \<Longrightarrow> \<forall>x \<in> set (rs_index rs). bs_getPrev x \<noteq> block_getHash b \<Longrightarrow>
    rollback_step rs rs'"
| confirm: "rollback_step rs (rs_confirm hc rs)"
| sync: "rollback_step rs (addSyncBlockState bs rs)"
| remove: "rs_remove x rs = Some rs' \<Longrightarrow> rollback_step rs rs'"
| removeNumber: "rs_removeNumber n rs = Some rs' \<Longrightarrow> rollback_step rs rs'"
| solidify: "rollback_step rs (setSolidifyNumber n rs)"

inductive rollback_reaches :: "block_state \<Rightarrow> rollback \<Rightarrow> bool" for root where
  start: "rs_set root empty_rollback = (Inr (), rs) \<Longrightarrow> rollback_reaches root rs"
| step: "rollback_reaches root rs \<Longrightarrow> rollback_step rs rs' \<Longrightarrow> rollback_reaches root rs'"

definition quorum :: "block_state \<Rightarrow> bool" where
  "quorum b \<longleftrightarrow> (ps_size (bs_activeProducers b) * 2) div 3 \<le> length (bs_confirmations b)"

definition solid_ok :: "h256 \<Rightarrow> block_state \<Rightarrow> bool" where
  "solid_ok root b \<longleftrightarrow> confirmations_inv b \<and>
     (bs_bftSolidifyBlockNumber b = 0 \<or> bs_bftSolidifyBlockNumber b = bs_blockNumber b \<and> (quorum b \<or> bs_blockID b = root))"

definition rollback_inv :: "h256 \<Rightarrow> rollback \<Rightarrow> bool" where
  "rollback_inv root rs \<longleftrightarrow> parents_first (rs_index rs) \<and> (\<forall>b \<in> set (rs_index rs). solid_ok root b)"

lemma parents_first_map:
  assumes "parents_first idx" "\<And>b. bs_blockID (f b) = bs_blockID b \<and> bs_getPrev (f b) = bs_getPrev b"
  shows "parents_first (map f idx)"
proof -
  have "bs_blockID \<circ> f = bs_blockID" using assms(2) by auto
  then show ?thesis using assms unfolding parents_first_def by simp
qed

lemma rollback_inv_on_block:
  assumes "rollback_inv root rs" "\<And>b. bs_blockID (f b) = bs_blockID b \<and> bs_getPrev (f b) = bs_getPrev b"
    "\<And>b. b \<in> set (rs_index rs) \<Longrightarrow> bs_blockID b = x \<Longrightarrow> solid_ok root b \<Longrightarrow> solid_ok root (f b)"
  shows "rollback_inv root (on_block x f rs)"
  using assms parents_first_map [of "rs_index rs" "\<lambda>b. if bs_blockID b = x then f b else b"]
  by (auto simp: rollback_inv_def on_block_def)

lemma quorum_addConfirmation: "quorum b \<Longrightarrow> quorum (addConfirmation hc b)"
  by (auto simp: quorum_def addConfirmation_def)

lemma solid_ok_addConfirmation: "solid_ok root b \<Longrightarrow> solid_ok root (addConfirmation hc b)"
  by (auto simp: solid_ok_def addConfirmation_inv quorum_addConfirmation)

lemma rollback_inv_confirm:
  assumes inv: "rollback_inv root rs"
  shows "rollback_inv root (rs_confirm hc rs)"
proof (cases "rs_getBlock (hc_blockID hc) rs")
  case None
  then show ?thesis using inv by (simp add: rs_confirm_def)
next
  case (Some b0)
  let ?rs1 = "on_block (hc_blockID hc) (addConfirmation hc) rs" and ?b = "addConfirmation hc b0"
  have inv1: "rollback_inv root ?rs1" by (rule rollback_inv_on_block [OF inv]) (simp_all add: solid_ok_addConfirmation)
  have dist: "distinct (map bs_blockID (rs_index rs))" using inv by (simp add: rollback_inv_def parents_first_def)
  have b0: "b0 \<in> set (rs_index rs)" "bs_blockID b0 = hc_blockID hc"
    using by_id_Some Some by (auto simp: rs_getBlock_def)
  show ?thesis
  proof (cases "bs_bftSolidifyBlockNumber ?b < bs_blockNumber ?b \<and> length (bs_confirmations ?b) \<ge> (ps_size (bs_activeProducers ?b) * 2) div 3")
    case True
    then have q: "quorum ?b" by (simp add: quorum_def)
    have "rollback_inv root (setBFTSolidify (bs_blockID ?b) ?rs1)"
      unfolding setBFTSolidify_def
    proof (rule rollback_inv_on_block [OF inv1])
      fix c assume c: "c \<in> set (rs_index ?rs1)" "bs_blockID c = bs_blockID ?b" "solid_ok root c"
      then obtain d where d: "d \<in> set (rs_index rs)" "c = addConfirmation hc d" "bs_blockID d = hc_blockID hc"
        using b0 by (auto simp: on_block_def split: if_splits)
      have "d = b0" using by_id_member [OF dist d(1)] by_id_member [OF dist b0(1)] d(3) b0(2) by simp
      then have "quorum c" using q d by simp
      then show "solid_ok root (c\<lparr>bs_bftSolidifyBlockNumber := bs_blockNumber c\<rparr>)"
        using c(3) by (simp add: solid_ok_def confirmations_inv_def quorum_def)
    qed (simp add: bs_getPrev_def)
    then show ?thesis using True Some by (simp add: rs_confirm_def Let_def)
  next
    case False
    then show ?thesis using inv1 Some by (auto simp: rs_confirm_def Let_def)
  qed
qed

lemma rollback_inv_remove:
  assumes "rollback_inv root rs" "rs_remove x rs = Some rs'"
  shows "rollback_inv root rs'"
  using assms remove_loop_lineage [of "rs_index rs" x] parents_first_filter [of "rs_index rs"]
  by (auto simp: rollback_inv_def rs_remove_def)

lemma rollback_inv_add_state:
  assumes "rollback_inv root rs" "solid_ok root bsp" "rs_add_state bsp rs = (r, rs')"
    "\<forall>x \<in> set (rs_index rs). bs_getPrev x \<noteq> bs_blockID bsp" "bs_getPrev bsp \<noteq> bs_blockID bsp"
  shows "rollback_inv root rs'"
proof (cases "by_id (bs_blockID bsp) (rs_index rs)")
  case None
  have "parents_first (rs_index rs @ [bsp])"
    by (rule parents_first_snoc) (use assms None in \<open>auto simp: rollback_inv_def\<close>)
  moreover have "rs_index rs' = rs_index rs @ [bsp]"
    using assms(3) None by (auto simp: rs_add_state_def Let_def split: option.splits if_splits)
  ultimately show ?thesis using assms(1,2) by (auto simp: rollback_inv_def)
next
  case (Some b)
  then show ?thesis using assms by (simp add: rs_add_state_def)
qed

lemma rollback_inv_step: "rollback_step rs rs' \<Longrightarrow> rollback_inv root rs \<Longrightarrow> rollback_inv root rs'"
proof (induction rule: rollback_step.induct)
  case (add c0 t0 b ps rs r rs')
  let ?bsp = "bs_setProducerSnapshot ps (new_blockState c0 t0 b)"
  have simps: "bs_blockID ?bsp = block_getHash b" "bs_getPrev ?bsp = h_parentHash (b_header b)" "solid_ok root ?bsp"
    by (simp_all add: bs_setProducerSnapshot_def new_blockState_def bs_getPrev_def solid_ok_def confirmations_inv_def)
  show ?case
  proof (cases "rs_head rs = None \<or> by_id (block_getHash b) (rs_index rs) \<noteq> None \<or> by_id (h_parentHash (b_header b)) (rs_index rs) = None")
    case True
    then have "rs' = rs" using add.hyps(1) by (auto simp: rs_add_block_def split: if_splits)
    then show ?thesis using add.prems by simp
  next
    case False
    then have "h_parentHash (b_header b) \<noteq> block_getHash b" by auto
    moreover have "rs_add_state ?bsp rs = (r, rs')" using False add.hyps(1) by (auto simp: rs_add_block_def split: if_splits)
    ultimately show ?thesis using rollback_inv_add_state [OF add.prems simps(3)] add.hyps(2) simps by simp
  qed
next
  case (sync rs bs)
  have "rollback_inv root (fold rs_confirm hcs r)" if "rollback_inv root r" for hcs r
    using that by (induction hcs arbitrary: r) (simp_all add: rollback_inv_confirm)
  then show ?case using sync by (simp add: addSyncBlockState_def)
next
  case (removeNumber n rs rs')
  then show ?case using rollback_inv_remove by (auto simp: rs_removeNumber_def split: option.splits)
next
  case (solidify rs n)
  then show ?case by (simp add: setSolidifyNumber_def rollback_inv_def)
qed (simp_all add: rollback_inv_confirm rollback_inv_remove)

lemma reaches_inv:
  assumes "rollback_reaches root rs" "bs_bftSolidifyBlockNumber root = bs_blockNumber root" "bs_confirmations root = []"
    "bs_getPrev root \<noteq> bs_blockID root"
  shows "rollback_inv (bs_blockID root) rs"
  using assms(1)
proof (induction rule: rollback_reaches.induct)
  case (start rs)
  then have "rs_index rs = [root]" by (auto simp: rs_set_def empty_rollback_def by_id_def)
  then show ?case using assms(2-)
    by (simp add: rollback_inv_def parents_first_def solid_ok_def confirmations_inv_def)
next
  case (step rs rs')
  then show ?case using rollback_inv_step by blast
qed

text \<open>C5. In every state the node can reach from the last final block: identifiers are unique, a parent precedes its
  children, and a block other than that one is marked final only when it holds at least floor(2n/3) pairwise different
  confirmations for it by its n active producers.\<close>

theorem rollback_quorum:
  assumes "rollback_reaches root rs" "bs_bftSolidifyBlockNumber root = bs_blockNumber root" "bs_confirmations root = []"
    and "bs_getPrev root \<noteq> bs_blockID root" "b \<in> set (rs_index rs)" "bs_bftSolidifyBlockNumber b \<noteq> 0"
  shows "parents_first (rs_index rs) \<and> bs_bftSolidifyBlockNumber b = bs_blockNumber b \<and>
    (bs_blockID b = bs_blockID root \<or>
      (ps_size (bs_activeProducers b) * 2) div 3 \<le> length (bs_confirmations b) \<and>
      sorted_wrt (\<lambda>c d. \<not> confirmation_eq c d) (bs_confirmations b) \<and>
      (\<forall>c \<in> set (bs_confirmations b). hc_blockID c = bs_blockID b \<and> ps_isExist (hc_producer c) (bs_activeProducers b)))"
  using reaches_inv [OF assms(1-4)] assms(5,6)
  by (auto simp: rollback_inv_def solid_ok_def confirmations_inv_def quorum_def)

definition root_state :: block_state where
  "root_state = EmptyBlockState\<lparr>bs_blockNumber := 1, bs_bftSolidifyBlockNumber := 1, bs_blockID := 5\<rparr>"

definition root_rollback :: rollback where
  "root_rollback = \<lparr>rs_head = Some root_state, rs_index = [root_state], rs_solidifyNumber = 0\<rparr>"

lemma root_simps [simp]:
  "bs_blockNumber root_state = 1" "bs_bftSolidifyBlockNumber root_state = 1" "bs_blockID root_state = 5"
  "bs_getPrev root_state = 0" "bs_confirmations root_state = []"
  by (simp_all add: root_state_def EmptyBlockState_def bs_getPrev_def EmptyBlock_def empty_header_def)

lemma root_reached: "rollback_reaches root_state root_rollback"
  by (rule rollback_reaches.start) (simp add: rs_set_def empty_rollback_def by_id_def root_rollback_def)

theorem rollback_quorum_witness:
  "parents_first [root_state] \<and> bs_bftSolidifyBlockNumber root_state = 1"
  using rollback_quorum [OF root_reached, of root_state] by (simp add: root_rollback_def)

text \<open>Two blocks above the root, the second a child of the first.\<close>

definition state_at :: "u64 \<Rightarrow> h256 \<Rightarrow> h256 \<Rightarrow> block_state" where
  "state_at n x p = EmptyBlockState\<lparr>bs_blockNumber := n, bs_blockID := x,
     bs_block := EmptyBlock\<lparr>b_header := empty_header\<lparr>h_parentHash := p\<rparr>\<rparr>\<rparr>"

definition chain_rollback :: rollback where
  "chain_rollback = \<lparr>rs_head = None, rs_index = [state_at 1 5 0, state_at 2 6 5, state_at 3 7 6, state_at 2 8 5], rs_solidifyNumber = 0\<rparr>"

lemma state_at_simps [simp]:
  "bs_blockNumber (state_at n x p) = n" "bs_blockID (state_at n x p) = x" "bs_getPrev (state_at n x p) = p"
  by (simp_all add: state_at_def bs_getPrev_def)

lemma chain_parents_first: "parents_first (rs_index chain_rollback)"
proof -
  have "parents_first []" by (simp add: parents_first_def)
  then have "parents_first (((([] @ [state_at 1 5 0]) @ [state_at 2 6 5]) @ [state_at 3 7 6]) @ [state_at 2 8 5])"
    by (intro parents_first_snoc) (auto simp: by_id_def)
  then show ?thesis by (simp add: chain_rollback_def)
qed

theorem remove_takes_lineage_witness:
  "\<exists>rs'. rs_remove 6 chain_rollback = Some rs' \<and>
    rs_index rs' = filter (\<lambda>b. \<not> lineage (rs_index chain_rollback) 6 (bs_blockID b)) (rs_index chain_rollback) \<and>
    rs_head rs' = rs_head chain_rollback \<and> parents_first (rs_index rs')"
  by (rule remove_takes_lineage [OF chain_parents_first])


end
