(* ===== verification/Signatures.thy ===== *)
theory Signatures
  imports BlockState
begin

unbundle bit_operations_syntax

text \<open>
  \<open>crypto/Common\<close> (keys, signing, recovery), \<open>crypto/GKey\<close> and \<open>crypto/Valid\<close>, and the \<open>sign\<close> members of transactions
  and block headers. The curve is the library secp256k1: its calls are the fields of the parameter
  \<open>secp\<close>, and what they promise is \<open>secp_correct\<close>.
\<close>

type_synonym public = "512 word"
type_synonym secret = h256

text \<open>\<open>ec_sign\<close> is \<open>ecdsa_sign_recoverable\<close> with the compact serialisation, \<open>ec_recover\<close> is parsing,
  \<open>ecdsa_recover\<close> and the serialisation without its header byte, \<open>ec_pubkey\<close> is \<open>ec_pubkey_create\<close>.
  \<open>None\<close> is a call that fails.\<close>

record secp =
  ec_sign :: "secret \<Rightarrow> h256 \<Rightarrow> (h256 \<times> h256 \<times> byte) option"
  ec_recover :: "sigstruct \<Rightarrow> h256 \<Rightarrow> public option"
  ec_pubkey :: "secret \<Rightarrow> public option"

section \<open>Keys, signatures and recovery\<close>

definition toPublic :: "secp \<Rightarrow> secret \<Rightarrow> public" where
  "toPublic ec k = (case ec_pubkey ec k of None \<Rightarrow> 0 | Some p \<Rightarrow> p)"

definition right160_word :: "h256 \<Rightarrow> address" where
  "right160_word t = ucast t"

definition toAddress :: "public \<Rightarrow> address" where
  "toAddress pubKey = right160_word (sha3 (toBigEndian 64 (unat pubKey)))"

definition toAddress_secret :: "secp \<Rightarrow> secret \<Rightarrow> address" where
  "toAddress_secret ec k = toAddress (toPublic ec k)"

definition recover :: "secp \<Rightarrow> sigstruct \<Rightarrow> h256 \<Rightarrow> public" where
  "recover ec sg msg =
     (if sig_v sg > 3 then 0 else case ec_recover ec sg msg of None \<Rightarrow> 0 | Some p \<Rightarrow> p)"

definition c_secp256k1n :: h256 where
  "c_secp256k1n = 115792089237316195423570985008687907852837564279074904382605163141518161494337"

definition crypto_sign :: "secp \<Rightarrow> secret \<Rightarrow> h256 \<Rightarrow> sigstruct" where
  "crypto_sign ec k msg =
     (case ec_sign ec k msg of
        None \<Rightarrow> empty_sig
      | Some (r, s, v) \<Rightarrow>
          if s > c_secp256k1n div 2 then \<lparr>sig_r = r, sig_s = c_secp256k1n - s, sig_v = v XOR 1\<rparr>
          else \<lparr>sig_r = r, sig_s = s, sig_v = v\<rparr>)"

definition verify :: "secp \<Rightarrow> public \<Rightarrow> sigstruct \<Rightarrow> h256 \<Rightarrow> bool" where
  "verify ec p s msg = (if p = 0 then False else p = recover ec s msg)"

record gkey =
  k_secret :: secret
  k_public :: public
  k_address :: address

definition new_GKey :: "secp \<Rightarrow> secret \<Rightarrow> gkey" where
  "new_GKey ec sec =
     (let p = toPublic ec sec in
      \<lparr>k_secret = sec, k_public = p, k_address = (if p \<noteq> 0 then toAddress p else 0)\<rparr>)"

section \<open>Signing and checking the objects\<close>

definition transaction_sign :: "secp \<Rightarrow> secret \<Rightarrow> transaction \<Rightarrow> transaction" where
  "transaction_sign ec k t =
     (let sg = crypto_sign ec k (transaction_getHash t)
      in if sig_isValid sg then t\<lparr>t_signature := sg\<rparr> else t)"

definition header_sign :: "secp \<Rightarrow> secret \<Rightarrow> block_header \<Rightarrow> block_header" where
  "header_sign ec priv h =
     (let sg = crypto_sign ec priv (header_getHash h)
      in if sig_isValid sg then h\<lparr>h_signature := sg\<rparr> else h)"

definition block_sign :: "secp \<Rightarrow> secret \<Rightarrow> block \<Rightarrow> block" where
  "block_sign ec priv b = b\<lparr>b_header := header_sign ec priv (b_header b)\<rparr>"

definition validSignature_tx :: "secp \<Rightarrow> transaction \<Rightarrow> bool" where
  "validSignature_tx ec t = (toAddress (recover ec (t_signature t) (transaction_getHash t)) = t_sender t)"

definition validSignature_block :: "secp \<Rightarrow> block \<Rightarrow> bool" where
  "validSignature_block ec b =
     (if toAddress (recover ec (h_signature (b_header b)) (block_getHash b)) \<noteq> block_producer b then False
      else list_all (validSignature_tx ec) (b_transactions b))"

definition validSignature_hc :: "secp \<Rightarrow> header_confirmation \<Rightarrow> bool" where
  "validSignature_hc ec hc = (toAddress (recover ec (hc_signature hc) (confirmation_getHash hc)) = hc_producer hc)"

section \<open>What is signed is accepted\<close>

text \<open>The documented behaviour of the library: a signature has both scalars in \<open>[1, n-1]\<close> and a recovery id
  below 4; the key recovered from it is the key of the signer, and so is the key recovered after negating
  \<open>s\<close> and flipping the parity bit of the recovery id.\<close>

definition secp_correct :: "secp \<Rightarrow> bool" where
  "secp_correct ec \<longleftrightarrow> (\<forall>k msg r s v. ec_sign ec k msg = Some (r, s, v) \<longrightarrow>
     0 < r \<and> r < c_secp256k1n \<and> 0 < s \<and> s < c_secp256k1n \<and> v < 4 \<and>
     ec_recover ec \<lparr>sig_r = r, sig_s = s, sig_v = v\<rparr> msg = ec_pubkey ec k \<and>
     ec_recover ec \<lparr>sig_r = r, sig_s = c_secp256k1n - s, sig_v = v XOR 1\<rparr> msg = ec_pubkey ec k)"

lemma s_max_n: "s_max = c_secp256k1n"
  by (simp add: s_max_def c_secp256k1n_def)

lemma small_xor: "(v :: byte) < 4 \<Longrightarrow> v XOR 1 < 4" "(v :: byte) \<le> 1 \<Longrightarrow> v XOR 1 \<le> 1"
proof -
  have four: "v = 0 \<or> v = 1 \<or> v = 2 \<or> v = 3" if "v < 4"
  proof -
    have "unat v < 4" using that by (simp add: word_less_nat_alt)
    then have "unat v = 0 \<or> unat v = 1 \<or> unat v = 2 \<or> unat v = 3" by linarith
    then show ?thesis by (auto simp: word_unat_eq_iff)
  qed
  show "v < 4 \<Longrightarrow> v XOR 1 < 4" using four by auto
  assume one: "v \<le> 1"
  then have "v < 4" by (simp add: word_less_nat_alt word_le_nat_alt)
  then show "v XOR 1 \<le> 1" using four one by (auto simp: word_le_nat_alt)
qed

lemma negate_scalar:
  assumes "0 < s" "s < c_secp256k1n" "c_secp256k1n div 2 < s"
  shows "0 < c_secp256k1n - s" "c_secp256k1n - s < c_secp256k1n" "c_secp256k1n - s \<le> c_secp256k1n div 2"
proof -
  have u: "unat (c_secp256k1n - s) = unat c_secp256k1n - unat s"
    using assms(2) by (intro unat_sub) (simp add: order.strict_implies_order)
  have "unat (c_secp256k1n div 2) = unat c_secp256k1n div 2" by (simp add: unat_div)
  then show "0 < c_secp256k1n - s" "c_secp256k1n - s < c_secp256k1n" "c_secp256k1n - s \<le> c_secp256k1n div 2"
    using assms u by (simp_all add: word_less_nat_alt word_le_nat_alt)
qed

text \<open>The signature that \<open>crypto::sign\<close> returns: in the lower half, recovering to the signer's key.\<close>

lemma crypto_sign_spec:
  assumes "secp_correct ec" "ec_sign ec k msg = Some (r, s, v)"
  shows "recover ec (crypto_sign ec k msg) msg = toPublic ec k" "sig_s (crypto_sign ec k msg) \<le> c_secp256k1n div 2"
    "sig_isValid (crypto_sign ec k msg) \<longleftrightarrow> v \<le> 1"
proof -
  let ?low = "\<lparr>sig_r = r, sig_s = s, sig_v = v\<rparr>" and ?high = "\<lparr>sig_r = r, sig_s = c_secp256k1n - s, sig_v = v XOR 1\<rparr>"
  have p: "0 < r" "r < c_secp256k1n" "0 < s" "s < c_secp256k1n" "v < 4"
    "ec_recover ec ?low msg = ec_pubkey ec k" "ec_recover ec ?high msg = ec_pubkey ec k"
    using assms unfolding secp_correct_def by blast+
  have three: "(3 < w) = False" if "w < 4" for w :: byte
    using that by (simp add: word_less_nat_alt)
  have x: "v XOR 1 \<le> 1 \<longleftrightarrow> v \<le> 1" using small_xor(2) [of v] small_xor(2) [of "v XOR 1"] by (auto simp: xor.assoc)
  have "recover ec (crypto_sign ec k msg) msg = toPublic ec k \<and> sig_s (crypto_sign ec k msg) \<le> c_secp256k1n div 2 \<and>
    (sig_isValid (crypto_sign ec k msg) \<longleftrightarrow> v \<le> 1)"
  proof (cases "c_secp256k1n div 2 < s")
    case True
    then have "crypto_sign ec k msg = ?high" by (simp add: crypto_sign_def assms(2))
    then show ?thesis
      using p(1,2,7) negate_scalar [OF p(3,4) True] x
      by (simp add: recover_def toPublic_def sig_isValid_def s_max_n three [OF small_xor(1) [OF p(5)]])
  next
    case False
    then have "crypto_sign ec k msg = ?low" by (simp add: crypto_sign_def assms(2))
    then show ?thesis
      using p(1-4,6) False by (simp add: recover_def toPublic_def sig_isValid_def s_max_n three [OF p(5)] not_less)
  qed
  then show "recover ec (crypto_sign ec k msg) msg = toPublic ec k" "sig_s (crypto_sign ec k msg) \<le> c_secp256k1n div 2"
    "sig_isValid (crypto_sign ec k msg) \<longleftrightarrow> v \<le> 1" by simp_all
qed

lemma signature_not_hashed [simp]:
  "transaction_getHash (t\<lparr>t_signature := sg\<rparr>) = transaction_getHash t"
  "header_getHash (h\<lparr>h_signature := sg\<rparr>) = header_getHash h"
  "confirmation_getHash (hc\<lparr>hc_signature := sg\<rparr>) = confirmation_getHash hc"
  by (simp_all add: transaction_getHash_def transaction_streamRLPContent_def [abs_def] transaction_content_def
      header_getHash_def header_streamRLPContent_def [abs_def] header_content_def
      confirmation_getHash_def confirmation_streamRLPContent_def [abs_def] confirmation_content_def)


definition sample_secp :: secp where
  "sample_secp = \<lparr>ec_sign = (\<lambda>k msg. Some (1, 1, 0)), ec_recover = (\<lambda>sg msg. Some 7), ec_pubkey = (\<lambda>k. Some 7)\<rparr>"

lemma sample_secp_correct: "secp_correct sample_secp"
  by (simp add: secp_correct_def sample_secp_def c_secp256k1n_def)


end
