(* ===== verification/StatusCodec.thy ===== *)
theory StatusCodec
  imports BlockState
begin

text \<open>
  \<open>core/Status\<close> and \<open>chain/Common\<close>: the status messages by which nodes ask for heights and blocks, with their codec,
  and the packet types of the protocol.
\<close>

section \<open>Packets\<close>

definition StatusPacket :: u32 where "StatusPacket = 0x20"
definition TransactionPacket :: u32 where "TransactionPacket = 0x21"
definition BlockPacket :: u32 where "BlockPacket = 0x22"
definition ConfirmationPacket :: u32 where "ConfirmationPacket = 0x23"
definition TransactionsPacket :: u32 where "TransactionsPacket = 0x24"
definition BlockStatePacket :: u32 where "BlockStatePacket = 0x25"
definition GetNodeDataPacket :: u32 where "GetNodeDataPacket = 0x4d"
definition ReceiptsPacket :: u32 where "ReceiptsPacket = 0x50"

definition canHandle :: "u32 \<Rightarrow> bool" where
  "canHandle ty \<longleftrightarrow> ty \<ge> StatusPacket \<and> ty \<le> BlockStatePacket \<or> ty \<ge> GetNodeDataPacket \<and> ty \<le> ReceiptsPacket"

section \<open>Status messages\<close>

definition GetHeight :: byte where "GetHeight = 0x01"
definition ReplyHeight :: byte where "ReplyHeight = 0x02"
definition SyncBlocks :: byte where "SyncBlocks = 0x03"
definition ReplyBlocks :: byte where "ReplyBlocks = 0x04"
definition UnknownSPT :: byte where "UnknownSPT = 0xFF"

lemmas status_types = GetHeight_def ReplyHeight_def SyncBlocks_def ReplyBlocks_def UnknownSPT_def

lemma status_distinct:
  "GetHeight \<noteq> ReplyHeight" "GetHeight \<noteq> SyncBlocks" "GetHeight \<noteq> ReplyBlocks" "ReplyHeight \<noteq> SyncBlocks"
  "ReplyHeight \<noteq> ReplyBlocks" "SyncBlocks \<noteq> ReplyBlocks" "ReplyHeight \<noteq> GetHeight" "SyncBlocks \<noteq> GetHeight"
  "ReplyBlocks \<noteq> GetHeight" "SyncBlocks \<noteq> ReplyHeight" "ReplyBlocks \<noteq> ReplyHeight" "ReplyBlocks \<noteq> SyncBlocks"
  by (simp_all add: status_types)

record status =
  st_type :: byte
  st_height :: u64
  st_start :: u64
  st_end :: u64
  st_blocks :: "block list"

text \<open>The constructors leave the members they do not name uninitialised: those of \<open>st0\<close>.\<close>

definition new_status :: "status \<Rightarrow> byte \<Rightarrow> status" where
  "new_status st0 ty = st0\<lparr>st_type := ty, st_blocks := []\<rparr>"

definition new_status_range :: "status \<Rightarrow> byte \<Rightarrow> u64 \<Rightarrow> u64 \<Rightarrow> status" where
  "new_status_range st0 ty s e = st0\<lparr>st_type := ty, st_start := s, st_end := e, st_blocks := []\<rparr>"

definition new_status_height :: "status \<Rightarrow> byte \<Rightarrow> u64 \<Rightarrow> status" where
  "new_status_height st0 ty n = st0\<lparr>st_type := ty, st_height := n, st_blocks := []\<rparr>"

definition status_addBlock :: "block \<Rightarrow> status \<Rightarrow> status" where
  "status_addBlock b st = st\<lparr>st_blocks := st_blocks st @ [b]\<rparr>"

definition status_assign :: "status \<Rightarrow> status \<Rightarrow> status" where
  "status_assign this st =
     \<lparr>st_type = st_type st, st_height = st_height st, st_start = st_start st, st_end = st_end st,
      st_blocks = st_blocks this @ st_blocks st\<rparr>"

definition status_streamRLP :: "status \<Rightarrow> stream \<Rightarrow> exn + stream" where
  "status_streamRLP st s =
     (if st_type st = GetHeight then bindE (appendList 1 s) (seqE [append_unsigned (ucast (st_type st))])
      else if st_type st = ReplyHeight
      then bindE (appendList 2 s) (seqE [append_unsigned (ucast (st_type st)), append_u64 (st_height st)])
      else if st_type st = SyncBlocks
      then bindE (appendList 3 s) (seqE [append_unsigned (ucast (st_type st)), append_u64 (st_start st), append_u64 (st_end st)])
      else if st_type st = ReplyBlocks
      then bindE (appendList (1 + length (st_blocks st)) s) (seqE (append_unsigned (ucast (st_type st)) #
             map (\<lambda>b. append_nested (block_getRLPData b)) (st_blocks st)))
      else Inr s)"

definition status_getRLPData :: "status \<Rightarrow> exn + bytes" where
  "status_getRLPData st = getRLPData (status_streamRLP st)"

text \<open>The handler \<open>catch (...)\<close> keeps what was assigned before the exception.\<close>

definition status_populate :: "block_header \<Rightarrow> bytes \<Rightarrow> status \<Rightarrow> status" where
  "status_populate h0 data st0 =
     (case bindE (RLP_new data VeryStrict) (\<lambda>r. bindE (itemCount r) (\<lambda>n. Inr (r, n))) of
        Inl _ \<Rightarrow> st0
      | Inr (r, n) \<Rightarrow>
          if \<not> (isList r \<and> n \<ge> 1) then st0
          else (case field r 0 toInt_u8 of Inl _ \<Rightarrow> st0 | Inr ty \<Rightarrow>
            let st = st0\<lparr>st_type := ty\<rparr> in
            if ty = GetHeight then st
            else if ty = ReplyHeight then (case field r 1 toInt_u64 of Inl _ \<Rightarrow> st | Inr v \<Rightarrow> st\<lparr>st_height := v\<rparr>)
            else if ty = SyncBlocks
            then (case field r 1 toInt_u64 of Inl _ \<Rightarrow> st | Inr a \<Rightarrow>
                   (case field r 2 toInt_u64 of Inl _ \<Rightarrow> st\<lparr>st_start := a\<rparr> | Inr b \<Rightarrow> st\<lparr>st_start := a, st_end := b\<rparr>))
            else if ty = ReplyBlocks
            then st\<lparr>st_blocks := push_until (\<lambda>i. field r i (block_decode h0)) [1..<n] (st_blocks st)\<rparr>
            else st))"

section \<open>The codec\<close>

definition status_items :: "status \<Rightarrow> bytes list" where
  "status_items st = rlp_word (ucast (st_type st) :: u32) #
     (if st_type st = ReplyHeight then [rlp_word (st_height st)]
      else if st_type st = SyncBlocks then [rlp_word (st_start st), rlp_word (st_end st)]
      else if st_type st = ReplyBlocks then map block_rlp (st_blocks st) else [])"

definition status_rlp :: "status \<Rightarrow> bytes" where
  "status_rlp st = rlp_list (concat (status_items st))"

definition status_ok :: "status \<Rightarrow> bool" where
  "status_ok st \<longleftrightarrow> st_type st \<in> {GetHeight, ReplyHeight, SyncBlocks, ReplyBlocks} \<and>
     list_all block_ok (st_blocks st) \<and> length (status_rlp st) < rlp_max"

text \<open>What a message of a type carries, laid over the object it is read into.\<close>

definition status_carried :: "status \<Rightarrow> status \<Rightarrow> status" where
  "status_carried st st0 =
     (let s = st0\<lparr>st_type := st_type st\<rparr> in
      if st_type st = ReplyHeight then s\<lparr>st_height := st_height st\<rparr>
      else if st_type st = SyncBlocks then s\<lparr>st_start := st_start st, st_end := st_end st\<rparr>
      else if st_type st = ReplyBlocks then s\<lparr>st_blocks := map block_stored (st_blocks st)\<rparr> else s)"

lemma status_items_item: "\<forall>e \<in> set (status_items st). item e"
  by (auto simp: status_items_def block_rlp_def)

lemma status_getRLPData_ok:
  assumes "status_ok st"
  shows "status_getRLPData st = Inr (status_rlp st)"
proof -
  have blocks: "list_all2 appends (map (\<lambda>b. append_nested (block_getRLPData b)) (st_blocks st)) (map block_rlp (st_blocks st))"
    using assms appends_nested block_codec.enc_spec by (simp add: list_all2_conv_all_nth status_ok_def list_all_length)
  let ?ops = "append_unsigned (ucast (st_type st)) #
     (if st_type st = ReplyHeight then [append_u64 (st_height st)]
      else if st_type st = SyncBlocks then [append_u64 (st_start st), append_u64 (st_end st)]
      else if st_type st = ReplyBlocks then map (\<lambda>b. append_nested (block_getRLPData b)) (st_blocks st) else [])"
  have "list_all2 appends ?ops (status_items st)"
    using blocks by (simp add: status_items_def)
  from appends_list' [OF this] have "appends (\<lambda>s. bindE (appendList (length ?ops) s) (seqE ?ops)) (status_rlp st)"
    using assms by (simp add: status_rlp_def status_ok_def)
  moreover have "status_streamRLP st = (\<lambda>s. bindE (appendList (length ?ops) s) (seqE ?ops))"
    using assms by (auto simp: status_streamRLP_def fun_eq_iff status_ok_def status_distinct numeral_2_eq_2 numeral_3_eq_3)
  ultimately show ?thesis by (simp only: status_getRLPData_def appends_out)
qed

lemma status_populate_rlp:
  assumes "status_ok st" "st_blocks st0 = []"
  shows "status_populate h0 (status_rlp st) st0 = status_carried st st0"
proof -
  have l: "length (rlp_list (concat (status_items st))) < rlp_max"
    using assms by (simp add: status_ok_def status_rlp_def)
  note r = list_reader [OF status_items_item l]
  let ?r = "rlp_list (concat (status_items st))" and ?n = "length (status_items st)"
  have ty: "field ?r 0 toInt_u8 = Inr (st_type st)"
    using r(5) [of 0 toInt_u8] by (simp add: status_items_def toInt_u8_byte)
  have n: "1 \<le> ?n" by (simp add: status_items_def)
  have height: "field ?r 1 toInt_u64 = Inr (st_height st)" if "st_type st = ReplyHeight"
    using that r(5) [of 1 toInt_u64] by (simp add: status_items_def)
  have range: "field ?r 1 toInt_u64 = Inr (st_start st)" "field ?r 2 toInt_u64 = Inr (st_end st)"
    if "st_type st = SyncBlocks"
    using that r(5) [of 1 toInt_u64] r(5) [of 2 toInt_u64] by (simp_all add: status_items_def status_types)
  have blocks: "push_until (\<lambda>i. field ?r i (block_decode h0)) [1..<?n] [] = map block_stored (st_blocks st)"
    if t: "st_type st = ReplyBlocks"
  proof -
    have len: "?n = Suc (length (st_blocks st))" using t by (simp add: status_items_def status_types)
    have "push_until (\<lambda>i. field ?r i (block_decode h0)) [1..<?n] [] =
        [] @ map (\<lambda>i. block_stored (st_blocks st ! (i - 1))) [1..<?n]"
    proof (rule push_until_all)
      fix i assume "i \<in> set [1..<?n]"
      then have i: "1 \<le> i" "i < ?n" by auto
      then have "status_items st ! i = block_rlp (st_blocks st ! (i - 1))"
        using t len by (simp add: status_items_def status_types nth_Cons')
      then show "field ?r i (block_decode h0) = Inr (block_stored (st_blocks st ! (i - 1)))"
        using i len assms r(5) [of i "block_decode h0"] by (simp add: block_decode_rlp status_ok_def list_all_length)
    qed
    also have "map (\<lambda>i. block_stored (st_blocks st ! (i - 1))) [1..<?n] = map block_stored (st_blocks st)"
      by (rule nth_equalityI) (simp_all add: len del: upt_Suc)
    finally show ?thesis by simp
  qed
  show ?thesis
    unfolding status_populate_def status_rlp_def r(1) bindE_simps r(3)
    using assms r(2) n ty height range blocks
    by (auto simp: status_carried_def Let_def status_ok_def status_distinct)
qed

text \<open>C37. A status message of one of the four types is written and read without losing the members its type
  carries; the other members are those of the object it is read into, and the blocks come back without
  the mark of a synchronised block.\<close>

theorem status_roundtrip:
  assumes "status_ok st" and "st_blocks st0 = []"
  shows "\<exists>d. status_getRLPData st = Inr d \<and> status_populate h0 d st0 = status_carried st st0"
  using status_getRLPData_ok [OF assms(1)] status_populate_rlp [OF assms] by blast

theorem status_roundtrip_witness:
  "\<exists>d. status_getRLPData \<lparr>st_type = SyncBlocks, st_height = 1, st_start = 5, st_end = 19, st_blocks = []\<rparr> = Inr d \<and>
     status_populate empty_header d \<lparr>st_type = UnknownSPT, st_height = 0, st_start = 0, st_end = 0, st_blocks = []\<rparr> =
       \<lparr>st_type = SyncBlocks, st_height = 0, st_start = 5, st_end = 19, st_blocks = []\<rparr>"
proof -
  let ?st = "\<lparr>st_type = SyncBlocks, st_height = 1, st_start = 5, st_end = 19, st_blocks = []\<rparr>"
  have "length (status_rlp ?st) < 100" by code_simp
  then have "status_ok ?st" by (simp add: status_ok_def rlp_max_small)
  from status_roundtrip [OF this, of "\<lparr>st_type = UnknownSPT, st_height = 0, st_start = 0, st_end = 0, st_blocks = []\<rparr>" empty_header]
  show ?thesis by (simp add: status_carried_def Let_def status_types)
qed

end
