(* ===== verification/Genesis.thy ===== *)
theory Genesis
  imports BlockState Commit
begin

text \<open>
  \<open>chain/Genesis\<close> and the start of \<open>database/DatabaseController\<close>: the genesis accounts, producers and block, the
  attributes that mark a database as initialised, and the reading of both after a restart; also the two
  stores of block states.
\<close>

section \<open>The global attributes\<close>

definition bytes_of_string :: "string \<Rightarrow> bytes" where
  "bytes_of_string s = map of_char s"

definition new_attribute :: "string \<Rightarrow> u64 \<Rightarrow> attribute_state" where
  "new_attribute key v = \<lparr>as_key = bytes_of_string key, as_type = Uint64Type, as_value = v, as_data = []\<rparr>"

definition new_bytes_attribute :: "string \<Rightarrow> attribute_state" where
  "new_bytes_attribute key = \<lparr>as_key = bytes_of_string key, as_type = BytesType, as_value = 0, as_data = []\<rparr>"

definition ATTRIBUTE_GENESIS_INITED :: attribute_state where
  "ATTRIBUTE_GENESIS_INITED = new_attribute ''attribute_genesis_inited_key'' 1"
definition ATTRIBUTE_DB_DIRTY :: attribute_state where
  "ATTRIBUTE_DB_DIRTY = new_attribute ''attribute_db_dirty_key'' 0"
definition ATTRIBUTE_CURRENT_BLOCK_HEIGHT :: attribute_state where
  "ATTRIBUTE_CURRENT_BLOCK_HEIGHT = new_attribute ''attribute_current_block_height'' 0"
definition ATTRIBUTE_PREV_PRODUCER_LIST :: attribute_state where
  "ATTRIBUTE_PREV_PRODUCER_LIST = new_bytes_attribute ''attribute_prev_producer_list''"
definition ATTRIBUTE_CURRENT_PRODUCER_LIST :: attribute_state where
  "ATTRIBUTE_CURRENT_PRODUCER_LIST = new_bytes_attribute ''attribute_current_producer_list''"
definition ATTRIBUTE_SOLIDIFY_ACTIVE_PRODUCER_LIST :: attribute_state where
  "ATTRIBUTE_SOLIDIFY_ACTIVE_PRODUCER_LIST = new_bytes_attribute ''attribute_solidify_active_producer_list''"

lemmas attribute_defs = ATTRIBUTE_GENESIS_INITED_def ATTRIBUTE_DB_DIRTY_def ATTRIBUTE_CURRENT_BLOCK_HEIGHT_def
  ATTRIBUTE_PREV_PRODUCER_LIST_def ATTRIBUTE_CURRENT_PRODUCER_LIST_def ATTRIBUTE_SOLIDIFY_ACTIVE_PRODUCER_LIST_def
  new_attribute_def new_bytes_attribute_def

section \<open>Block states in the database\<close>

text \<open>\<open>raw\<close> is the object before the decoding constructor runs.\<close>

definition db_getBlockState :: "block_state \<Rightarrow> h256 \<Rightarrow> database \<Rightarrow> block_state" where
  "db_getBlockState raw key db =
     (let data = store_get (d_blockStates db) (asBytes256 key) in
      if data = [] then EmptyBlockState else blockState_decode raw data)"

definition db_getBlockStateByNumber :: "block_state \<Rightarrow> u64 \<Rightarrow> database \<Rightarrow> block_state" where
  "db_getBlockStateByNumber raw n db =
     (let data = store_get (d_blockStateIndex db) (number_key n) in
      if data = [] then EmptyBlockState else blockState_decode raw data)"

definition blockState_getKey :: "block_state \<Rightarrow> bytes" where
  "blockState_getKey bs = asBytes256 (block_getHash (bs_block bs))"

definition db_putBlockState :: "block_state \<Rightarrow> (database, exn, unit) exec" where
  "db_putBlockState bs =
     thenX (store_put d_blockStates_update (blockState_getKey bs) (blockState_getRLPData bs))
       (store_put d_blockStateIndex_update (number_key (bs_blockNumber bs)) (blockState_getRLPData bs))"

section \<open>The genesis description\<close>

text \<open>The values read from the JSON text, and the structure built from them.\<close>

record genesis_values =
  gv_timestamp :: int
  gv_accounts :: "(address \<times> u64) list"
  gv_producers :: "(address \<times> u64) list"
  gv_header :: block_header

record genesis =
  gn_initAccounts :: "(address, account) stdmap"
  gn_initProducers :: "(address, producer) stdmap"
  gn_producerSnapshot :: producer_snapshot
  gn_genesisBlock :: block
  gn_inited :: bool

definition genesis_account :: "int \<Rightarrow> address \<times> u64 \<Rightarrow> genesis \<Rightarrow> genesis" where
  "genesis_account ts entry g =
     (let a = new_account (fst entry) (snd entry) ts in
      g\<lparr>gn_initAccounts := om_emplace (a_address a) a (gn_initAccounts g)\<rparr>)"

definition genesis_producer :: "int \<Rightarrow> address \<times> u64 \<Rightarrow> genesis \<Rightarrow> genesis" where
  "genesis_producer ts entry g =
     (let p = producer_setVotes (snd entry) (new_producer (fst entry) ts) in
      g\<lparr>gn_initProducers := om_emplace (p_address p) p (gn_initProducers g),
        gn_producerSnapshot := ps_addProducer p (gn_producerSnapshot g)\<rparr>)"

definition chain_initGenesis :: "genesis_values \<Rightarrow> genesis \<Rightarrow> genesis" where
  "chain_initGenesis root g =
     (if gn_inited g then g
      else let ts = gv_timestamp root;
               g1 = g\<lparr>gn_producerSnapshot := ps_setTimestamp ts (gn_producerSnapshot g)\<rparr>;
               g2 = fold (genesis_account ts) (gv_accounts root) g1;
               g3 = fold (genesis_producer ts) (gv_producers root) g2
           in g3\<lparr>gn_genesisBlock := EmptyBlock\<lparr>b_header := gv_header root\<rparr>\<rparr>)"

section \<open>Starting the database\<close>

definition db_initGenesis :: "genesis \<Rightarrow> (database, exn, unit) exec" where
  "db_initGenesis g =
     thenX (forX (map snd (gn_initAccounts g)) db_putAccount)
      (thenX (forX (map snd (gn_initProducers g)) db_putProducer)
      (thenX (db_putBlock (gn_genesisBlock g))
      (thenX (modifyX (\<lambda>db. db\<lparr>g_currentHeight := (g_currentHeight db)\<lparr>as_value := 0\<rparr>\<rparr>))
      (thenX (\<lambda>db. db_putAttribute (g_currentHeight db) db)
      (thenX (db_putAttribute ATTRIBUTE_GENESIS_INITED)
      (thenX (db_putAttribute ATTRIBUTE_DB_DIRTY)
      (thenX (\<lambda>db. case snapshot_getRLPData (gn_producerSnapshot g) of
                Inl e \<Rightarrow> (Inl e, db)
              | Inr d \<Rightarrow> (Inr (), db\<lparr>g_prevProducers := (g_prevProducers db)\<lparr>as_data := d\<rparr>,
                                    g_currentProducers := (g_currentProducers db)\<lparr>as_data := d\<rparr>\<rparr>))
      (thenX (\<lambda>db. db_putAttribute (g_prevProducers db) db)
             (\<lambda>db. db_putAttribute (g_currentProducers db) db)))))))))"

definition checkGenesisExisted :: "database \<Rightarrow> exn + bool" where
  "checkGenesisExisted db =
     (case db_getAttribute (as_key ATTRIBUTE_GENESIS_INITED) db of
        Inr a \<Rightarrow> Inr (as_value a \<noteq> 0)
      | Inl e \<Rightarrow> if e = AttributeStateException \<or> is_Exception e then Inr False else Inl e)"

text \<open>The four assignments stop at the first exception.\<close>

definition load_attribute :: "(database \<Rightarrow> attribute_state) \<Rightarrow> ((attribute_state \<Rightarrow> attribute_state) \<Rightarrow> database \<Rightarrow> database) \<Rightarrow>
  (database, exn, unit) exec" where
  "load_attribute get upd = (\<lambda>db. case db_getAttribute (as_key (get db)) db of
       Inl e \<Rightarrow> (Inl e, db)
     | Inr a \<Rightarrow> (Inr (), upd (\<lambda>this. attribute_assign this a) db))"

definition load_attributes :: "(database, exn, unit) exec" where
  "load_attributes =
     thenX (load_attribute g_currentHeight g_currentHeight_update)
      (thenX (load_attribute g_prevProducers g_prevProducers_update)
      (thenX (load_attribute g_currentProducers g_currentProducers_update)
             (load_attribute g_solidifyProducers g_solidifyProducers_update)))"

definition db_init :: "genesis \<Rightarrow> (database, exn, unit) exec" where
  "db_init g = (\<lambda>db. case checkGenesisExisted db of
       Inl e \<Rightarrow> (Inl e, db)
     | Inr True \<Rightarrow>
         (case load_attributes db of
            (Inl e, db') \<Rightarrow> if e = AttributeStateException \<or> is_Exception e then (Inr (), db') else (Inl e, db')
          | (Inr _, db') \<Rightarrow> (Inr (), db'))
     | Inr False \<Rightarrow> db_initGenesis g db)"

section \<open>Attributes are stored without loss\<close>

definition attribute_items :: "attribute_state \<Rightarrow> bytes list" where
  "attribute_items a = [rlp_word (as_type a), if as_type a = Uint64Type then rlp_word (as_value a) else as_data a]"

definition attribute_rlp :: "attribute_state \<Rightarrow> bytes" where
  "attribute_rlp a = rlp_list (concat (attribute_items a))"

definition attribute_ok :: "attribute_state \<Rightarrow> bool" where
  "attribute_ok a \<longleftrightarrow> (as_type a = Uint64Type \<or> as_type a = BytesType \<and> item (as_data a)) \<and>
     length (attribute_rlp a) < rlp_max"

definition attribute_stored :: "attribute_state \<Rightarrow> attribute_state" where
  "attribute_stored a = (if as_type a = Uint64Type then a\<lparr>as_data := []\<rparr> else a\<lparr>as_value := 0\<rparr>)"

lemma types_differ: "Uint64Type \<noteq> BytesType" "BytesType \<noteq> Uint64Type"
  by (simp_all add: Uint64Type_def BytesType_def)

lemma attribute_items_item: "attribute_ok a \<Longrightarrow> \<forall>e \<in> set (attribute_items a). item e"
  by (auto simp: attribute_items_def attribute_ok_def types_differ)

lemma attribute_getRLPData_ok: "attribute_ok a \<Longrightarrow> attribute_getRLPData a = Inr (attribute_rlp a)"
proof -
  assume a: "attribute_ok a"
  let ?ops = "append_unsigned (as_type a) #
       (if as_type a = Uint64Type then [append_u64 (as_value a)]
        else if as_type a = BytesType then [appendRaw (as_data a) 1] else [])"
  have "list_all2 appends ?ops (attribute_items a)"
    using a appends_raw by (auto simp: attribute_items_def attribute_ok_def types_differ)
  from appends_list' [OF this] have "appends (attribute_streamRLP a) (attribute_rlp a)"
    using a by (simp add: attribute_streamRLP_def [abs_def] attribute_rlp_def attribute_ok_def)
      (auto simp: types_differ numeral_2_eq_2)
  then show ?thesis by (simp add: attribute_getRLPData_def appends_out)
qed

lemma attribute_decode_rlp: "attribute_ok a \<Longrightarrow> attribute_decode (as_key a) (attribute_rlp a) = Inr (attribute_stored a)"
proof -
  assume a: "attribute_ok a"
  then have l: "length (rlp_list (concat (attribute_items a))) < rlp_max" by (simp add: attribute_ok_def attribute_rlp_def)
  note r = list_reader [OF attribute_items_item [OF a] l]
  have n: "length (attribute_items a) = 2" by (simp add: attribute_items_def)
  have f: "field (rlp_list (concat (attribute_items a))) 0 toInt_u32 = Inr (as_type a)"
    "field (rlp_list (concat (attribute_items a))) 1 toInt_u64 = toInt_u64 (attribute_items a ! 1)"
    "field (rlp_list (concat (attribute_items a))) 1 Inr = Inr (attribute_items a ! 1)"
    using r(5) [of 0 toInt_u32] by (simp_all add: r(5) n) (simp add: attribute_items_def)
  have v: "attribute_items a ! 1 = (if as_type a = Uint64Type then rlp_word (as_value a) else as_data a)"
    by (simp add: attribute_items_def)
  show ?thesis
    unfolding attribute_decode_def attribute_rlp_def r(1,4) bindE_simps n f v
    using a by (auto simp: attribute_ok_def attribute_stored_def types_differ)
qed

interpretation attribute_store:
  object_store db_getAttribute db_putAttribute as_key attribute_stored attribute_ok
proof
  fix a s k
  show "attribute_ok a \<Longrightarrow> fst (db_putAttribute a s) = Inr ()"
    by (simp add: db_putAttribute_def store_put_Inr attribute_getRLPData_ok)
  show "attribute_ok a \<Longrightarrow> db_getAttribute (as_key a) (snd (db_putAttribute a s)) = Inr (attribute_stored a)"
    by (simp add: db_putAttribute_def db_getAttribute_def store_put_Inr attribute_getRLPData_ok store_get_put attribute_decode_rlp)
  show "k \<noteq> as_key a \<Longrightarrow> db_getAttribute k (snd (db_putAttribute a s)) = db_getAttribute k s"
    by (simp add: db_putAttribute_def db_getAttribute_def store_put_def store_get_put split: sum.splits)
qed

section \<open>A fresh database and a restart\<close>

text \<open>The global objects of a process that starts.\<close>

definition fresh_globals :: "database \<Rightarrow> database" where
  "fresh_globals db = db\<lparr>g_currentHeight := ATTRIBUTE_CURRENT_BLOCK_HEIGHT, g_prevProducers := ATTRIBUTE_PREV_PRODUCER_LIST,
     g_currentProducers := ATTRIBUTE_CURRENT_PRODUCER_LIST, g_solidifyProducers := ATTRIBUTE_SOLIDIFY_ACTIVE_PRODUCER_LIST\<rparr>"

definition genesis_ok :: "genesis \<Rightarrow> bool" where
  "genesis_ok g \<longleftrightarrow> (\<forall>a \<in> snd ` set (gn_initAccounts g). account_ok a) \<and>
     (\<forall>p \<in> snd ` set (gn_initProducers g). producer_ok p) \<and> block_ok (gn_genesisBlock g) \<and>
     snapshot_ok (gn_producerSnapshot g) \<and> length (snapshot_rlp (gn_producerSnapshot g)) < 2 ^ 50 \<and>
     om_inv (gn_initAccounts g) \<and> (\<forall>(k, a) \<in> set (gn_initAccounts g). a_address a = k) \<and>
     om_inv (gn_initProducers g) \<and> (\<forall>(k, p) \<in> set (gn_initProducers g). p_address p = k)"

lemma keys_differ: "distinct (map as_key [ATTRIBUTE_GENESIS_INITED, ATTRIBUTE_DB_DIRTY, ATTRIBUTE_CURRENT_BLOCK_HEIGHT,
   ATTRIBUTE_PREV_PRODUCER_LIST, ATTRIBUTE_CURRENT_PRODUCER_LIST, ATTRIBUTE_SOLIDIFY_ACTIVE_PRODUCER_LIST])"
  "distinct (rev (map as_key [ATTRIBUTE_GENESIS_INITED, ATTRIBUTE_DB_DIRTY, ATTRIBUTE_CURRENT_BLOCK_HEIGHT,
   ATTRIBUTE_PREV_PRODUCER_LIST, ATTRIBUTE_CURRENT_PRODUCER_LIST, ATTRIBUTE_SOLIDIFY_ACTIVE_PRODUCER_LIST]))"
  by code_simp+

text \<open>What each write leaves alone: the attribute store and the globals.\<close>

definition attribute_part :: "database \<Rightarrow> store \<times> attribute_state \<times> attribute_state \<times> attribute_state \<times> attribute_state" where
  "attribute_part db = (d_attributes db, g_currentHeight db, g_prevProducers db, g_currentProducers db, g_solidifyProducers db)"

lemma attribute_part_frames:
  "attribute_part (snd (db_putAccount a db)) = attribute_part db" "attribute_part (snd (db_putProducer p db)) = attribute_part db"
  "attribute_part (snd (db_putBlock b db)) = attribute_part db"
  by (simp_all add: attribute_part_def db_putAccount_def db_putProducer_def db_putBlock_def store_put_def thenX_run
      split: sum.splits)

text \<open>The objects of the genesis description are in the stores.\<close>

lemma genesis_objects:
  assumes g: "genesis_ok g" and d: "d1 = snd (forX (map snd (gn_initAccounts g)) db_putAccount db)"
    "d2 = snd (forX (map snd (gn_initProducers g)) db_putProducer d1)" "d3 = snd (db_putBlock (gn_genesisBlock g) d2)"
  shows "forX (map snd (gn_initAccounts g)) db_putAccount db = (Inr (), d1)"
    "forX (map snd (gn_initProducers g)) db_putProducer d1 = (Inr (), d2)" "db_putBlock (gn_genesisBlock g) d2 = (Inr (), d3)"
    "attribute_part d3 = attribute_part db"
    "db_getAccount k d3 = (case om_find (gn_initAccounts g) k of Some a \<Rightarrow> Inr (account_stored a) | None \<Rightarrow> db_getAccount k db)"
    "db_getProducer k d3 = (case om_find (gn_initProducers g) k of Some p \<Rightarrow> Inr p | None \<Rightarrow> db_getProducer k db)"
    "db_getBlockByNumber h0 (block_number (gn_genesisBlock g)) d3 = Inr (block_stored (gn_genesisBlock g))"
proof -
  let ?l = "\<lparr>l_accounts = gn_initAccounts g, l_producers = gn_initProducers g, l_transactions = [], l_block = gn_genesisBlock g\<rparr>"
  let ?as = "map snd (gn_initAccounts g)" and ?ps = "map snd (gn_initProducers g)"
  have ok: "\<forall>a \<in> set ?as. account_ok a" "\<forall>p \<in> set ?ps. producer_ok p" "block_ok (gn_genesisBlock g)"
    using g by (auto simp: genesis_ok_def)
  have keys: "map (\<lambda>a. (a_address a, a)) ?as = gn_initAccounts g" "map (\<lambda>p. (p_address p, p)) ?ps = gn_initProducers g"
    using g by (auto simp: genesis_ok_def intro!: map_idI)
  have "map a_address ?as = map fst (gn_initAccounts g)" "map p_address ?ps = map fst (gn_initProducers g)"
    using keys [THEN arg_cong [where f = "map fst"]] by (simp_all add: comp_def)
  moreover have "distinct (map fst (gn_initAccounts g))" "distinct (map fst (gn_initProducers g))"
    using g by (auto simp: genesis_ok_def intro: om_distinct)
  ultimately have dist: "distinct (map a_address ?as)" "distinct (map p_address ?ps)" by (simp_all only:)
  show r1: "forX ?as db_putAccount db = (Inr (), d1)"
    using account_store.put_all_ok [OF ok(1), of db] d(1) by (cases "forX ?as db_putAccount db") auto
  show r2: "forX ?ps db_putProducer d1 = (Inr (), d2)"
    using producer_store.put_all_ok [OF ok(2), of d1] d(2) by (cases "forX ?ps db_putProducer d1") auto
  show r3: "db_putBlock (gn_genesisBlock g) d2 = (Inr (), d3)"
    using block_store.put_ok [OF ok(3), of d2] d(3) by (cases "db_putBlock (gn_genesisBlock g) d2") auto
  show "attribute_part d3 = attribute_part db"
    by (simp only: d attribute_part_frames for_frame [of attribute_part, OF attribute_part_frames(1)]
        for_frame [of attribute_part, OF attribute_part_frames(2)])
  have fa: "d_accounts d3 = d_accounts d1"
    by (simp only: d(2,3) put_frames for_frame [of d_accounts, OF put_frames(3)])
  have fp: "d_producers d3 = d_producers d2" "d_producers d1 = d_producers db"
    by (simp_all only: d(1,3) put_frames for_frame [of d_producers, OF put_frames(1)])
  show "db_getAccount k d3 = (case om_find (gn_initAccounts g) k of Some a \<Rightarrow> Inr (account_stored a) | None \<Rightarrow> db_getAccount k db)"
    using account_store.get_put_all_map [OF ok(1) dist(1), of k db] get_cong(1) [OF fa, of k] d(1)
    by (simp only: keys om_find_def)
  show "db_getProducer k d3 = (case om_find (gn_initProducers g) k of Some p \<Rightarrow> Inr p | None \<Rightarrow> db_getProducer k db)"
    using producer_store.get_put_all_map [OF ok(2) dist(2), of k d1] get_cong(2) [OF fp(1), of k] get_cong(2) [OF fp(2), of k] d(2)
    by (simp only: keys om_find_def)
  show "db_getBlockByNumber h0 (block_number (gn_genesisBlock g)) d3 = Inr (block_stored (gn_genesisBlock g))"
    using block_index.get_put_same [OF ok(3), of h0 d2] by (simp add: d(3))
qed

lemma attribute_words_ok: "as_type a = Uint64Type \<Longrightarrow> attribute_ok a"
  using word_sizes(1) [of Uint64Type] word_sizes(2) [of "as_value a"] list_size [of "concat (attribute_items a)"]
  by (simp add: attribute_ok_def attribute_rlp_def attribute_items_def rlp_max_def)

lemma snapshot_attribute_ok:
  assumes "as_type a = BytesType" "as_data a = snapshot_rlp ps" "length (snapshot_rlp ps) < 2 ^ 50"
  shows "attribute_ok a"
proof -
  have "item (as_data a)" by (simp add: assms(2) snapshot_rlp_def)
  moreover have "length (attribute_rlp a) < rlp_max"
    using word_sizes(1) [of BytesType] list_size [of "concat (attribute_items a)"] assms
    by (simp add: attribute_rlp_def attribute_items_def rlp_max_def types_differ)
  ultimately show ?thesis using assms(1) by (simp add: attribute_ok_def)
qed

lemma putAttribute_run:
  "attribute_ok a \<Longrightarrow> db_putAttribute a db = (Inr (), db\<lparr>d_attributes := om_put (as_key a) (attribute_rlp a) (d_attributes db)\<rparr>)"
  by (simp add: db_putAttribute_def store_put_Inr attribute_getRLPData_ok)

definition height_attribute :: attribute_state where
  "height_attribute = ATTRIBUTE_CURRENT_BLOCK_HEIGHT\<lparr>as_value := 0\<rparr>"

definition prev_attribute :: "genesis \<Rightarrow> attribute_state" where
  "prev_attribute g = ATTRIBUTE_PREV_PRODUCER_LIST\<lparr>as_data := snapshot_rlp (gn_producerSnapshot g)\<rparr>"

definition current_attribute :: "genesis \<Rightarrow> attribute_state" where
  "current_attribute g = ATTRIBUTE_CURRENT_PRODUCER_LIST\<lparr>as_data := snapshot_rlp (gn_producerSnapshot g)\<rparr>"

lemma genesis_attributes_ok:
  assumes "genesis_ok g"
  shows "attribute_ok height_attribute" "attribute_ok ATTRIBUTE_GENESIS_INITED" "attribute_ok ATTRIBUTE_DB_DIRTY"
    "attribute_ok (prev_attribute g)" "attribute_ok (current_attribute g)"
proof -
  show "attribute_ok height_attribute" "attribute_ok ATTRIBUTE_GENESIS_INITED" "attribute_ok ATTRIBUTE_DB_DIRTY"
    by (rule attribute_words_ok; simp add: attribute_defs height_attribute_def)+
  show "attribute_ok (prev_attribute g)" "attribute_ok (current_attribute g)"
    by (rule snapshot_attribute_ok [of _ "gn_producerSnapshot g"],
        use assms in \<open>simp_all add: attribute_defs prev_attribute_def current_attribute_def genesis_ok_def\<close>)+
qed

text \<open>The attributes a fresh database holds after the genesis run.\<close>

definition genesis_store :: "genesis \<Rightarrow> store" where
  "genesis_store g = fold (\<lambda>a. om_put (as_key a) (attribute_rlp a))
     [height_attribute, ATTRIBUTE_GENESIS_INITED, ATTRIBUTE_DB_DIRTY, prev_attribute g, current_attribute g] []"

lemma db_initGenesis_run:
  assumes g: "genesis_ok g" and db: "d_attributes db = []" "g_currentHeight db = ATTRIBUTE_CURRENT_BLOCK_HEIGHT"
    "g_prevProducers db = ATTRIBUTE_PREV_PRODUCER_LIST" "g_currentProducers db = ATTRIBUTE_CURRENT_PRODUCER_LIST"
    and d: "d1 = snd (forX (map snd (gn_initAccounts g)) db_putAccount db)"
    "d2 = snd (forX (map snd (gn_initProducers g)) db_putProducer d1)" "d3 = snd (db_putBlock (gn_genesisBlock g) d2)"
  shows "db_initGenesis g db = (Inr (), d3\<lparr>d_attributes := genesis_store g, g_currentHeight := height_attribute,
    g_prevProducers := prev_attribute g, g_currentProducers := current_attribute g\<rparr>)"
proof -
  note o = genesis_objects [OF g d] and ok = genesis_attributes_ok [OF g]
  have part: "d_attributes d3 = []" "g_currentHeight d3 = ATTRIBUTE_CURRENT_BLOCK_HEIGHT"
    "g_prevProducers d3 = ATTRIBUTE_PREV_PRODUCER_LIST" "g_currentProducers d3 = ATTRIBUTE_CURRENT_PRODUCER_LIST"
    using o(4) db by (simp_all add: attribute_part_def)
  have snap: "snapshot_getRLPData (gn_producerSnapshot g) = Inr (snapshot_rlp (gn_producerSnapshot g))"
    using g by (intro snapshot_getRLPData_ok) (simp add: genesis_ok_def)
  show ?thesis
    by (simp add: db_initGenesis_def thenX_run o(1-3) snap modifyX_run part
        height_attribute_def [symmetric] prev_attribute_def [symmetric] current_attribute_def [symmetric]
        putAttribute_run ok genesis_store_def)
qed

lemma no_attribute: "attribute_decode key [] = Inl AttributeStateException"
proof -
  have "RLP_new [] VeryStrict = Inr []" "isListOf 2 [] = Inr False" by code_simp+
  then show ?thesis by (simp add: attribute_decode_def rethrow_Exception_def is_Exception_def)
qed

lemma genesis_store_get:
  assumes "genesis_ok g" "d_attributes db = genesis_store g"
  shows "db_getAttribute (as_key ATTRIBUTE_GENESIS_INITED) db = Inr ATTRIBUTE_GENESIS_INITED"
    "db_getAttribute (as_key ATTRIBUTE_CURRENT_BLOCK_HEIGHT) db = Inr height_attribute"
    "db_getAttribute (as_key ATTRIBUTE_PREV_PRODUCER_LIST) db = Inr (prev_attribute g)"
    "db_getAttribute (as_key ATTRIBUTE_CURRENT_PRODUCER_LIST) db = Inr (current_attribute g)"
    "db_getAttribute (as_key ATTRIBUTE_SOLIDIFY_ACTIVE_PRODUCER_LIST) db = Inl AttributeStateException"
proof -
  note ok = genesis_attributes_ok [OF assms(1)]
  have keys: "as_key height_attribute = as_key ATTRIBUTE_CURRENT_BLOCK_HEIGHT"
    "as_key (prev_attribute g) = as_key ATTRIBUTE_PREV_PRODUCER_LIST"
    "as_key (current_attribute g) = as_key ATTRIBUTE_CURRENT_PRODUCER_LIST"
    by (simp_all add: height_attribute_def prev_attribute_def current_attribute_def)
  have stored: "attribute_stored ATTRIBUTE_GENESIS_INITED = ATTRIBUTE_GENESIS_INITED"
    "attribute_stored height_attribute = height_attribute" "attribute_stored (prev_attribute g) = prev_attribute g"
    "attribute_stored (current_attribute g) = current_attribute g"
    by (simp_all add: attribute_stored_def height_attribute_def prev_attribute_def current_attribute_def attribute_defs
        types_differ)
  have d: "store_get (d_attributes db) k =
     (if k = as_key ATTRIBUTE_CURRENT_PRODUCER_LIST then attribute_rlp (current_attribute g)
      else if k = as_key ATTRIBUTE_PREV_PRODUCER_LIST then attribute_rlp (prev_attribute g)
      else if k = as_key ATTRIBUTE_DB_DIRTY then attribute_rlp ATTRIBUTE_DB_DIRTY
      else if k = as_key ATTRIBUTE_GENESIS_INITED then attribute_rlp ATTRIBUTE_GENESIS_INITED
      else if k = as_key ATTRIBUTE_CURRENT_BLOCK_HEIGHT then attribute_rlp height_attribute else [])" for k
    by (simp add: assms(2) genesis_store_def keys store_get_put del: om_put.simps)
  show "db_getAttribute (as_key ATTRIBUTE_GENESIS_INITED) db = Inr ATTRIBUTE_GENESIS_INITED"
    using keys_differ attribute_decode_rlp [OF ok(2)] stored by (simp add: db_getAttribute_def d)
  show "db_getAttribute (as_key ATTRIBUTE_CURRENT_BLOCK_HEIGHT) db = Inr height_attribute"
    using keys_differ attribute_decode_rlp [OF ok(1)] stored keys by (simp add: db_getAttribute_def d)
  show "db_getAttribute (as_key ATTRIBUTE_PREV_PRODUCER_LIST) db = Inr (prev_attribute g)"
    using keys_differ attribute_decode_rlp [OF ok(4)] stored keys by (simp add: db_getAttribute_def d)
  show "db_getAttribute (as_key ATTRIBUTE_CURRENT_PRODUCER_LIST) db = Inr (current_attribute g)"
    using attribute_decode_rlp [OF ok(5)] stored keys by (simp add: db_getAttribute_def d)
  show "db_getAttribute (as_key ATTRIBUTE_SOLIDIFY_ACTIVE_PRODUCER_LIST) db = Inl AttributeStateException"
    using keys_differ no_attribute by (simp add: db_getAttribute_def d)
qed

lemma load_attributes_run:
  assumes "genesis_ok g" "d_attributes db = genesis_store g" "g_currentHeight db = ATTRIBUTE_CURRENT_BLOCK_HEIGHT"
    "g_prevProducers db = ATTRIBUTE_PREV_PRODUCER_LIST" "g_currentProducers db = ATTRIBUTE_CURRENT_PRODUCER_LIST"
    "g_solidifyProducers db = ATTRIBUTE_SOLIDIFY_ACTIVE_PRODUCER_LIST"
  shows "load_attributes db = (Inl AttributeStateException, db\<lparr>g_currentHeight := height_attribute,
    g_prevProducers := prev_attribute g, g_currentProducers := current_attribute g\<rparr>)"
proof -
  have assign: "attribute_assign ATTRIBUTE_CURRENT_BLOCK_HEIGHT height_attribute = height_attribute"
    "attribute_assign ATTRIBUTE_PREV_PRODUCER_LIST (prev_attribute g) = prev_attribute g"
    "attribute_assign ATTRIBUTE_CURRENT_PRODUCER_LIST (current_attribute g) = current_attribute g"
    by (simp_all add: attribute_assign_def height_attribute_def prev_attribute_def current_attribute_def attribute_defs
        types_differ Let_def)
  show ?thesis
    using genesis_store_get [OF assms(1)] assms
    by (simp add: load_attributes_def load_attribute_def thenX_run assign)
qed

text \<open>C25. Starting on an empty database writes the genesis description, and a later start reads it back instead of
  writing again, whatever description it is given: the accounts, the producers, the genesis block by its
  number, height 0, and the two producer lists are those of the first start.\<close>

theorem genesis_restart:
  assumes "genesis_ok g" and "d_attributes db = []"
    and "d1 = snd (db_init g (fresh_globals db))" and "d2 = snd (db_init g' (fresh_globals d1))"
  shows "fst (db_init g (fresh_globals db)) = Inr () \<and> fst (db_init g' (fresh_globals d1)) = Inr () \<and>
    (\<forall>k. db_getAccount k d2 =
       (case om_find (gn_initAccounts g) k of Some a \<Rightarrow> Inr (account_stored a) | None \<Rightarrow> db_getAccount k db)) \<and>
    (\<forall>k. db_getProducer k d2 =
       (case om_find (gn_initProducers g) k of Some p \<Rightarrow> Inr p | None \<Rightarrow> db_getProducer k db)) \<and>
    db_getBlockByNumber h0 (block_number (gn_genesisBlock g)) d2 = Inr (block_stored (gn_genesisBlock g)) \<and>
    as_value (g_currentHeight d2) = 0 \<and>
    snapshot_populate (as_data (g_prevProducers d2)) ps0 = gn_producerSnapshot g \<and>
    snapshot_populate (as_data (g_currentProducers d2)) ps0 = gn_producerSnapshot g"
proof -
  let ?db = "fresh_globals db"
  define a1 where "a1 = snd (forX (map snd (gn_initAccounts g)) db_putAccount ?db)"
  define a2 where "a2 = snd (forX (map snd (gn_initProducers g)) db_putProducer a1)"
  define a3 where "a3 = snd (db_putBlock (gn_genesisBlock g) a2)"
  note o = genesis_objects [OF assms(1) a1_def a2_def a3_def]
  have "checkGenesisExisted ?db = Inr False"
    using assms(2) by (simp add: checkGenesisExisted_def db_getAttribute_def fresh_globals_def no_attribute)
  moreover have "db_initGenesis g ?db = (Inr (), a3\<lparr>d_attributes := genesis_store g, g_currentHeight := height_attribute,
      g_prevProducers := prev_attribute g, g_currentProducers := current_attribute g\<rparr>)"
    by (rule db_initGenesis_run [OF assms(1) _ _ _ _ a1_def a2_def a3_def]) (simp_all add: fresh_globals_def assms(2))
  ultimately have r1: "db_init g ?db = (Inr (), a3\<lparr>d_attributes := genesis_store g, g_currentHeight := height_attribute,
      g_prevProducers := prev_attribute g, g_currentProducers := current_attribute g\<rparr>)"
    by (simp add: db_init_def)
  then have d1: "d1 = a3\<lparr>d_attributes := genesis_store g, g_currentHeight := height_attribute,
      g_prevProducers := prev_attribute g, g_currentProducers := current_attribute g\<rparr>" by (simp add: assms(3))
  have at: "d_attributes (fresh_globals d1) = genesis_store g" by (simp add: d1 fresh_globals_def)
  have "checkGenesisExisted (fresh_globals d1) = Inr True"
    using genesis_store_get(1) [OF assms(1) at] by (simp add: checkGenesisExisted_def) (simp add: attribute_defs)
  moreover have "load_attributes (fresh_globals d1) = (Inl AttributeStateException, (fresh_globals d1)\<lparr>g_currentHeight := height_attribute,
      g_prevProducers := prev_attribute g, g_currentProducers := current_attribute g\<rparr>)"
    by (rule load_attributes_run [OF assms(1) at]) (simp_all add: fresh_globals_def)
  ultimately have r2: "db_init g' (fresh_globals d1) = (Inr (), (fresh_globals d1)\<lparr>g_currentHeight := height_attribute,
      g_prevProducers := prev_attribute g, g_currentProducers := current_attribute g\<rparr>)"
    by (simp add: db_init_def)
  then have d2: "d2 = (fresh_globals d1)\<lparr>g_currentHeight := height_attribute,
      g_prevProducers := prev_attribute g, g_currentProducers := current_attribute g\<rparr>" by (simp add: assms(4))
  have stores: "d_accounts d2 = d_accounts a3" "d_producers d2 = d_producers a3" "d_blockIndex d2 = d_blockIndex a3"
    unfolding d2 fresh_globals_def d1 by simp_all
  have base: "db_getAccount k ?db = db_getAccount k db" "db_getProducer k ?db = db_getProducer k db" for k
    by (simp_all add: db_getAccount_def db_getProducer_def fresh_globals_def)
  have pop: "snapshot_populate (snapshot_rlp (gn_producerSnapshot g)) ps0 = gn_producerSnapshot g"
    using assms(1) by (intro snapshot_populate_rlp) (simp add: genesis_ok_def)
  have "db_getBlockByNumber h0 (block_number (gn_genesisBlock g)) d2 = Inr (block_stored (gn_genesisBlock g))"
    using o(7) [of h0] by (simp add: db_getBlockByNumber_def stores)
  moreover have "as_value (g_currentHeight d2) = 0" "as_data (g_prevProducers d2) = snapshot_rlp (gn_producerSnapshot g)"
    "as_data (g_currentProducers d2) = snapshot_rlp (gn_producerSnapshot g)"
    unfolding d2 by (simp_all add: height_attribute_def prev_attribute_def current_attribute_def)
  ultimately show ?thesis
    using o(5,6) [unfolded base] get_cong(1) [OF stores(1)] get_cong(2) [OF stores(2)] by (simp add: r1 r2 pop)
qed

definition sample_genesis :: genesis where
  "sample_genesis = chain_initGenesis
     \<lparr>gv_timestamp = 5, gv_accounts = [(2, 40), (1, 3000000000)], gv_producers = [(7, 3)], gv_header = empty_header\<rparr>
     \<lparr>gn_initAccounts = [], gn_initProducers = [], gn_producerSnapshot = \<lparr>ps_timestamp = 0, ps_producers = []\<rparr>,
      gn_genesisBlock = EmptyBlock, gn_inited = False\<rparr>"

lemma sample_genesis_simps:
  "gn_initAccounts sample_genesis = [(1, new_account 1 3000000000 5), (2, new_account 2 40 5)]"
  "gn_initProducers sample_genesis = [(7, producer_setVotes 3 (new_producer 7 5))]"
  "gn_producerSnapshot sample_genesis = \<lparr>ps_timestamp = 5, ps_producers = [producer_setVotes 3 (new_producer 7 5)]\<rparr>"
  "gn_genesisBlock sample_genesis = EmptyBlock\<lparr>b_header := empty_header\<rparr>"
  by (simp_all add: sample_genesis_def chain_initGenesis_def genesis_account_def genesis_producer_def Let_def
      om_emplace_def om_find_def ps_setTimestamp_def ps_addProducer_def ps_isExist_def producer_setVotes_def new_producer_def
      new_account_def)

lemma sample_genesis_ok: "genesis_ok sample_genesis"
proof -
  have a: "account_ok (new_account 1 3000000000 5)" "account_ok (new_account 2 40 5)"
    by (rule account_ok_small; simp add: new_account_def timestamp_ok_def)+
  have p: "producer_ok (producer_setVotes 3 (new_producer 7 5))"
    by (rule producer_ok_small; simp add: new_producer_def producer_setVotes_def timestamp_ok_def)
  have b: "block_ok (EmptyBlock\<lparr>b_header := empty_header\<rparr>)"
    by (rule block_ok_small; simp add: EmptyBlock_def empty_header_def timestamp_ok_def)
  let ?p = "producer_setVotes 3 (new_producer 7 5)"
  have "length (rlp_list (concat (votes_items []))) \<le> 9" using list_size [of "concat (votes_items [])"] by (simp add: votes_items_def)
  then have "length (concat (producer_items ?p)) < 1000"
    using word_sizes(4) [of 20 "7 :: address"] timestamp_size [of 5] word_sizes(2) [of "3 :: u64"]
    by (simp add: producer_items_def new_producer_def producer_setVotes_def timestamp_ok_def)
  then have "length (producer_rlp ?p) < 1009"
    using list_size [of "concat (producer_items ?p)"] by (simp add: producer_rlp_def)
  then have "length (concat (snapshot_items (gn_producerSnapshot sample_genesis))) < 2000"
    using timestamp_size [of 5] by (simp add: sample_genesis_simps snapshot_items_def timestamp_ok_def)
  then have "length (snapshot_rlp (gn_producerSnapshot sample_genesis)) < 2100"
    using list_size [of "concat (snapshot_items (gn_producerSnapshot sample_genesis))"] by (simp add: snapshot_rlp_def)
  then have s: "snapshot_ok (gn_producerSnapshot sample_genesis)" "length (snapshot_rlp (gn_producerSnapshot sample_genesis)) < 2 ^ 50"
    using p by (simp_all add: snapshot_ok_def rlp_max_def) (simp add: sample_genesis_simps timestamp_ok_def)
  have "a_address (new_account k v t) = k" "p_address (producer_setVotes w (new_producer k t)) = k" for k v t w
    by (simp_all add: new_account_def producer_setVotes_def new_producer_def)
  then show ?thesis using a p b s by (simp add: genesis_ok_def sample_genesis_simps om_inv_def)
qed

theorem genesis_restart_witness:
  "db_getAccount 2 (snd (db_init sample_genesis (fresh_globals (snd (db_init sample_genesis (fresh_globals empty_db)))))) =
     Inr (account_stored (new_account 2 40 5))"
proof -
  have "d_attributes empty_db = []" by (simp add: empty_db_def)
  from genesis_restart [OF sample_genesis_ok this refl refl] show ?thesis
    by (simp add: sample_genesis_simps om_find_def)
qed

end
