(* ===== verification/Chain.thy ===== *)
theory Chain
  imports Signatures StatusCodec Genesis RollbackState Schedule Votes Trie
begin

text \<open>
  \<open>chain/BlockChain\<close>: the state of the chain, the queue of executed blocks that are not yet final, the execution of a
  block, the choice between branches and the writing of final blocks to the database. Locks, logging and
  the observers (which are only told about events) are left out; the message face is the schedule of the
  producer server for what is asked and the list \<open>ch_out\<close> for what is sent.
\<close>

section \<open>State\<close>

text \<open>The values the program leaves uninitialised, and the curve library.\<close>

record env =
  e_secp :: secp
  e_n0 :: u64
  e_c0 :: byte
  e_t0 :: int
  e_h0 :: block_header
  e_st0 :: status

text \<open>A \<open>BlockState\<close> before a constructor body or an assignment has run.\<close>

definition raw_blockState :: "env \<Rightarrow> block_state" where
  "raw_blockState e = EmptyBlockState\<lparr>bs_blockNumber := e_n0 e, bs_confirmCount := e_c0 e,
     bs_activeProducers := \<lparr>ps_timestamp = e_t0 e, ps_producers = []\<rparr>\<rparr>"

text \<open>An endpoint is only compared.\<close>

type_synonym endpoint = nat

datatype message =
    BroadcastBlock endpoint block
  | BroadcastTx endpoint transaction
  | SendConfirmation header_confirmation
  | SendStatus endpoint status
  | SendBlockState endpoint block_state
  | SendBlock block
  | SendTx transaction

datatype chain_status = NormalStatus | SyncStatus | ProducerStatus | Killed

text \<open>A memory item with the layer its repository adds to that of the item before it.\<close>

record memory_item =
  mi_isDone :: bool
  mi_blockNumber :: u64
  mi_layer :: layer

datatype sync_state = SyncReady | SyncRunning | SyncStop

record sync =
  sy_state :: sync_state
  sy_prevTimestamp :: int
  sy_heights :: "(endpoint, u64) stdmap"

text \<open>\<open>ch_parents\<close> are the layers below the front item that are still reachable through its parent pointer: those of
  items that were taken out of the queue before \<open>setParentEmpty\<close> was called. \<open>ch_schedule\<close> belongs to the producer
  server behind the message face, \<open>ch_dirty\<close> is \<open>ATTRIBUTE_DB_DIRTY\<close>.\<close>

record chain =
  ch_db :: database
  ch_dirty :: attribute_state
  ch_chainID :: u64
  ch_key :: gkey
  ch_memoryQueue :: "memory_item queue"
  ch_parents :: "layer list"
  ch_rollbackState :: rollback
  ch_head :: "block_state option"
  ch_status :: chain_status
  ch_historyTxCache :: "h256 list"
  ch_historyBlockCache :: "h256 list"
  ch_txCache :: "transaction list"
  ch_blockCache :: "block list"
  ch_activeProducers :: producer_snapshot
  ch_prevPS :: producer_snapshot
  ch_currentPS :: producer_snapshot
  ch_latestBlockNumber :: u64
  ch_latestBlock :: block
  ch_producerRecord :: "(address, int) stdmap"
  ch_scheduleUpdate :: int
  ch_schedule :: schedule
  ch_sync :: "sync option"
  ch_out :: "message list"

type_synonym 'a chain_op = "(chain, exn, 'a) exec"

definition reading :: "(chain \<Rightarrow> 'a) \<Rightarrow> 'a chain_op" where
  "reading f = (\<lambda>c. (Inr (f c), c))"

definition attempt :: "(chain \<Rightarrow> exn + 'a) \<Rightarrow> 'a chain_op" where
  "attempt f = (\<lambda>c. (f c, c))"

definition on_chain_db :: "(database, exn, 'a) exec \<Rightarrow> 'a chain_op" where
  "on_chain_db m = (\<lambda>c. case m (ch_db c) of (r, db) \<Rightarrow> (r, c\<lparr>ch_db := db\<rparr>))"

definition on_rollback :: "'a rollback_op \<Rightarrow> 'a chain_op" where
  "on_rollback m = (\<lambda>c. case m (ch_rollbackState c) of (r, rs) \<Rightarrow> (r, c\<lparr>ch_rollbackState := rs\<rparr>))"

text \<open>A call on the rollback state that may run for ever.\<close>

definition on_rollback_loop :: "(rollback \<Rightarrow> rollback option) \<Rightarrow> unit chain_op" where
  "on_rollback_loop f = (\<lambda>c. case f (ch_rollbackState c) of
       None \<Rightarrow> (Inl NoReturn, c) | Some rs \<Rightarrow> (Inr (), c\<lparr>ch_rollbackState := rs\<rparr>))"

definition send :: "message \<Rightarrow> unit chain_op" where
  "send msg = modifyX (\<lambda>c. c\<lparr>ch_out := ch_out c @ [msg]\<rparr>)"

text \<open>A block with its handlers: \<open>caught\<close> selects the exceptions a handler takes.\<close>

definition try_catch :: "'a chain_op \<Rightarrow> (exn \<Rightarrow> bool) \<Rightarrow> 'a chain_op \<Rightarrow> 'a chain_op" where
  "try_catch m caught h = (\<lambda>c. case m c of
       (Inl e, c') \<Rightarrow> if caught e then h c' else (Inl e, c')
     | (Inr a, c') \<Rightarrow> (Inr a, c'))"

section \<open>The memory queue and its repositories\<close>

definition back_layers :: "chain \<Rightarrow> layer list" where
  "back_layers c = (if ch_memoryQueue c = [] then [] else rev (map mi_layer (ch_memoryQueue c)) @ ch_parents c)"

definition back_repo :: "chain \<Rightarrow> repo" where
  "back_repo c = \<lparr>r_layers = back_layers c, r_db = ch_db c\<rparr>"

fun set_layers :: "memory_item list \<Rightarrow> layer list \<Rightarrow> memory_item list" where
  "set_layers (i # is) (l # ls) = i\<lparr>mi_layer := l\<rparr> # set_layers is ls"
| "set_layers is ls = is"

text \<open>The layers are shared objects: what an operation leaves in them is seen through the queue.\<close>

definition set_back_layers :: "layer list \<Rightarrow> chain \<Rightarrow> chain" where
  "set_back_layers ls c =
     (if ch_memoryQueue c = [] then c
      else let n = length (ch_memoryQueue c) in
        c\<lparr>ch_memoryQueue := set_layers (ch_memoryQueue c) (rev (take n ls)), ch_parents := drop n ls\<rparr>)"

text \<open>An operation on the repository of the last item, or on the database when there is none.\<close>

definition on_back :: "'a repo_op \<Rightarrow> 'a chain_op" where
  "on_back m = (\<lambda>c. case m (back_repo c) of
       (r, re) \<Rightarrow> (r, set_back_layers (r_layers re) (c\<lparr>ch_db := r_db re\<rparr>)))"

text \<open>An operation on a new repository on top of it, which is dropped afterwards.\<close>

definition on_temporary :: "'a repo_op \<Rightarrow> 'a chain_op" where
  "on_temporary m = (\<lambda>c. case m \<lparr>r_layers = new_layer EmptyBlock # back_layers c, r_db = ch_db c\<rparr> of
       (r, re) \<Rightarrow> (r, set_back_layers (tl (r_layers re)) (c\<lparr>ch_db := r_db re\<rparr>)))"

definition addMemoryItem :: "block \<Rightarrow> unit chain_op" where
  "addMemoryItem b = modifyX (\<lambda>c.
     c\<lparr>ch_memoryQueue := queue_push \<lparr>mi_isDone = False, mi_blockNumber = block_number b, mi_layer = new_layer b\<rparr> (ch_memoryQueue c),
       ch_parents := (if ch_memoryQueue c = [] then [] else ch_parents c)\<rparr>)"

definition cancelMemoryItem :: "unit chain_op" where
  "cancelMemoryItem = modifyX (\<lambda>c. c\<lparr>ch_memoryQueue := queue_pop_back (ch_memoryQueue c)\<rparr>)"

definition popBlockState :: "unit chain_op" where
  "popBlockState = (\<lambda>c. case ch_head c of
       None \<Rightarrow> (Inl UndefinedBehaviour, c)
     | Some h \<Rightarrow>
         (case rs_getBlock (bs_getPrev h) (ch_rollbackState c) of
            None \<Rightarrow> (Inl BlockChainException, c)
          | Some prev \<Rightarrow> cancelMemoryItem (c\<lparr>ch_head := Some prev\<rparr>)))"

definition eraseSolicitedTx :: "block \<Rightarrow> chain \<Rightarrow> chain" where
  "eraseSolicitedTx b c =
     (if b_transactions b = [] then c
      else c\<lparr>ch_txCache := fold (\<lambda>i. erase_first (\<lambda>t. transaction_getHash t = transaction_getHash i)) (b_transactions b) (ch_txCache c)\<rparr>)"

definition setDone :: "unit chain_op" where
  "setDone = modifyX (\<lambda>c. c\<lparr>ch_memoryQueue :=
     butlast (ch_memoryQueue c) @ map (\<lambda>i. i\<lparr>mi_isDone := True\<rparr>) (drop (length (ch_memoryQueue c) - 1) (ch_memoryQueue c))\<rparr>)"

section \<open>Reading the chain\<close>

definition getLastBlockNumber :: "chain \<Rightarrow> u64" where
  "getLastBlockNumber c = ch_latestBlockNumber c"

definition getLastBlock :: "chain \<Rightarrow> block" where
  "getLastBlock c = ch_latestBlock c"

definition getBlockByNumber :: "env \<Rightarrow> u64 \<Rightarrow> chain \<Rightarrow> exn + block" where
  "getBlockByNumber e number c =
     (if number > ch_latestBlockNumber c then Inr EmptyBlock
      else if number \<le> rs_solidifyNumber (ch_rollbackState c) then
        bindE (db_getBlockByNumber (e_h0 e) number (ch_db c)) (\<lambda>_. db_getBlockByNumber (e_h0 e) number (ch_db c))
      else (case (queue_front (ch_memoryQueue c), queue_back (ch_memoryQueue c)) of
              (Some itemS, Some itemE) \<Rightarrow>
                if number \<ge> mi_blockNumber itemS \<and> number \<le> mi_blockNumber itemE
                then (case List.find (\<lambda>i. mi_blockNumber i = number) (ch_memoryQueue c) of
                        Some i \<Rightarrow> Inr (l_block (mi_layer i))
                      | None \<Rightarrow> db_getBlockByNumber (e_h0 e) number (ch_db c))
                else db_getBlockByNumber (e_h0 e) number (ch_db c)
            | _ \<Rightarrow> db_getBlockByNumber (e_h0 e) number (ch_db c)))"

definition getBlockStateByNumber :: "env \<Rightarrow> u64 \<Rightarrow> chain \<Rightarrow> block_state" where
  "getBlockStateByNumber e number c =
     (let stored = db_getBlockStateByNumber (raw_blockState e) number (ch_db c) in
      if number \<ge> rs_solidifyNumber (ch_rollbackState c)
      then (case rs_getBlockByNumber number (ch_rollbackState c) of Some bsp \<Rightarrow> bsp | None \<Rightarrow> stored)
      else stored)"

definition getSolidifyHeight :: "chain \<Rightarrow> u64" where
  "getSolidifyHeight c = as_value (g_currentHeight (ch_db c))"

definition getTx :: "h256 \<Rightarrow> transaction chain_op" where
  "getTx txID = (\<lambda>c. if ch_memoryQueue c = [] then (db_getTransaction txID (ch_db c), c) else on_back (getTransaction txID) c)"

definition chain_getAccount :: "address \<Rightarrow> account chain_op" where
  "chain_getAccount addr = (\<lambda>c. if ch_memoryQueue c = [] then (db_getAccount addr (ch_db c), c) else on_back (getAccount addr) c)"

definition chain_getBalance :: "address \<Rightarrow> u64 chain_op" where
  "chain_getBalance addr = bindX (chain_getAccount addr) (\<lambda>a. returnX (a_balance a))"

definition isExistInRepo :: "transaction \<Rightarrow> bool chain_op" where
  "isExistInRepo tx =
     bindX (\<lambda>c. if ch_memoryQueue c \<noteq> [] then on_back (getTransaction (transaction_getHash tx)) c
                else (db_getTransaction (transaction_getHash tx) (ch_db c), c))
       (\<lambda>found. returnX (\<not> isEmptyTransaction found))"

section \<open>Producers\<close>

definition getProducerListFromRepo :: "producer list chain_op" where
  "getProducerListFromRepo =
     bindX (\<lambda>c. if ch_memoryQueue c \<noteq> [] then on_back getProducerList c else (db_getProducerList (ch_db c), c))
       (\<lambda>producerMap. returnX (map snd producerMap))"

text \<open>\<open>setData\<close> on a global attribute, and storing it.\<close>

definition put_prevProducers :: "exn + bytes \<Rightarrow> (database, exn, unit) exec" where
  "put_prevProducers data = (\<lambda>db. case data of Inl e \<Rightarrow> (Inl e, db)
     | Inr d \<Rightarrow> let db' = db\<lparr>g_prevProducers := (g_prevProducers db)\<lparr>as_data := d\<rparr>\<rparr> in db_putAttribute (g_prevProducers db') db')"

definition put_currentProducers :: "exn + bytes \<Rightarrow> (database, exn, unit) exec" where
  "put_currentProducers data = (\<lambda>db. case data of Inl e \<Rightarrow> (Inl e, db)
     | Inr d \<Rightarrow> let db' = db\<lparr>g_currentProducers := (g_currentProducers db)\<lparr>as_data := d\<rparr>\<rparr> in db_putAttribute (g_currentProducers db') db')"

definition chain_schedule :: "int \<Rightarrow> unit chain_op" where
  "chain_schedule timestamp =
     bindX getProducerListFromRepo (\<lambda>updatedSchedule.
     thenX (modifyX (\<lambda>c. c\<lparr>ch_prevPS := ch_currentPS c,
        ch_currentPS := ps_setTimestamp timestamp (fold ps_addProducer updatedSchedule (ps_clear (ch_currentPS c)))\<rparr>))
     (thenX (modifyX (\<lambda>c. c\<lparr>ch_schedule := schedule_schedule (ps_producers (ch_currentPS c)) timestamp (ch_schedule c)\<rparr>))
     (thenX (\<lambda>c. on_chain_db (put_prevProducers (snapshot_getRLPData (ch_prevPS c))) c)
            (\<lambda>c. on_chain_db (put_currentProducers (snapshot_getRLPData (ch_currentPS c))) c))))"

definition pushSchedule :: "unit chain_op" where
  "pushSchedule = modifyX (\<lambda>c.
     c\<lparr>ch_schedule := schedule_schedule (ps_producers (ch_currentPS c)) (ps_timestamp (ch_currentPS c))
         (schedule_schedule (ps_producers (ch_prevPS c)) (ps_timestamp (ch_prevPS c)) (ch_schedule c))\<rparr>)"

definition getExpectedProducer :: "int \<Rightarrow> chain \<Rightarrow> address" where
  "getExpectedProducer timestamp c = schedule_getAddress (producerPosition timestamp) (ch_schedule c)"

text \<open>The loops that delete a range of producers; reading the list past its end is undefined.\<close>

function delete_range :: "producer list \<Rightarrow> nat \<Rightarrow> nat \<Rightarrow> producer_snapshot \<Rightarrow> exn + producer_snapshot" where
  "delete_range producerList i stop ps =
     (if i < stop
      then if i < length producerList
           then delete_range producerList (Suc i) stop (ps_deleteProducer (producerList ! i) ps)
           else Inl UndefinedBehaviour
      else Inr ps)"
  by pat_completeness auto
termination by (relation "measure (\<lambda>(l, i, stop, ps). stop - i)") auto

declare delete_range.simps [simp del]

fun delete_others :: "producer list \<Rightarrow> nat \<Rightarrow> nat \<Rightarrow> producer_snapshot \<Rightarrow> producer_snapshot" where
  "delete_others [] i keep ps = ps"
| "delete_others (p # l) i keep ps = delete_others l (Suc i) keep (if i = keep then ps else ps_deleteProducer p ps)"

definition updateActiveProducers :: "env \<Rightarrow> block \<Rightarrow> unit chain_op" where
  "updateActiveProducers e b =
     bindX (attempt (getBlockByNumber e (block_number b - 1))) (\<lambda>prevBlock.
     let cur = producerPosition (block_timestamp b); prev = producerPosition (block_timestamp prevBlock) in
     thenX (modifyX (\<lambda>c. c\<lparr>ch_activeProducers := ps_setTimestamp (block_timestamp b) (ch_activeProducers c)\<rparr>))
     (bindX (attempt (\<lambda>c. db_getProducer (block_producer b) (ch_db c))) (\<lambda>p.
     thenX (modifyX (\<lambda>c. c\<lparr>ch_activeProducers := ps_addProducer p (ch_activeProducers c)\<rparr>))
       (bindX (attempt (\<lambda>c. let producerList = getCurrentProducerList (ch_schedule c); active = ch_activeProducers c in
          if prev < cur then delete_range producerList (unat (prev + 1)) (unat cur) active
          else if prev = cur then Inr (delete_others producerList 0 (unat cur) active)
          else bindE (delete_range producerList 0 (unat cur) active)
                 (delete_range producerList (unat (prev + 1)) (length producerList))))
        (\<lambda>active. modifyX (\<lambda>c. c\<lparr>ch_activeProducers := active\<rparr>))))))"

definition updateProducerRecord :: "chain \<Rightarrow> chain" where
  "updateProducerRecord c =
     c\<lparr>ch_producerRecord := fold (\<lambda>p r. om_put (p_address p)
         (case om_find (ch_producerRecord c) (p_address p) of None \<Rightarrow> 0 | Some t \<Rightarrow> t) r)
       (getCurrentProducerList (ch_schedule c)) []\<rparr>"

definition checkProducer :: "block \<Rightarrow> chain \<Rightarrow> bool" where
  "checkProducer b c =
     (let timestamp = block_timestamp b; slice = blockSlice timestamp in
      if block_producer b \<noteq> getExpectedProducer timestamp c then False
      else if (case om_find (ch_producerRecord c) (block_producer b) of
                 None \<Rightarrow> False | Some t \<Rightarrow> slice \<le> t - GENESIS_TIMESTAMP) then False
      else if slice \<le> ch_scheduleUpdate c - GENESIS_TIMESTAMP then False
      else True)"

section \<open>Executing a block\<close>

definition SCHEDULE_PERIOD :: u64 where
  "SCHEDULE_PERIOD = of_nat (NUM_DELEGATED_BLOCKS * SCHEDULE_UPDATE_ROUNDS)"

definition bonusFactor :: "int \<Rightarrow> u32" where
  "bonusFactor timestamp = word_of_int ((timestamp - GENESIS_TIMESTAMP) sdiv MILLISECONDS_PER_YEAR)"

text \<open>The bonus is halved every year; a shift by 64 or more is undefined.\<close>

definition payBonus :: "block \<Rightarrow> unit chain_op" where
  "payBonus b =
     (let factor = bonusFactor (block_timestamp b) in
      if factor \<ge> 64 then throwX UndefinedBehaviour
      else on_back (bonus (block_producer b) (drop_bit (unat factor) BLOCK_BONUS_BASE)))"

definition checkNotInRepo :: "block \<Rightarrow> unit chain_op" where
  "checkNotInRepo b = forX (b_transactions b) (\<lambda>tx. bindX (isExistInRepo tx)
     (\<lambda>found. if found then throwX BlockChainException else returnX ()))"

definition recordProducer :: "block \<Rightarrow> unit chain_op" where
  "recordProducer b = modifyX (\<lambda>c.
     c\<lparr>ch_producerRecord := om_put (block_producer b) (block_timestamp b) (ch_producerRecord c)\<rparr>)"

definition confirmBlock :: "env \<Rightarrow> block \<Rightarrow> unit chain_op" where
  "confirmBlock e b =
     (if b_syncBlock b then returnX ()
      else (\<lambda>c. let hc = confirmation_sign (crypto_sign (e_secp e)) (k_secret (ch_key c))
                   (new_confirmation (ch_chainID c) (block_number b) (block_getHash b) (block_timestamp b) (k_address (ch_key c)))
        in send (SendConfirmation hc) (c\<lparr>ch_rollbackState := rs_confirm hc (ch_rollbackState c)\<rparr>)))"

definition updateSchedule :: "block \<Rightarrow> unit chain_op" where
  "updateSchedule b =
     (if block_number b mod SCHEDULE_PERIOD = 0
      then thenX (chain_schedule (block_timestamp b)) (modifyX (\<lambda>c.
             (updateProducerRecord (c\<lparr>ch_activeProducers := ps_clear (ch_activeProducers c)\<rparr>))\<lparr>ch_scheduleUpdate := block_timestamp b\<rparr>))
      else returnX ())"

definition setLatest :: "block \<Rightarrow> chain \<Rightarrow> chain" where
  "setLatest b c = c\<lparr>ch_latestBlockNumber := block_number b, ch_latestBlock := b\<rparr>"

text \<open>What is done before the item is in the queue, and what is undone when it fails afterwards.\<close>

definition beforeItem :: "env \<Rightarrow> block \<Rightarrow> unit chain_op" where
  "beforeItem e b = thenX (checkNotInRepo b) (thenX (updateActiveProducers e b) (recordProducer b))"

definition executeItem :: "env \<Rightarrow> block \<Rightarrow> unit chain_op" where
  "executeItem e b =
     thenX (on_back (correlator_run b)) (thenX (confirmBlock e b) (thenX (updateSchedule b) (thenX (payBonus b)
       (thenX setDone (modifyX (\<lambda>c. setLatest b (eraseSolicitedTx b c)))))))"

definition doProcessBlock :: "env \<Rightarrow> block \<Rightarrow> unit chain_op" where
  "doProcessBlock e b = (\<lambda>c. case beforeItem e b c of
       (Inl x, c1) \<Rightarrow> if is_GSException x then (Inr (), c1) else (Inl x, c1)
     | (Inr _, c1) \<Rightarrow> thenX (addMemoryItem b) (try_catch (executeItem e b) is_GSException cancelMemoryItem) c1)"

section \<open>Choosing a branch\<close>

fun rollback_branch :: "block_state list \<Rightarrow> unit chain_op" where
  "rollback_branch [] = returnX ()"
| "rollback_branch (x # xs) =
     thenX (modifyX (\<lambda>c. c\<lparr>ch_latestBlockNumber := bs_blockNumber x - 1\<rparr>))
      (thenX (on_rollback_loop (rs_removeNumber (bs_blockNumber x))) (thenX popBlockState (rollback_branch xs)))"

definition switchBranch :: "block_state \<Rightarrow> block_state \<Rightarrow> unit chain_op" where
  "switchBranch newItem h = (\<lambda>c. case rollbackTo newItem h (ch_rollbackState c) of
       None \<Rightarrow> (Inl NoReturn, c)
     | Some (ok, branch) \<Rightarrow>
         if ok then thenX (rollback_branch branch) (\<lambda>c.
           if branch \<noteq> [] \<and> map_option bs_blockID (ch_head c) \<noteq> Some (bs_getPrev (last branch))
           then (Inl BlockChainException, c) else (Inr (), c)) (c\<lparr>ch_status := SyncStatus\<rparr>)
         else (Inr (), c))"

definition checkBifurcation :: "env \<Rightarrow> block \<Rightarrow> unit chain_op" where
  "checkBifurcation e b = (\<lambda>c. case (rs_head (ch_rollbackState c), ch_head c) of
       (Some newItem, Some h) \<Rightarrow>
         if bs_getPrev newItem = bs_blockID h then doProcessBlock e b c
         else (case switchBranch newItem h c of
                 (Inl x, c') \<Rightarrow> if x = BlockChainException then (Inl ExitProcess, c')
                   else if is_GSException x \<or> is_Exception x then (Inr (), c') else (Inl x, c')
               | (Inr _, c') \<Rightarrow> (Inr (), c'))
     | _ \<Rightarrow> (Inl UndefinedBehaviour, c))"

section \<open>Final blocks\<close>

definition setDirty :: "u64 \<Rightarrow> unit chain_op" where
  "setDirty v = thenX (modifyX (\<lambda>c. c\<lparr>ch_dirty := (ch_dirty c)\<lparr>as_value := v\<rparr>\<rparr>))
     (\<lambda>c. on_chain_db (db_putAttribute (ch_dirty c)) c)"

text \<open>\<open>commit\<close> of an item taken out of the front of the queue: its layers are its own and those it can still reach.\<close>

definition commitItem :: "memory_item \<Rightarrow> unit chain_op" where
  "commitItem i = (\<lambda>c. case commit \<lparr>r_layers = mi_layer i # ch_parents c, r_db = ch_db c\<rparr> of
       (r, re) \<Rightarrow> (r, c\<lparr>ch_parents := r_layers re, ch_db := r_db re\<rparr>))"

definition put_height :: "u64 \<Rightarrow> (database, exn, unit) exec" where
  "put_height v = (\<lambda>db. let db' = db\<lparr>g_currentHeight := (g_currentHeight db)\<lparr>as_value := v\<rparr>\<rparr> in db_putAttribute (g_currentHeight db') db')"

definition put_solidifyProducers :: "exn + bytes \<Rightarrow> (database, exn, unit) exec" where
  "put_solidifyProducers data = (\<lambda>db. case data of Inl e \<Rightarrow> (Inl e, db)
     | Inr d \<Rightarrow> let db' = db\<lparr>g_solidifyProducers := (g_solidifyProducers db)\<lparr>as_data := d\<rparr>\<rparr> in db_putAttribute (g_solidifyProducers db') db')"

definition solidifyItem :: "memory_item \<Rightarrow> unit chain_op" where
  "solidifyItem i =
     thenX (setDirty 1)
      (thenX (modifyX (\<lambda>c. c\<lparr>ch_memoryQueue := queue_pop_front (ch_memoryQueue c)\<rparr>))
      (thenX (commitItem i)
      (bindX (attempt (\<lambda>c. case rs_getBlockByNumber (mi_blockNumber i) (ch_rollbackState c) of
                None \<Rightarrow> Inl BlockChainException | Some bsp \<Rightarrow> Inr bsp)) (\<lambda>solidifyBSP.
       thenX (on_chain_db (put_height (bs_blockNumber solidifyBSP)))
      (thenX (on_chain_db (put_solidifyProducers (snapshot_getRLPData (bs_activeProducers solidifyBSP))))
      (thenX (on_chain_db (db_putBlockState solidifyBSP))
      (thenX (setDirty 0)
      (thenX (on_rollback_loop (rs_remove (bs_blockID solidifyBSP)))
      (thenX (modifyX (\<lambda>c. c\<lparr>ch_rollbackState := setSolidifyNumber (mi_blockNumber i) (ch_rollbackState c)\<rparr>))
             (modifyX (\<lambda>c. if ch_memoryQueue c \<noteq> [] then c\<lparr>ch_parents := []\<rparr> else c)))))))))))"

text \<open>The loop takes the items the queue holds at its start one by one; \<open>front\<close> on the empty list is undefined.\<close>

fun solidify_loop :: "block_state \<Rightarrow> memory_item list \<Rightarrow> unit chain_op" where
  "solidify_loop bsp [] = throwX UndefinedBehaviour"
| "solidify_loop bsp (i # is) =
     (if bs_blockNumber bsp \<ge> mi_blockNumber i
      then (\<lambda>c. if ch_status c = Killed then (Inr (), c) else thenX (solidifyItem i) (solidify_loop bsp is) c)
      else returnX ())"

definition onSolidifiable :: "block_state \<Rightarrow> unit chain_op" where
  "onSolidifiable bsp = (\<lambda>c. solidify_loop bsp (ch_memoryQueue c) c)"

section \<open>Processing a block\<close>

text \<open>\<open>m_rollbackState.add\<close> with the slot connected to its signal.\<close>

definition rollback_add :: "env \<Rightarrow> block \<Rightarrow> unit chain_op" where
  "rollback_add e b = (\<lambda>c.
     bindX (on_rollback (rs_add_block (e_c0 e) (e_t0 e) b (getProducerSnapshot (ch_schedule c))))
       (\<lambda>signal. case signal of None \<Rightarrow> returnX () | Some bsp \<Rightarrow> onSolidifiable bsp) c)"

definition processBlock :: "env \<Rightarrow> block \<Rightarrow> bool chain_op" where
  "processBlock e b = try_catch
     (\<lambda>c. if \<not> checkProducer b c then (Inl InvalidProducerException, c)
          else thenX (rollback_add e b) (thenX (checkBifurcation e b)
                 (thenX (modifyX (\<lambda>c. c\<lparr>ch_head := rs_head (ch_rollbackState c)\<rparr>)) (returnX True))) c)
     (\<lambda>x. x \<in> {InvalidTransactionException, InvalidProducerException, RollbackStateException} \<or> is_Exception x)
     (returnX False)"

text \<open>The block that \<open>doWork\<close> takes from the cache, and the cache it leaves.\<close>

definition nextBlock :: "chain \<Rightarrow> block option \<times> block list" where
  "nextBlock c =
     (case ch_blockCache c of
        [] \<Rightarrow> (None, [])
      | b # bs \<Rightarrow>
          if block_number b = getLastBlockNumber c + 1 then (Some b, bs)
          else if block_number b \<le> getLastBlockNumber c
          then if block_number b \<le> getSolidifyHeight c then (None, bs) else (Some b, bs)
          else (None, b # bs))"

definition chain_doWork :: "env \<Rightarrow> unit chain_op" where
  "chain_doWork e = (\<lambda>c. let (next, cache) = nextBlock c; c' = c\<lparr>ch_blockCache := cache\<rparr> in
     case next of None \<Rightarrow> (Inr (), c') | Some b \<Rightarrow> thenX (processBlock e b) (returnX ()) c')"

section \<open>Starting\<close>

definition initializeRollbackState :: "env \<Rightarrow> unit chain_op" where
  "initializeRollbackState e =
     bindX (attempt (\<lambda>c. db_getBlockByNumber (e_h0 e) (as_value (g_currentHeight (ch_db c))) (ch_db c))) (\<lambda>b.
       let h = (new_blockState (e_c0 e) (e_t0 e) b)\<lparr>bs_bftSolidifyBlockNumber := block_number b\<rparr> in
       thenX (modifyX (\<lambda>c. c\<lparr>ch_head := Some h\<rparr>)) (on_rollback (rs_set h)))"

definition loadDirty :: "unit chain_op" where
  "loadDirty = bindX (attempt (\<lambda>c. db_getAttribute (as_key (ch_dirty c)) (ch_db c)))
     (\<lambda>a. modifyX (\<lambda>c. c\<lparr>ch_dirty := attribute_assign (ch_dirty c) a\<rparr>))"

definition loadProducers :: "block \<Rightarrow> chain \<Rightarrow> chain" where
  "loadProducers solidifyBlock c =
     (let prev = as_data (g_prevProducers (ch_db c));
          current = snapshot_populate (as_data (g_currentProducers (ch_db c))) (ch_currentPS c) in
      c\<lparr>ch_prevPS := snapshot_populate prev (ch_prevPS c),
        ch_currentPS := (if ps_timestamp current > block_timestamp solidifyBlock then snapshot_populate prev current else current)\<rparr>)"

definition chain_init :: "env \<Rightarrow> bool \<Rightarrow> unit chain_op" where
  "chain_init e syncFlag =
     thenX (\<lambda>c. if ch_head c = None then initializeRollbackState e c else (Inr (), c))
      (thenX loadDirty
      (\<lambda>c. if as_value (ch_dirty c) = 1 then (Inl BlockChainException, c)
           else thenX (modifyX (\<lambda>c. c\<lparr>ch_activeProducers := snapshot_populate (as_data (g_solidifyProducers (ch_db c))) (ch_activeProducers c)\<rparr>))
             (bindX (attempt (\<lambda>c. db_getBlockByNumber (e_h0 e) (as_value (g_currentHeight (ch_db c))) (ch_db c)))
               (\<lambda>solidifyBlock. modifyX (\<lambda>c. (setLatest solidifyBlock (loadProducers solidifyBlock c))
                  \<lparr>ch_status := (if syncFlag then SyncStatus else ProducerStatus),
                   ch_sync := (if syncFlag then Some \<lparr>sy_state = SyncRunning, sy_prevTimestamp = 0, sy_heights = []\<rparr> else ch_sync c)\<rparr>))) c))"

end
