(* ===== verification/ChainMessages.thy ===== *)
theory ChainMessages
  imports Chain
begin

text \<open>
  The entry points of \<open>chain/BlockChain\<close>: transactions and blocks from the network, from clients and from the local
  producer, status messages, confirmations, and the dispatcher; \<open>chain/Sync\<close>, \<open>producer/ProducerServer\<close> and the parts of
  \<open>chain/Controller\<close> that connect them. Time is an argument where the source reads the clock.
\<close>

section \<open>The caches\<close>

text \<open>An \<open>ordered_unique\<close> index: sorted by key, and an element whose key is present is not inserted.\<close>

fun insert_unique :: "('a \<Rightarrow> 'k :: linorder) \<Rightarrow> 'a \<Rightarrow> 'a list \<Rightarrow> 'a list" where
  "insert_unique key x [] = [x]"
| "insert_unique key x (y # ys) =
     (if key x = key y then y # ys else if key x < key y then x # y # ys else y # insert_unique key x ys)"

definition cacheTx :: "transaction \<Rightarrow> unit chain_op" where
  "cacheTx tx = modifyX (\<lambda>c. c\<lparr>ch_txCache := insert_unique t_timestamp tx (ch_txCache c)\<rparr>)"

definition cacheBlock :: "block \<Rightarrow> unit chain_op" where
  "cacheBlock b = modifyX (\<lambda>c. c\<lparr>ch_blockCache := insert_unique block_number b (ch_blockCache c)\<rparr>)"

definition getTransactionFromCache :: "transaction option chain_op" where
  "getTransactionFromCache = (\<lambda>c. case ch_txCache c of
       [] \<Rightarrow> (Inr None, c) | t # ts \<Rightarrow> (Inr (Some t), c\<lparr>ch_txCache := ts\<rparr>))"

definition getBlockFromCache :: "block option chain_op" where
  "getBlockFromCache = (\<lambda>c. case ch_blockCache c of
       [] \<Rightarrow> (Inr None, c) | b # bs \<Rightarrow> (Inr (Some b), c\<lparr>ch_blockCache := bs\<rparr>))"

definition processProducerBlock :: "block \<Rightarrow> bool chain_op" where
  "processProducerBlock b = (\<lambda>c.
     if block_number b \<le> getSolidifyHeight c then (Inr False, c) else thenX (cacheBlock b) (returnX True) c)"

definition isExist_tx :: "transaction \<Rightarrow> bool chain_op" where
  "isExist_tx tx = (\<lambda>c.
     if list_ex (\<lambda>t. transaction_getHash t = transaction_getHash tx) (ch_txCache c) then (Inr True, c)
     else bindX (on_temporary (getTransaction (transaction_getHash tx))) (\<lambda>t. returnX (\<not> isEmptyTransaction t)) c)"

definition isExist_block :: "env \<Rightarrow> block \<Rightarrow> bool chain_op" where
  "isExist_block e b = (\<lambda>c.
     if list_ex (\<lambda>x. block_getHash x = block_getHash b) (ch_blockCache c) then (Inr True, c)
     else bindX (on_temporary (getBlock (e_h0 e) (block_getHash b)))
            (\<lambda>x. returnX (block_getHash x \<noteq> block_getHash EmptyBlock)) c)"

section \<open>Transactions\<close>

text \<open>The block a \<open>Runtime\<close> for trial runs makes for itself: its header is default-constructed.\<close>

definition pre_block :: "env \<Rightarrow> block" where
  "pre_block e = EmptyBlock\<lparr>b_header := e_h0 e\<rparr>"

definition preProcessTx :: "env \<Rightarrow> transaction \<Rightarrow> unit chain_op" where
  "preProcessTx e tx = (\<lambda>c.
     if t_chainID tx \<noteq> ch_chainID c then (Inl BlockChainException, c)
     else if \<not> validSignature_tx (e_secp e) tx then (Inl BlockChainException, c)
     else bindX (isExist_tx tx) (\<lambda>found. if found then throwX BlockChainException
            else on_temporary (runtime_excute (pre_block e) tx)) c)"

text \<open>The history holds the last 4096 transactions seen, valid or not.\<close>

definition HISTORY_TX :: nat where "HISTORY_TX = 4096"
definition HISTORY_BLOCKS :: nat where "HISTORY_BLOCKS = 8"

definition addRPCTx :: "env \<Rightarrow> transaction \<Rightarrow> bool chain_op" where
  "addRPCTx e tx = try_catch
     (\<lambda>c. if fixed_isExist (transaction_getHash tx) (ch_historyTxCache c) then (Inr False, c)
          else thenX (preProcessTx e tx) (thenX (cacheTx tx) (returnX True))
                 (c\<lparr>ch_historyTxCache := fixed_push HISTORY_TX (transaction_getHash tx) (ch_historyTxCache c)\<rparr>))
     (\<lambda>x. is_GSException x \<or> is_Exception x \<or> x = RangeError)
     (returnX False)"

definition network_caught :: "exn \<Rightarrow> bool" where
  "network_caught x \<longleftrightarrow> x = BlockChainException \<or> x = RepositoryException \<or> is_Exception x"

definition processTxMessage :: "env \<Rightarrow> endpoint \<Rightarrow> transaction \<Rightarrow> unit chain_op" where
  "processTxMessage e from tx = try_catch
     (\<lambda>c. if fixed_isExist (transaction_getHash tx) (ch_historyTxCache c) then (Inr (), c)
          else thenX (preProcessTx e tx) (thenX (cacheTx tx) (send (BroadcastTx from tx)))
                 (c\<lparr>ch_historyTxCache := fixed_push HISTORY_TX (transaction_getHash tx) (ch_historyTxCache c)\<rparr>))
     network_caught (returnX ())"

section \<open>Blocks\<close>

definition checkDuplicateTx :: "block \<Rightarrow> bool" where
  "checkDuplicateTx b =
     (card (set (map transaction_getHash (b_transactions b))) = length (b_transactions b))"

definition preProcessBlock :: "env \<Rightarrow> block \<Rightarrow> unit chain_op" where
  "preProcessBlock e b = (\<lambda>c.
     if h_chainID (b_header b) \<noteq> ch_chainID c then (Inl BlockChainException, c)
     else if \<not> validSignature_block (e_secp e) b then (Inl BlockChainException, c)
     else bindX (isExist_block e b) (\<lambda>found. if found then throwX BlockChainException
            else if \<not> checkDuplicateTx b then throwX BlockChainException
            else on_temporary (forX (b_transactions b) (runtime_excute (pre_block e)))) c)"

definition processBlockMessage :: "env \<Rightarrow> endpoint \<Rightarrow> block \<Rightarrow> unit chain_op" where
  "processBlockMessage e from b = try_catch
     (\<lambda>c. if block_number b > getLastBlockNumber c + 1000 \<or> block_number b \<le> rs_solidifyNumber (ch_rollbackState c)
          then (Inr (), c)
          else if fixed_isExist (block_getHash b) (ch_historyBlockCache c) then (Inr (), c)
          else thenX (preProcessBlock e b) (thenX (cacheBlock b) (send (BroadcastBlock from b)))
                 (c\<lparr>ch_historyBlockCache := fixed_push HISTORY_BLOCKS (block_getHash b) (ch_historyBlockCache c)\<rparr>))
     network_caught (returnX ())"

definition processSyncBlockMessage :: "env \<Rightarrow> block \<Rightarrow> unit chain_op" where
  "processSyncBlockMessage e b = try_catch (thenX (preProcessBlock e b) (cacheBlock b)) network_caught (returnX ())"

definition processConfirmationMessage :: "header_confirmation \<Rightarrow> unit chain_op" where
  "processConfirmationMessage hc = modifyX (\<lambda>c. c\<lparr>ch_rollbackState := rs_confirm hc (ch_rollbackState c)\<rparr>)"

definition processBlockStateMessage :: "block_state \<Rightarrow> unit chain_op" where
  "processBlockStateMessage bs = modifyX (\<lambda>c. c\<lparr>ch_rollbackState := addSyncBlockState bs (ch_rollbackState c)\<rparr>)"

section \<open>Status messages\<close>

definition sync_update :: "endpoint \<Rightarrow> u64 \<Rightarrow> sync \<Rightarrow> sync" where
  "sync_update from height sy = sy\<lparr>sy_heights := om_put from height (sy_heights sy)\<rparr>"

definition maxPacketSize :: nat where "maxPacketSize = 55000"

text \<open>The loop that collects blocks; \<open>sz\<close> is \<open>realBlockSize\<close>, and the result is the message and the last final
  block state seen. The numbers are those of the requested range, which is below the last block number.\<close>

fun collectBlocks :: "env \<Rightarrow> chain \<Rightarrow> u64 list \<Rightarrow> nat \<Rightarrow> status \<times> block_state \<Rightarrow> exn + status \<times> block_state" where
  "collectBlocks e c [] sz r = Inr r"
| "collectBlocks e c (i # is) sz (st, bs0) =
     bindE (getBlockByNumber e i c) (\<lambda>b.
     if block_getHash b = block_getHash EmptyBlock then Inr (st, bs0)
     else bindE (block_getRLPData b) (\<lambda>d.
       if sz + length d \<ge> maxPacketSize then Inr (st, bs0)
       else let bs = blockState_assign (raw_blockState e) (getBlockStateByNumber e (if i < 11 then i else i - 10) c) in
         collectBlocks e c is (sz + length d)
           (status_addBlock b st,
            if \<not> blockState_eq bs EmptyBlockState \<and> bs_isSolidified bs then blockState_assign bs0 bs else bs0)))"

definition numbers :: "u64 \<Rightarrow> u64 \<Rightarrow> u64 list" where
  "numbers first stop = map of_nat [unat first..<Suc (unat stop)]"

definition replyBlocks :: "env \<Rightarrow> endpoint \<Rightarrow> u64 \<Rightarrow> u64 \<Rightarrow> unit chain_op" where
  "replyBlocks e from first stop =
     bindX (attempt (\<lambda>c. collectBlocks e c (numbers first stop) 0 (new_status (e_st0 e) ReplyBlocks, EmptyBlockState)))
       (\<lambda>(st, bs). thenX (send (SendStatus from st))
          (if \<not> blockState_eq bs EmptyBlockState then send (SendBlockState from bs) else returnX ()))"

definition processStatusMessage :: "env \<Rightarrow> endpoint \<Rightarrow> status \<Rightarrow> unit chain_op" where
  "processStatusMessage e from st =
     (if st_type st = GetHeight
      then (\<lambda>c. send (SendStatus from (new_status_height (e_st0 e) ReplyHeight (getLastBlockNumber c))) c)
      else if st_type st = ReplyHeight
      then (\<lambda>c. if st_height st > getLastBlockNumber c
                then (case ch_sync c of None \<Rightarrow> (Inl UndefinedBehaviour, c)
                      | Some sy \<Rightarrow> (Inr (), c\<lparr>ch_sync := Some (sync_update from (st_height st) sy)\<rparr>))
                else (Inr (), c))
      else if st_type st = SyncBlocks
      then (\<lambda>c. if st_start st < st_end st \<and> st_end st \<le> getLastBlockNumber c
                then replyBlocks e from (st_start st) (st_end st) c else (Inr (), c))
      else if st_type st = ReplyBlocks
      then forX (st_blocks st) (\<lambda>b. processSyncBlockMessage e (block_setSyncBlock b))
      else returnX ())"

section \<open>The dispatcher\<close>

definition raw_status :: "env \<Rightarrow> status" where
  "raw_status e = (e_st0 e)\<lparr>st_type := UnknownSPT, st_blocks := []\<rparr>"

definition dispatchPacket :: "env \<Rightarrow> endpoint \<Rightarrow> u32 \<Rightarrow> bytes \<Rightarrow> bool chain_op" where
  "dispatchPacket e from ty data =
     (if ty = StatusPacket
      then thenX (processStatusMessage e from (status_populate (e_h0 e) data (raw_status e))) (returnX True)
      else if ty = TransactionPacket
      then bindX (attempt (\<lambda>_. transaction_decode data)) (\<lambda>tx. thenX (processTxMessage e from tx) (returnX True))
      else if ty = BlockPacket
      then bindX (attempt (\<lambda>_. block_decode (e_h0 e) data)) (\<lambda>b. thenX (processBlockMessage e from b) (returnX True))
      else if ty = ConfirmationPacket
      then bindX (attempt (\<lambda>_. confirmation_decode data)) (\<lambda>hc. thenX (processConfirmationMessage hc) (returnX True))
      else if ty = TransactionsPacket then returnX True
      else if ty = BlockStatePacket
      then thenX (processBlockStateMessage (blockState_decode (raw_blockState e) data)) (returnX True)
      else returnX False)"

definition processMsg :: "env \<Rightarrow> endpoint \<Rightarrow> u32 \<Rightarrow> bytes \<Rightarrow> bool chain_op" where
  "processMsg e from ty r =
     bindX (attempt (\<lambda>_. isListOf 1 r)) (\<lambda>good.
       if good
       then try_catch (bindX (attempt (\<lambda>_. field r 0 Inr)) (dispatchPacket e from ty))
              (\<lambda>x. is_GSException x \<or> is_Exception x) (returnX False)
       else returnX False)"

section \<open>Synchronisation\<close>

definition SYNC_INTERVAL :: int where "SYNC_INTERVAL = 2000"
definition COUNT_PER_ROUND :: u64 where "COUNT_PER_ROUND = 15"

definition heightCompare :: "endpoint \<times> u64 \<Rightarrow> endpoint \<times> u64 \<Rightarrow> bool" where
  "heightCompare p q \<longleftrightarrow> snd p < snd q"

text \<open>The loop over the peers: \<open>requestEnd\<close> keeps the value of the previous pass when \<open>idx\<close> is odd; a
  \<open>continue\<close> does not advance \<open>idx\<close>. The result is whether a request was sent, and the messages.\<close>

fun requestLoop :: "env \<Rightarrow> (endpoint \<times> u64) list \<Rightarrow> nat \<Rightarrow> u64 \<Rightarrow> u64 \<Rightarrow> message list \<Rightarrow> message list" where
  "requestLoop e [] idx start stop sent = sent"
| "requestLoop e ((peer, height) # hs) idx start stop sent =
     (if idx mod 2 = 0
      then if height \<ge> start
           then let stop' = (if height - start \<ge> COUNT_PER_ROUND then start + COUNT_PER_ROUND - 1 else height) in
             requestLoop e hs (Suc idx) start stop' (sent @ [SendStatus peer (new_status_range (e_st0 e) SyncBlocks start stop')])
           else requestLoop e hs idx start stop sent
      else requestLoop e hs (Suc idx) (start + COUNT_PER_ROUND) stop
             (sent @ [SendStatus peer (new_status_range (e_st0 e) SyncBlocks start stop)]))"

definition sync_doWork :: "env \<Rightarrow> int \<Rightarrow> chain \<Rightarrow> chain" where
  "sync_doWork e now c =
     (case ch_sync c of
        None \<Rightarrow> c
      | Some sy \<Rightarrow>
          if sy_state sy \<noteq> SyncRunning then c
          else if \<not> (ch_status c = SyncStatus \<or> now - sy_prevTimestamp sy \<ge> SYNC_INTERVAL) then c
          else let c1 = c\<lparr>ch_sync := Some (sy\<lparr>sy_prevTimestamp := now\<rparr>)\<rparr>; heights = sy_heights sy in
            if heights = [] then c1\<lparr>ch_status := SyncStatus\<rparr>
            else let sorted_heights = (if length heights > 1 then sort_by heightCompare heights else heights);
                     requests = requestLoop e sorted_heights 0 (getLastBlockNumber c + 1) 0 [] in
              if requests \<noteq> [] then c1\<lparr>ch_status := SyncStatus, ch_out := ch_out c1 @ requests\<rparr>
              else if ch_status c1 = SyncStatus then c1\<lparr>ch_status := ProducerStatus\<rparr> else c1)"

section \<open>Producing blocks\<close>

record producer_server =
  pr_key :: gkey
  pr_chainID :: u64
  pr_prevTimestamp :: int

definition checkTimestamp :: "int \<Rightarrow> chain \<Rightarrow> producer_server \<Rightarrow> bool" where
  "checkTimestamp timestamp c pr =
     (if blockSlice timestamp \<le> pr_prevTimestamp pr - GENESIS_TIMESTAMP then False
      else if blockSlice timestamp \<le> block_timestamp (getLastBlock c) - GENESIS_TIMESTAMP then False
      else True)"

definition server_checkProducer :: "int \<Rightarrow> chain \<Rightarrow> producer_server \<Rightarrow> bool" where
  "server_checkProducer timestamp c pr =
     (if pr_prevTimestamp pr > timestamp then False
      else k_address (pr_key pr) = schedule_getAddress (producerPosition timestamp) (ch_schedule c) \<and>
           checkTimestamp timestamp c pr \<and> ch_status c = ProducerStatus)"

text \<open>The transactions taken from the cache into the block.\<close>

fun fillBlock :: "nat \<Rightarrow> block \<Rightarrow> block chain_op" where
  "fillBlock 0 b = returnX b"
| "fillBlock (Suc n) b =
     bindX getTransactionFromCache (\<lambda>t. case t of
        None \<Rightarrow> fillBlock n b
      | Some tx \<Rightarrow> bindX (getTx (transaction_getHash tx)) (\<lambda>found.
          fillBlock n (if isEmptyTransaction found then block_addTransaction tx b else b)))"

text \<open>\<open>Controller::broadcast(block)\<close>.\<close>

definition controller_broadcast :: "block \<Rightarrow> unit chain_op" where
  "controller_broadcast b = thenX (processProducerBlock b) (send (SendBlock b))"

text \<open>\<open>Controller::broadcast(tx)\<close>, the entry point of the RPC server.\<close>

definition controller_broadcastTx :: "env \<Rightarrow> transaction \<Rightarrow> unit chain_op" where
  "controller_broadcastTx e tx = bindX (addRPCTx e tx) (\<lambda>good. if good then send (SendTx tx) else returnX ())"

definition newBlock :: "int \<Rightarrow> block \<Rightarrow> producer_server \<Rightarrow> block" where
  "newBlock timestamp prevBlock pr = EmptyBlock\<lparr>b_header := empty_header\<lparr>h_number := block_number prevBlock + 1,
     h_producer := k_address (pr_key pr), h_chainID := pr_chainID pr, h_timestamp := timestamp,
     h_parentHash := block_getHash prevBlock\<rparr>\<rparr>"

definition server_doWork :: "env \<Rightarrow> int \<Rightarrow> int \<Rightarrow> producer_server \<Rightarrow> producer_server chain_op" where
  "server_doWork e timestamp timestampEnd pr = (\<lambda>c.
     if \<not> server_checkProducer timestamp c pr then (Inr pr, c)
     else let pr' = pr\<lparr>pr_prevTimestamp := timestamp\<rparr>; prevBlock = getLastBlock c in
       if block_getHash prevBlock = block_getHash EmptyBlock then (Inr pr', c)
       else bindX (fillBlock MAX_TRANSACTIONS_PER_BLOCK (newBlock timestamp prevBlock pr')) (\<lambda>filled.
            bindX (attempt (\<lambda>_. block_setRoots filled)) (\<lambda>rooted.
            thenX (if (word_of_int (timestampEnd - timestamp) :: u64) < word_of_int (PRODUCER_INTERVAL * 3 div 10)
                   then controller_broadcast (block_sign (e_secp e) (k_secret (pr_key pr')) rooted) else returnX ())
              (returnX pr'))) c)"

end
