(* ===== verification/ParentViews.thy ===== *)
theory ParentViews
  imports Actions Commit
begin

text \<open>
  What an operation on a repository does to the repositories below it: their caches may be filled, and nothing they
  show changes, whether the operation succeeds or raises an exception. So dropping a repository undoes
  everything that was done through it.
\<close>

section \<open>Reading fills the layers below with what they show\<close>

lemma read_through_tail:
  "snd (read_through cached store vacant copy missing dbv (l # ps)) = l' # ps' \<Longrightarrow>
   ps' = ps \<or> ps \<noteq> [] \<and> ps' = snd (read_through cached store vacant copy missing dbv ps)"
  by (auto simp: Let_def split: option.splits if_splits sum.splits prod.splits)

lemma read_through_cons:
  "\<exists>l' ps'. snd (read_through cached store vacant copy missing dbv (l # ps)) = l' # ps'"
  by (auto simp: Let_def split: option.splits if_splits sum.splits prod.splits)

text \<open>What is shown by the layers below the first, and the blocks of all layers.\<close>

type_synonym views = "(address \<Rightarrow> exn + account) \<times> (address \<Rightarrow> exn + producer) \<times> (h256 \<Rightarrow> exn + transaction)"

definition views_of :: "database \<Rightarrow> layer list \<Rightarrow> views" where
  "views_of db ls = (ac.view (\<lambda>k. db_getAccount k db) ls, pc.view (\<lambda>k. db_getProducer k db) ls,
     tc.view (\<lambda>h. db_getTransaction h db) ls)"

definition layers_ok :: "layer list \<Rightarrow> bool" where
  "layers_ok ls \<longleftrightarrow> (\<forall>l \<in> set ls. layer_inv l \<and> transactions_inv l)"

definition db_ok :: "database \<Rightarrow> bool" where
  "db_ok db \<longleftrightarrow> db_inv db \<and> tc.db_good (\<lambda>h. db_getTransaction h db)"

definition below_is :: "views \<Rightarrow> block list \<Rightarrow> database \<Rightarrow> repo \<Rightarrow> bool" where
  "below_is V bs db r \<longleftrightarrow> r_layers r \<noteq> [] \<and> layers_ok (tl (r_layers r)) \<and> db_ok db \<and> r_db r = db \<and>
     views_of db (tl (r_layers r)) = V \<and> map l_block (r_layers r) = bs"

lemma tc_view_cong:
  assumes "map l_transactions ls = map l_transactions ls'"
  shows "tc.view db ls = tc.view db ls'"
proof
  fix k
  show "tc.view db ls k = tc.view db ls' k"
    by (simp only: tc.view_def lookup_layers_cong [OF assms, of "\<lambda>m. om_find m k"])
qed

lemma transactions_inv_map:
  "transactions_inv l \<longleftrightarrow> transactions_inv \<lparr>l_accounts = [], l_producers = [], l_transactions = l_transactions l, l_block = EmptyBlock\<rparr>"
  by (simp add: transactions_inv_def)

lemmas cache_invs_map = inv_of_map transactions_inv_map

text \<open>A read of each kind on layers that satisfy their invariants.\<close>

lemma read_accounts:
  assumes "layers_ok ls" "db_ok db" "ls \<noteq> []" "ls' = snd (ac.read (\<lambda>a. db_getAccount a db) k ls)"
  shows "layers_ok ls' \<and> views_of db ls' = views_of db ls \<and> map l_block ls' = map l_block ls"
proof -
  have i: "ac.db_good (\<lambda>a. db_getAccount a db)" "\<forall>l \<in> set ls. accounts_inv l"
    using assms by (auto simp: layers_ok_def db_ok_def db_inv_def layer_inv_def)
  note v = ac.read_view [OF i assms(3), of k, folded assms(4)]
  have fr: "map (\<lambda>l. (l_producers l, l_transactions l, l_block l)) ls' = map (\<lambda>l. (l_producers l, l_transactions l, l_block l)) ls"
    using v by blast
  note f = layers_frame [OF fr]
  have "\<forall>l \<in> set ls'. producers_inv l" "\<forall>l \<in> set ls'. transactions_inv l"
    using assms(1) ball_map_cong [OF f(1) [symmetric], of producers_inv, OF cache_invs_map(2)]
      ball_map_cong [OF f(2) [symmetric], of transactions_inv, OF cache_invs_map(3)]
    by (auto simp: layers_ok_def layer_inv_def)
  then show ?thesis
    using v pc_view_cong [OF f(1)] tc_view_cong [OF f(2)] f(3)
    by (auto simp: layers_ok_def layer_inv_def views_of_def fun_eq_iff)
qed

lemma read_producers:
  assumes "layers_ok ls" "db_ok db" "ls \<noteq> []" "ls' = snd (pc.read (\<lambda>a. db_getProducer a db) k ls)"
  shows "layers_ok ls' \<and> views_of db ls' = views_of db ls \<and> map l_block ls' = map l_block ls"
proof -
  have i: "pc.db_good (\<lambda>a. db_getProducer a db)" "\<forall>l \<in> set ls. producers_inv l"
    using assms by (auto simp: layers_ok_def db_ok_def db_inv_def layer_inv_def)
  note v = pc.read_view [OF i assms(3), of k, folded assms(4)]
  have fr: "map (\<lambda>l. (l_accounts l, l_transactions l, l_block l)) ls' = map (\<lambda>l. (l_accounts l, l_transactions l, l_block l)) ls"
    using v by blast
  note f = layers_frame [OF fr]
  have "\<forall>l \<in> set ls'. accounts_inv l" "\<forall>l \<in> set ls'. transactions_inv l"
    using assms(1) ball_map_cong [OF f(1) [symmetric], of accounts_inv, OF cache_invs_map(1)]
      ball_map_cong [OF f(2) [symmetric], of transactions_inv, OF cache_invs_map(3)]
    by (auto simp: layers_ok_def layer_inv_def)
  then show ?thesis
    using v ac_view_cong [OF f(1)] tc_view_cong [OF f(2)] f(3)
    by (auto simp: layers_ok_def layer_inv_def views_of_def fun_eq_iff)
qed

lemma read_transactions:
  assumes "layers_ok ls" "db_ok db" "ls \<noteq> []" "ls' = snd (tc.read (\<lambda>a. db_getTransaction a db) k ls)"
  shows "layers_ok ls' \<and> views_of db ls' = views_of db ls \<and> map l_block ls' = map l_block ls"
proof -
  have i: "tc.db_good (\<lambda>a. db_getTransaction a db)" "\<forall>l \<in> set ls. transactions_inv l"
    using assms by (auto simp: layers_ok_def db_ok_def)
  note v = tc.read_view [OF i assms(3), of k, folded assms(4)]
  have fr: "map (\<lambda>l. (l_accounts l, l_producers l, l_block l)) ls' = map (\<lambda>l. (l_accounts l, l_producers l, l_block l)) ls"
    using v by blast
  note f = layers_frame [OF fr]
  have "\<forall>l \<in> set ls'. accounts_inv l" "\<forall>l \<in> set ls'. producers_inv l"
    using assms(1) ball_map_cong [OF f(1) [symmetric], of accounts_inv, OF cache_invs_map(1)]
      ball_map_cong [OF f(2) [symmetric], of producers_inv, OF cache_invs_map(2)]
    by (auto simp: layers_ok_def layer_inv_def)
  then show ?thesis
    using v ac_view_cong [OF f(1)] pc_view_cong [OF f(2)] f(3)
    by (auto simp: layers_ok_def layer_inv_def views_of_def fun_eq_iff)
qed

lemma read_through_head:
  "snd (read_through cached store vacant copy missing dbv (l # ps)) = l' # ps' \<Longrightarrow> l' = l \<or> (\<exists>v. l' = store v l)"
  by (auto simp: Let_def split: option.splits if_splits sum.splits prod.splits)

lemma put_block [simp]:
  "l_block (layer_putAccount a l) = l_block l" "l_block (layer_putProducer p l) = l_block l"
  "l_block (layer_putTransaction t l) = l_block l"
  by (simp_all add: layer_putAccount_def layer_putProducer_def layer_putTransaction_def Let_def split: option.splits)

section \<open>Every operation keeps what is below\<close>

lemma below_read:
  assumes r: "below_is V bs db r" and ls: "r_layers r = l # ps"
    and res: "snd (read_through cached store vacant copy missing dbv (l # ps)) = ls'"
    and blk: "\<And>v. l_block (store v l) = l_block l"
    and below: "\<And>ps'. ps \<noteq> [] \<Longrightarrow> ps' = snd (read_through cached store vacant copy missing dbv ps) \<Longrightarrow>
      layers_ok ps' \<and> views_of db ps' = views_of db ps \<and> map l_block ps' = map l_block ps"
  shows "below_is V bs db (r\<lparr>r_layers := ls'\<rparr>)"
proof -
  obtain l' ps' where eq: "ls' = l' # ps'"
    using res read_through_cons [of cached store vacant copy missing dbv l ps] by auto
  then have hd: "l_block l' = l_block l" using res read_through_head [of cached store vacant copy missing dbv l ps l' ps'] blk by auto
  have "ps' = ps \<or> ps \<noteq> [] \<and> ps' = snd (read_through cached store vacant copy missing dbv ps)"
    using read_through_tail [of cached store vacant copy missing dbv l ps l' ps'] res eq by simp
  then have "layers_ok ps' \<and> views_of db ps' = views_of db ps \<and> map l_block ps' = map l_block ps"
    using r ls below by (auto simp: below_is_def)
  then show ?thesis using r ls eq hd by (simp add: below_is_def)
qed

named_theorems keeps \<open>operations that keep what is below\<close>

lemma keeps_getAccount [keeps]: "preserves (below_is V bs db) (getAccount a)"
proof (rule preservesI)
  fix r assume r: "below_is V bs db r"
  then obtain l ps where ls: "r_layers r = l # ps" by (cases "r_layers r") (auto simp: below_is_def)
  have db: "r_db r = db" "layers_ok ps" "db_ok db" using r ls by (auto simp: below_is_def)
  have "below_is V bs db (r\<lparr>r_layers := snd (ac.read (\<lambda>a. db_getAccount a db) a (l # ps))\<rparr>)"
    by (rule below_read [OF r ls refl]) (simp, rule read_accounts [OF db(2,3)])
  then show "below_is V bs db (snd (getAccount a r))"
    by (simp only: getAccount_def ls db(1) Let_def split_beta snd_conv)
qed

lemma keeps_getProducer [keeps]: "preserves (below_is V bs db) (getProducer a)"
proof (rule preservesI)
  fix r assume r: "below_is V bs db r"
  then obtain l ps where ls: "r_layers r = l # ps" by (cases "r_layers r") (auto simp: below_is_def)
  have db: "r_db r = db" "layers_ok ps" "db_ok db" using r ls by (auto simp: below_is_def)
  have "below_is V bs db (r\<lparr>r_layers := snd (pc.read (\<lambda>a. db_getProducer a db) a (l # ps))\<rparr>)"
    by (rule below_read [OF r ls refl]) (simp, rule read_producers [OF db(2,3)])
  then show "below_is V bs db (snd (getProducer a r))"
    by (simp only: getProducer_def ls db(1) Let_def split_beta snd_conv)
qed

lemma keeps_getTransaction [keeps]: "preserves (below_is V bs db) (getTransaction a)"
proof (rule preservesI)
  fix r assume r: "below_is V bs db r"
  then obtain l ps where ls: "r_layers r = l # ps" by (cases "r_layers r") (auto simp: below_is_def)
  have db: "r_db r = db" "layers_ok ps" "db_ok db" using r ls by (auto simp: below_is_def)
  have "below_is V bs db (r\<lparr>r_layers := snd (tc.read (\<lambda>a. db_getTransaction a db) a (l # ps))\<rparr>)"
    by (rule below_read [OF r ls refl]) (simp, rule read_transactions [OF db(2,3)])
  then show "below_is V bs db (snd (getTransaction a r))"
    by (simp only: getTransaction_def ls db(1) Let_def split_beta snd_conv)
qed

lemma keeps_on_head: "(\<And>l. l_block (f l) = l_block l) \<Longrightarrow> preserves (below_is V bs db) (on_head f)"
  by (auto simp: preserves_def on_head_def below_is_def split: list.splits)

lemma keeps_puts [keeps]:
  "preserves (below_is V bs db) (putAccount a)" "preserves (below_is V bs db) (putProducer p)"
  "preserves (below_is V bs db) (putTransaction t)"
  by (simp_all add: putAccount_def putProducer_def putTransaction_def keeps_on_head)

lemma keeps_getters [keeps]: "preserves (below_is V bs db) blockTimestamp" "preserves (below_is V bs db) getProducerList"
  by (simp_all add: preserves_def blockTimestamp_def getProducerList_def)

lemma keeps_or_new [keeps]: "preserves (below_is V bs db) (or_new_account addr a)"
  unfolding or_new_account_def by (intro preserves_intros keeps)

lemma keeps_balances [keeps]:
  "preserves (below_is V bs db) (transfer from to value)" "preserves (below_is V bs db) (burn target value)"
  "preserves (below_is V bs db) (bonus target value)"
  unfolding transfer_def burn_def bonus_def by (intro preserves_intros keeps)+

lemma keeps_votes [keeps]:
  "preserves (below_is V bs db) (clearVote addr)" "preserves (below_is V bs db) (voteIncrease voter cand n)"
  unfolding clearVote_def voteIncrease_def by (intro preserves_intros keeps)+

lemma keeps_vote [keeps]: "preserves (below_is V bs db) (vote_execute t)"
  unfolding vote_execute_def by (cases "ballot_decode (t_data t)") (auto intro!: preserves_intros keeps)

lemma keeps_actions [keeps]:
  "preserves (below_is V bs db) (transfer_execute t)" "preserves (below_is V bs db) (beenProducer_execute t b)"
  unfolding transfer_execute_def beenProducer_execute_def by (intro preserves_intros keeps)+

lemma keeps_factory [keeps]: "preserves (below_is V bs db) (factory_execute t b)"
  unfolding factory_execute_def handler_execute_def
  by (auto intro!: preserves_intros keeps split: option.splits action_handler.splits)

lemma keeps_excute [keeps]: "preserves (below_is V bs db) (runtime_excute b t)"
  unfolding runtime_excute_def by (intro preserves_intros keeps)

lemma keeps_run [keeps]: "preserves (below_is V bs db) (correlator_run b)"
  unfolding correlator_run_def by (intro preserves_intros keeps)

end
