(* ===== verification/ChainExec.thy ===== *)
theory ChainExec
  imports Chain ParentViews
begin

text \<open>
  The execution of a block by the chain: the queue of repositories shows one ledger, a block that is executed
  changes it as the ledger specification says, and a block whose execution fails leaves it as it was.
\<close>

section \<open>The layers of the queue\<close>

lemma length_set_layers [simp]: "length (set_layers is ls) = length is"
  by (induction "is" ls rule: set_layers.induct) auto

lemma map_set_layers: "length is = length ls \<Longrightarrow> map mi_layer (set_layers is ls) = ls"
  by (induction "is" ls rule: set_layers.induct) auto

lemma set_back_layers_frame [simp]:
  "ch_db (set_back_layers ls c) = ch_db c" "length (ch_memoryQueue (set_back_layers ls c)) = length (ch_memoryQueue c)"
  "ch_memoryQueue (set_back_layers ls c) = [] \<longleftrightarrow> ch_memoryQueue c = []"
  "ch_rollbackState (set_back_layers ls c) = ch_rollbackState c" "ch_head (set_back_layers ls c) = ch_head c"
  "ch_producerRecord (set_back_layers ls c) = ch_producerRecord c" "ch_scheduleUpdate (set_back_layers ls c) = ch_scheduleUpdate c"
  "ch_schedule (set_back_layers ls c) = ch_schedule c" "ch_latestBlockNumber (set_back_layers ls c) = ch_latestBlockNumber c"
  "ch_latestBlock (set_back_layers ls c) = ch_latestBlock c" "ch_status (set_back_layers ls c) = ch_status c"
  "ch_txCache (set_back_layers ls c) = ch_txCache c" "ch_blockCache (set_back_layers ls c) = ch_blockCache c"
  "ch_historyTxCache (set_back_layers ls c) = ch_historyTxCache c" "ch_historyBlockCache (set_back_layers ls c) = ch_historyBlockCache c"
  by (simp_all add: set_back_layers_def Let_def) (metis length_0_conv length_set_layers)

lemma back_layers_set:
  assumes "length ls = length (back_layers c)"
  shows "back_layers (set_back_layers ls c) = ls"
proof (cases "ch_memoryQueue c = []")
  case False
  then have l: "length (ch_memoryQueue c) \<le> length ls" using assms by (simp add: back_layers_def)
  moreover have "set_layers (ch_memoryQueue c) (rev (take (length (ch_memoryQueue c)) ls)) \<noteq> []"
    using False by (metis length_0_conv length_set_layers)
  ultimately show ?thesis
    using False by (simp add: back_layers_def set_back_layers_def Let_def map_set_layers)
qed (use assms in \<open>simp add: back_layers_def set_back_layers_def\<close>)

lemma back_layers_cong:
  "ch_memoryQueue c = ch_memoryQueue c' \<Longrightarrow> ch_parents c = ch_parents c' \<Longrightarrow> back_layers c = back_layers c'"
  by (simp add: back_layers_def)

text \<open>What the database part of the views depends on.\<close>

definition same_objects :: "database \<Rightarrow> database \<Rightarrow> bool" where
  "same_objects db db' \<longleftrightarrow> d_accounts db = d_accounts db' \<and> d_producers db = d_producers db' \<and> d_transactions db = d_transactions db'"

lemma same_objects_views:
  assumes "same_objects db db'"
  shows "views_of db ls = views_of db' ls" "db_ok db \<longleftrightarrow> db_ok db'"
proof -
  have g: "(\<lambda>k. db_getAccount k db) = (\<lambda>k. db_getAccount k db')" "(\<lambda>k. db_getProducer k db) = (\<lambda>k. db_getProducer k db')"
    "(\<lambda>h. db_getTransaction h db) = (\<lambda>h. db_getTransaction h db')"
    by (rule ext, rule get_cong, use assms in \<open>simp add: same_objects_def\<close>)+
  show "views_of db ls = views_of db' ls" by (simp only: views_of_def g)
  show "db_ok db \<longleftrightarrow> db_ok db'" by (simp only: db_ok_def db_inv_def g)
qed

lemma same_objects_refl [simp]: "same_objects db db"
  by (simp add: same_objects_def)

lemma same_objects_putAttribute: "same_objects (snd (db_putAttribute a db)) db"
  by (simp add: same_objects_def db_putAttribute_def store_put_def split: sum.splits)

lemma same_objects_globals:
  "same_objects (snd (put_prevProducers d db)) db" "same_objects (snd (put_currentProducers d db)) db"
  "same_objects (snd (put_height v db)) db" "same_objects (snd (put_solidifyProducers d db)) db"
  by (simp_all add: put_prevProducers_def put_currentProducers_def put_height_def put_solidifyProducers_def Let_def
      same_objects_def db_putAttribute_def store_put_def split: sum.splits)

section \<open>The state seen through the queue\<close>

definition chain_views :: "chain \<Rightarrow> views" where
  "chain_views c = views_of (ch_db c) (back_layers c)"

definition chain_ok :: "chain \<Rightarrow> bool" where
  "chain_ok c \<longleftrightarrow> layers_ok (back_layers c) \<and> db_ok (ch_db c)"

text \<open>The chain shows the views \<open>V\<close> through \<open>n\<close> items, with a given last block.\<close>

definition shows_views :: "views \<Rightarrow> nat \<Rightarrow> u64 \<times> block \<Rightarrow> chain \<Rightarrow> bool" where
  "shows_views V n latest c \<longleftrightarrow> chain_ok c \<and> chain_views c = V \<and> length (ch_memoryQueue c) = n \<and>
     (ch_latestBlockNumber c, ch_latestBlock c) = latest"

text \<open>The same for what is below the last item.\<close>

definition item_over :: "views \<Rightarrow> nat \<Rightarrow> u64 \<times> block \<Rightarrow> chain \<Rightarrow> bool" where
  "item_over V n latest c \<longleftrightarrow> length (ch_memoryQueue c) = Suc n \<and>
     below_is V (map l_block (back_layers c)) (ch_db c) (back_repo c) \<and>
     (ch_latestBlockNumber c, ch_latestBlock c) = latest \<and> (n = 0 \<longrightarrow> ch_parents c = [])"

lemma below_is_db:
  assumes "same_objects db db'" "below_is V bs db r"
  shows "below_is V bs db' (r\<lparr>r_db := db'\<rparr>)"
  using assms(2) same_objects_views [OF assms(1)] by (simp add: below_is_def)

lemma shows_getTransaction: "preserves (shows_views V n latest) (on_back (getTransaction h))"
proof (rule preservesI)
  fix c assume c: "shows_views V n latest c"
  show "shows_views V n latest (snd (on_back (getTransaction h) c))"
  proof (cases "ch_memoryQueue c = []")
    case True
    then show ?thesis using c
      by (simp add: on_back_def getTransaction_def back_repo_def back_layers_def set_back_layers_def)
  next
    case False
    let ?ls = "snd (tc.read (\<lambda>a. db_getTransaction a (ch_db c)) h (back_layers c))"
    have ne: "back_layers c \<noteq> []" using False by (simp add: back_layers_def)
    have r: "layers_ok ?ls \<and> views_of (ch_db c) ?ls = views_of (ch_db c) (back_layers c) \<and> map l_block ?ls = map l_block (back_layers c)"
      using c ne by (intro read_transactions) (auto simp: shows_views_def chain_ok_def)
    then have "length ?ls = length (back_layers c)" by (metis length_map)
    then have "back_layers (set_back_layers ?ls c) = ?ls" by (rule back_layers_set)
    moreover have "snd (on_back (getTransaction h) c) = set_back_layers ?ls c"
      by (simp add: on_back_def getTransaction_def back_repo_def Let_def split_beta set_back_layers_def)
    ultimately show ?thesis using c r by (simp add: shows_views_def chain_ok_def chain_views_def)
  qed
qed

text \<open>The members the views depend on.\<close>

definition core :: "chain \<Rightarrow> memory_item list \<times> layer list \<times> database \<times> u64 \<times> block" where
  "core c = (ch_memoryQueue c, ch_parents c, ch_db c, ch_latestBlockNumber c, ch_latestBlock c)"

lemma core_views:
  assumes "core c' = core c"
  shows "shows_views V n latest c' = shows_views V n latest c" "item_over V n latest c' = item_over V n latest c"
    "back_repo c' = back_repo c"
  using assms
  by (simp_all add: core_def shows_views_def item_over_def chain_ok_def chain_views_def back_repo_def back_layers_def)

lemma preserves_core:
  assumes "\<And>c. core (f c) = core c"
  shows "preserves (shows_views V n latest) (modifyX f)" "preserves (item_over V n latest) (modifyX f)"
  using core_views [OF assms] by (simp_all add: preserves_def)

lemma preserves_attempt [preserves_intros]: "preserves P (attempt f)"
  by (simp add: preserves_def attempt_def)

lemma shows_isExistInRepo: "preserves (shows_views V n latest) (isExistInRepo tx)"
proof -
  have "preserves (shows_views V n latest) (\<lambda>c. if ch_memoryQueue c \<noteq> [] then on_back (getTransaction (transaction_getHash tx)) c
                else (db_getTransaction (transaction_getHash tx) (ch_db c), c))"
    using shows_getTransaction [of V n latest "transaction_getHash tx"] by (simp add: preserves_def)
  then show ?thesis unfolding isExistInRepo_def by (intro preserves_intros)
qed

lemma shows_updateActiveProducers: "preserves (shows_views V n latest) (updateActiveProducers e b)"
  unfolding updateActiveProducers_def Let_def
  by (intro preserves_intros preserves_core) (simp_all add: core_def)

lemma shows_beforeItem: "preserves (shows_views V n latest) (beforeItem e b)"
  unfolding beforeItem_def checkNotInRepo_def recordProducer_def
  by (intro preserves_intros shows_isExistInRepo shows_updateActiveProducers preserves_core) (simp add: core_def)

lemma views_new_layer: "views_of db (new_layer b # ls) = views_of db ls"
  by (simp add: views_of_def fun_eq_iff ac.view_Cons pc.view_Cons tc.view_Cons) (simp add: new_layer_def om_find_def)

lemma new_layer_ok: "layer_inv (new_layer b)" "transactions_inv (new_layer b)"
  by (simp_all add: new_layer_def layer_inv_def accounts_inv_def producers_inv_def transactions_inv_def om_inv_def)

lemma back_layers_add: "back_layers (snd (addMemoryItem b c)) = new_layer b # back_layers c"
  by (simp add: addMemoryItem_def back_layers_def queue_push_def)

lemma item_over_add:
  assumes "shows_views V n latest c"
  shows "item_over V n latest (snd (addMemoryItem b c))"
proof -
  have frame: "length (ch_memoryQueue (snd (addMemoryItem b c))) = Suc (length (ch_memoryQueue c))"
    "ch_db (snd (addMemoryItem b c)) = ch_db c" "ch_latestBlockNumber (snd (addMemoryItem b c)) = ch_latestBlockNumber c"
    "ch_latestBlock (snd (addMemoryItem b c)) = ch_latestBlock c"
    "length (ch_memoryQueue c) = 0 \<Longrightarrow> ch_parents (snd (addMemoryItem b c)) = []"
    by (simp_all add: addMemoryItem_def queue_push_def)
  show ?thesis using assms frame(5)
    by (simp add: item_over_def shows_views_def frame(1-4) below_is_def back_repo_def back_layers_add chain_ok_def chain_views_def)
qed

lemma shows_cancel:
  assumes "item_over V n latest c"
  shows "shows_views V n latest (snd (cancelMemoryItem c))"
proof -
  obtain q i where q: "ch_memoryQueue c = q @ [i]"
    using assms by (cases "ch_memoryQueue c" rule: rev_cases) (auto simp: item_over_def)
  have tl: "tl (back_layers c) = rev (map mi_layer q) @ ch_parents c" by (simp add: back_layers_def q)
  have e: "q = [] \<Longrightarrow> ch_parents c = []" using assms by (simp add: item_over_def q)
  have b: "back_layers (snd (cancelMemoryItem c)) = tl (back_layers c)"
    unfolding tl using e by (simp add: back_layers_def cancelMemoryItem_def queue_pop_back_def q)
  have frame: "ch_memoryQueue (snd (cancelMemoryItem c)) = q" "ch_db (snd (cancelMemoryItem c)) = ch_db c"
    "ch_latestBlockNumber (snd (cancelMemoryItem c)) = ch_latestBlockNumber c" "ch_latestBlock (snd (cancelMemoryItem c)) = ch_latestBlock c"
    by (simp_all add: cancelMemoryItem_def queue_pop_back_def q)
  show ?thesis using assms
    by (simp add: shows_views_def chain_ok_def chain_views_def b frame) (simp add: item_over_def below_is_def back_repo_def q)
qed

end
