(* ===== verification/ChainLedger.thy ===== *)
theory ChainLedger
  imports ChainExec
begin

text \<open>
  What a chain shows after a block: \<open>doProcessBlock\<close> either changes nothing that can be seen through the queue or
  changes it as the ledger specification says for the transactions and the bonus of the block.
\<close>

section \<open>Transactions seen through the layers\<close>

lemma read_through_frame:
  assumes "\<And>v l. f (store v l) = f l"
  shows "map f (snd (read_through cached store vacant copy missing dbv ls)) = map f ls"
  by (induction ls) (auto simp: assms Let_def split: option.splits if_splits sum.splits prod.splits)

definition tx_view :: "(h256 \<Rightarrow> exn + transaction) \<Rightarrow> repo \<Rightarrow> bool" where
  "tx_view T r \<longleftrightarrow> tx_inv r \<and> abs_tx r = T"

lemma tx_view_cong:
  assumes "tx_view T r" "map l_transactions (r_layers r') = map l_transactions (r_layers r)" "r_db r' = r_db r"
  shows "tx_view T r'"
proof -
  have ne: "r_layers r' \<noteq> []" using assms by (auto simp: tx_view_def tx_inv_def)
  have "\<forall>l \<in> set (r_layers r'). transactions_inv l"
    using assms(1) ball_map_cong [OF assms(2) [symmetric], of transactions_inv, OF transactions_inv_map]
    by (auto simp: tx_view_def tx_inv_def)
  then show ?thesis using assms(1,3) tc_view_cong [OF assms(2)] ne by (simp add: tx_view_def tx_inv_def abs_tx_def)
qed

named_theorems keeps_tx \<open>operations that keep the transactions\<close>

lemma put_transactions [simp]:
  "l_transactions (layer_putAccount a l) = l_transactions l" "l_transactions (layer_putProducer p l) = l_transactions l"
  by (simp_all add: layer_putAccount_def layer_putProducer_def split: option.splits)

lemma keeps_tx_gets [keeps_tx]: "preserves (tx_view T) (getAccount a)" "preserves (tx_view T) (getProducer a)"
  by (auto intro!: preservesI elim!: tx_view_cong simp: getAccount_def getProducer_def Let_def split_beta read_through_frame)

lemma keeps_tx_on_head: "(\<And>l. l_transactions (f l) = l_transactions l) \<Longrightarrow> preserves (tx_view T) (on_head f)"
  by (auto intro!: preservesI elim!: tx_view_cong simp: on_head_def split: list.splits)

lemma keeps_tx_puts [keeps_tx]: "preserves (tx_view T) (putAccount a)" "preserves (tx_view T) (putProducer p)"
  by (simp_all add: putAccount_def putProducer_def keeps_tx_on_head)

lemma keeps_tx_or_new [keeps_tx]: "preserves (tx_view T) blockTimestamp" "preserves (tx_view T) (or_new_account addr a)"
  unfolding or_new_account_def by (intro preserves_intros preservesI; simp add: blockTimestamp_def)+

lemma keeps_tx_balances [keeps_tx]:
  "preserves (tx_view T) (transfer from to value)" "preserves (tx_view T) (burn target value)"
  "preserves (tx_view T) (bonus target value)"
  unfolding transfer_def burn_def bonus_def by (intro preserves_intros keeps_tx)+

lemma keeps_tx_votes [keeps_tx]:
  "preserves (tx_view T) (clearVote addr)" "preserves (tx_view T) (voteIncrease voter cand n)"
  unfolding clearVote_def voteIncrease_def by (intro preserves_intros keeps_tx)+

lemma keeps_tx_vote [keeps_tx]: "preserves (tx_view T) (vote_execute t)"
  unfolding vote_execute_def by (cases "ballot_decode (t_data t)") (auto intro!: preserves_intros keeps_tx)

lemma keeps_tx_actions [keeps_tx]:
  "preserves (tx_view T) (transfer_execute t)" "preserves (tx_view T) (beenProducer_execute t b)"
  unfolding transfer_execute_def beenProducer_execute_def by (intro preserves_intros keeps_tx)+

lemma keeps_tx_factory [keeps_tx]: "preserves (tx_view T) (factory_execute t b)"
  unfolding factory_execute_def handler_execute_def
  by (auto intro!: preserves_intros keeps_tx split: option.splits action_handler.splits)

definition with_txs :: "transaction list \<Rightarrow> (h256 \<Rightarrow> exn + transaction) \<Rightarrow> h256 \<Rightarrow> exn + transaction" where
  "with_txs ts T = fold (\<lambda>t f. f(transaction_getHash t := Inr t)) ts T"

lemma with_txs_simps [simp]: "with_txs [] T = T" "with_txs (t # ts) T = with_txs ts (T(transaction_getHash t := Inr t))"
  by (simp_all add: with_txs_def)

lemma excute_tx_view:
  assumes "tx_view T r" "runtime_excute b t r = (Inr (), r')" "\<not> isEmptyTransaction t"
  shows "tx_view (T(transaction_getHash t := Inr t)) r'"
proof -
  obtain s where s: "factory_execute t b r = (Inr (), s)" "putTransaction t s = (Inr (), r')"
    using assms(2) by (auto simp: runtime_excute_def thenX_run split: prod.splits sum.splits)
  have "tx_view T s" using preservesD [OF keeps_tx_factory assms(1) s(1)] .
  then show ?thesis using txs.simD [OF putTransaction_view [OF assms(3)] _ s(2)] by (auto simp: tx_view_def)
qed

lemma run_tx_view:
  assumes "tx_view T r" "forX ts (runtime_excute b) r = (Inr (), r')" "\<forall>t \<in> set ts. \<not> isEmptyTransaction t"
  shows "tx_view (with_txs ts T) r'"
  using assms
proof (induction ts arbitrary: T r)
  case (Cons t ts)
  then obtain s where s: "runtime_excute b t r = (Inr (), s)" "forX ts (runtime_excute b) s = (Inr (), r')"
    by (auto simp: thenX_run split: prod.splits sum.splits)
  then show ?case using Cons excute_tx_view [OF Cons.prems(1) s(1)] by simp
qed simp

section \<open>The item that is executed\<close>

definition executing :: "views \<Rightarrow> nat \<Rightarrow> u64 \<times> block \<Rightarrow> ledger \<Rightarrow> (h256 \<Rightarrow> exn + transaction) \<Rightarrow> chain \<Rightarrow> bool" where
  "executing V n latest G T c \<longleftrightarrow> item_over V n latest c \<and> repo_inv (back_repo c) \<and> abs_repo (back_repo c) = G \<and>
     tx_view T (back_repo c)"

definition ledger_of :: "views \<Rightarrow> int \<Rightarrow> ledger" where
  "ledger_of V ts = \<lparr>lg_account = fst V, lg_producer = fst (snd V), lg_timestamp = ts\<rparr>"

lemma abs_repo_views: "abs_repo r = ledger_of (views_of (r_db r) (r_layers r)) (block_timestamp (l_block (hd (r_layers r))))"
  by (simp add: abs_repo_def ledger_of_def views_of_def)

lemma abs_tx_views: "abs_tx r = snd (snd (views_of (r_db r) (r_layers r)))"
  by (simp add: abs_tx_def views_of_def)

lemma executing_core: "core c' = core c \<Longrightarrow> executing V n latest G T c' = executing V n latest G T c"
  using core_views [of c' c] by (simp add: executing_def)

lemma executing_add:
  assumes "shows_views V n latest c"
  shows "executing V n latest (ledger_of V (block_timestamp b)) (snd (snd V)) (snd (addMemoryItem b c))"
proof -
  let ?c = "snd (addMemoryItem b c)"
  have r: "back_repo ?c = \<lparr>r_layers = new_layer b # back_layers c, r_db = ch_db c\<rparr>"
    unfolding back_repo_def back_layers_add by (simp add: addMemoryItem_def)
  have "l_block (new_layer b) = b" by (simp add: new_layer_def)
  then have "abs_repo (back_repo ?c) = ledger_of V (block_timestamp b)" "abs_tx (back_repo ?c) = snd (snd V)"
    using assms by (simp_all add: abs_repo_views abs_tx_views r views_new_layer shows_views_def chain_views_def)
  moreover have "repo_inv (back_repo ?c)" "tx_inv (back_repo ?c)"
    using assms new_layer_ok
    by (auto simp: r repo_inv_def tx_inv_def shows_views_def chain_ok_def layers_ok_def db_ok_def)
  ultimately show ?thesis using item_over_add [OF assms] by (simp add: executing_def tx_view_def)
qed

lemma executing_shows:
  assumes "executing V n latest G T c"
  shows "chain_ok c" "length (ch_memoryQueue c) = Suc n" "(ch_latestBlockNumber c, ch_latestBlock c) = latest"
    "G = ledger_of (chain_views c) (lg_timestamp G)" "T = snd (snd (chain_views c))"
  using assms
  by (auto simp: executing_def item_over_def below_is_def chain_ok_def layers_ok_def db_ok_def repo_inv_def tx_inv_def
      back_repo_def tx_view_def abs_repo_views abs_tx_views chain_views_def ledger_of_def)

text \<open>An operation on the repository of the item.\<close>

lemma item_on_back:
  assumes "item_over V n latest c" "\<And>V bs db. preserves (below_is V bs db) m" "on_back m c = (res, c')"
  shows "item_over V n latest c'" "m (back_repo c) = (res, back_repo c')"
proof -
  obtain re where m: "m (back_repo c) = (res, re)" and c': "c' = set_back_layers (r_layers re) (c\<lparr>ch_db := r_db re\<rparr>)"
    using assms(3) by (auto simp: on_back_def split: prod.splits)
  have q: "length (ch_memoryQueue c) = Suc n" "below_is V (map l_block (back_layers c)) (ch_db c) (back_repo c)"
    using assms(1) by (simp_all add: item_over_def)
  have re: "below_is V (map l_block (back_layers c)) (ch_db c) re"
    by (rule preservesD [OF assms(2) q(2) m])
  then have f: "r_db re = ch_db c" "map l_block (r_layers re) = map l_block (back_layers c)" by (simp_all add: below_is_def)
  then have len: "length (r_layers re) = length (back_layers c)" by (metis length_map)
  have c'': "c' = set_back_layers (r_layers re) c" using c' f(1) by simp
  have l': "back_layers c' = r_layers re" unfolding c'' by (rule back_layers_set [OF len])
  then show "m (back_repo c) = (res, back_repo c')" using m f(1) by (simp add: back_repo_def c'')
  have "ch_parents c' = []" if "n = 0"
  proof -
    have "ch_parents c = []" using that assms(1) by (simp add: item_over_def)
    then show ?thesis using q(1) len by (auto simp: c'' set_back_layers_def Let_def back_layers_def)
  qed
  moreover have "below_is V (map l_block (back_layers c)) (ch_db c) (back_repo c')"
    using re l' f(1) by (simp add: below_is_def back_repo_def c'')
  ultimately show "item_over V n latest c'"
    using assms(1) l' f(2) by (simp add: item_over_def c'')
qed

lemma executing_run:
  assumes "executing V n latest G T c" "on_back (correlator_run b) c = (Inr (), c')"
    and "\<forall>t \<in> set (b_transactions b). executable (block_timestamp b) t \<and> \<not> isEmptyTransaction t"
  shows "\<exists>G'. forX (b_transactions b) (ledger_execute (block_timestamp b)) G = (Inr (), G') \<and>
    executing V n latest G' (with_txs (b_transactions b) T) c'"
proof -
  have i: "item_over V n latest c" using assms(1) by (simp add: executing_def)
  note b = item_on_back [OF i keeps_run assms(2)]
  have s: "forX (b_transactions b) (ledger_execute (block_timestamp b)) G = (Inr (), abs_repo (back_repo c'))" "repo_inv (back_repo c')"
    using led.simD [OF sim_run _ b(2)] assms(1,3) by (auto simp: executing_def)
  have "tx_view (with_txs (b_transactions b) T) (back_repo c')"
    by (rule run_tx_view [OF _ b(2) [unfolded correlator_run_def]]) (use assms in \<open>auto simp: executing_def\<close>)
  then show ?thesis using s b(1) by (auto simp: executing_def)
qed

lemma executing_bonus:
  assumes "executing V n latest G T c" "on_back (bonus k v) c = (Inr (), c')"
  shows "\<exists>G'. ledger_bonus k v G = (Inr (), G') \<and> executing V n latest G' T c'"
proof -
  have i: "item_over V n latest c" using assms(1) by (simp add: executing_def)
  note b = item_on_back [OF i keeps_balances(3) assms(2)]
  have s: "ledger_bonus k v G = (Inr (), abs_repo (back_repo c'))" "repo_inv (back_repo c')"
    using led.simD [OF sim_bonus _ b(2)] assms(1) by (auto simp: executing_def)
  have "tx_view T (back_repo c')"
    using preservesD [OF keeps_tx_balances(3) _ b(2)] assms(1) by (auto simp: executing_def)
  then show ?thesis using s b(1) by (auto simp: executing_def)
qed

lemma executing_modify:
  assumes "\<And>c. core (f c) = core c"
  shows "preserves (executing V n latest G T) (modifyX f)"
  using executing_core [OF assms] by (simp add: preserves_def)

lemma back_layers_db [simp]: "back_layers (c\<lparr>ch_db := db\<rparr>) = back_layers c"
  by (simp add: back_layers_def)

lemma executing_on_db:
  assumes "\<And>db. same_objects (snd (m db)) db"
  shows "preserves (executing V n latest G T) (on_chain_db m)"
proof (rule preservesI)
  fix c assume c: "executing V n latest G T c"
  let ?db = "snd (m (ch_db c))" and ?c = "snd (on_chain_db m c)"
  have c': "?c = c\<lparr>ch_db := ?db\<rparr>" by (simp add: on_chain_db_def split_beta)
  have r: "back_repo ?c = \<lparr>r_layers = back_layers c, r_db = ?db\<rparr>" by (simp add: c' back_repo_def)
  have so: "same_objects (ch_db c) ?db" using assms [of "ch_db c"] by (auto simp: same_objects_def)
  note v = same_objects_views [OF so]
  have b: "below_is V (map l_block (back_layers c)) (ch_db c) (back_repo c)"
    using c by (simp add: executing_def item_over_def)
  have "below_is V (map l_block (back_layers c)) ?db (back_repo ?c)"
    using below_is_db [OF so b] unfolding r by (simp add: back_repo_def)
  then have "item_over V n latest ?c"
    using c unfolding executing_def item_over_def r by (simp add: c')
  moreover have "repo_inv (back_repo ?c)" "tx_inv (back_repo ?c)"
    using c b v unfolding r by (auto simp: executing_def repo_inv_def tx_view_def tx_inv_def back_repo_def below_is_def db_ok_def)
  moreover have "abs_repo (back_repo ?c) = G" "abs_tx (back_repo ?c) = T"
    using c v(1) unfolding r by (auto simp: executing_def tx_view_def abs_repo_views abs_tx_views back_repo_def)
  ultimately show "executing V n latest G T ?c" by (simp add: executing_def tx_view_def)
qed

lemma executing_producerList: "preserves (executing V n latest G T) getProducerListFromRepo"
proof -
  have "preserves (executing V n latest G T) (\<lambda>c. if ch_memoryQueue c \<noteq> [] then on_back getProducerList c else (db_getProducerList (ch_db c), c))"
  proof (rule preservesI)
    fix c assume c: "executing V n latest G T c"
    then have i: "item_over V n latest c" by (simp add: executing_def)
    obtain res c' where run: "on_back getProducerList c = (res, c')" by (cases "on_back getProducerList c")
    note b = item_on_back [OF i keeps_getters(2) run]
    have "back_repo c' = back_repo c" using b(2) by (simp add: getProducerList_def)
    then have "executing V n latest G T c'" using b(1) c by (simp add: executing_def)
    then show "executing V n latest G T (snd (if ch_memoryQueue c \<noteq> [] then on_back getProducerList c else (db_getProducerList (ch_db c), c)))"
      using c run by simp
  qed
  then show ?thesis unfolding getProducerListFromRepo_def by (intro preserves_intros)
qed

lemma executing_on_db_state:
  assumes "\<And>c db. same_objects (snd (m c db)) db"
  shows "preserves (executing V n latest G T) (\<lambda>c. on_chain_db (m c) c)"
  using executing_on_db [OF assms] by (simp add: preserves_def)

lemma executing_schedule: "preserves (executing V n latest G T) (updateSchedule b)"
  unfolding updateSchedule_def chain_schedule_def updateProducerRecord_def
  by (intro preserves_intros executing_producerList executing_modify executing_on_db_state same_objects_globals)
    (simp_all add: core_def)

lemma executing_confirm: "preserves (executing V n latest G T) (confirmBlock e b)"
proof (rule preservesI)
  fix c assume c: "executing V n latest G T c"
  have "core (snd (confirmBlock e b c)) = core c" by (simp add: confirmBlock_def send_def Let_def core_def)
  then show "executing V n latest G T (snd (confirmBlock e b c))" using c by (rule executing_core [THEN iffD2])
qed

lemma executing_setDone: "preserves (executing V n latest G T) setDone"
proof (rule preservesI)
  fix c assume c: "executing V n latest G T c"
  let ?c = "snd (setDone c)"
  obtain q i where q: "ch_memoryQueue c = q @ [i]"
    using c by (cases "ch_memoryQueue c" rule: rev_cases) (auto simp: executing_def item_over_def)
  have "back_layers ?c = back_layers c" "length (ch_memoryQueue ?c) = length (ch_memoryQueue c)" "ch_db ?c = ch_db c"
    "ch_parents ?c = ch_parents c" "ch_latestBlockNumber ?c = ch_latestBlockNumber c" "ch_latestBlock ?c = ch_latestBlock c"
    by (simp_all add: setDone_def q back_layers_def)
  then show "executing V n latest G T ?c" using c by (simp add: executing_def item_over_def back_repo_def)
qed

text \<open>The bonus a block pays.\<close>

definition bonus_of :: "block \<Rightarrow> u64" where
  "bonus_of b = drop_bit (unat (bonusFactor (block_timestamp b))) BLOCK_BONUS_BASE"

definition ledger_block :: "block \<Rightarrow> unit ledger_op" where
  "ledger_block b = thenX (forX (b_transactions b) (ledger_execute (block_timestamp b))) (ledger_bonus (block_producer b) (bonus_of b))"

lemma thenX_InrE:
  assumes "thenX m k s = (Inr x, s')"
  obtains a t where "m s = (Inr a, t)" "k t = (Inr x, s')"
  using assms by (cases "m s"; cases "fst (m s)") auto

lemma executing_item:
  assumes c: "executing V n latest G T c" and run: "executeItem e b c = (Inr (), c')"
    and txs: "\<forall>t \<in> set (b_transactions b). executable (block_timestamp b) t \<and> \<not> isEmptyTransaction t"
  shows "\<exists>G'. ledger_block b G = (Inr (), G') \<and> executing V n (block_number b, b) G' (with_txs (b_transactions b) T) c'"
proof -
  let ?T = "with_txs (b_transactions b) T"
  obtain c1 c2 c3 c4 c5 where r: "on_back (correlator_run b) c = (Inr (), c1)" "confirmBlock e b c1 = (Inr (), c2)"
    "updateSchedule b c2 = (Inr (), c3)" "payBonus b c3 = (Inr (), c4)" "setDone c4 = (Inr (), c5)"
    and c': "c' = setLatest b (eraseSolicitedTx b c5)"
    using run unfolding executeItem_def by (auto elim!: thenX_InrE)
  obtain G1 where G1: "forX (b_transactions b) (ledger_execute (block_timestamp b)) G = (Inr (), G1)"
    "executing V n latest G1 ?T c1"
    using executing_run [OF c r(1) txs] by auto
  have "executing V n latest G1 ?T c3"
    using preservesD [OF executing_schedule preservesD [OF executing_confirm G1(2) r(2)] r(3)] .
  moreover have "on_back (bonus (block_producer b) (bonus_of b)) c3 = (Inr (), c4)"
    using r(4) by (simp add: payBonus_def Let_def bonus_of_def split: if_splits)
  ultimately obtain G' where G': "ledger_bonus (block_producer b) (bonus_of b) G1 = (Inr (), G')" "executing V n latest G' ?T c4"
    using executing_bonus by blast
  have c5: "executing V n latest G' ?T c5" by (rule preservesD [OF executing_setDone G'(2) r(5)])
  have "back_repo c' = back_repo c5" "back_layers c' = back_layers c5" "ch_memoryQueue c' = ch_memoryQueue c5" "ch_parents c' = ch_parents c5"
    "ch_db c' = ch_db c5" "ch_latestBlockNumber c' = block_number b" "ch_latestBlock c' = b"
    by (simp_all add: c' setLatest_def eraseSolicitedTx_def back_repo_def back_layers_def)
  then have "executing V n (block_number b, b) G' ?T c'" using c5 by (simp add: executing_def item_over_def)
  then show ?thesis using G1(1) G'(1) by (auto simp: ledger_block_def)
qed

section \<open>An item whose execution fails\<close>

lemma item_core: "core c' = core c \<Longrightarrow> item_over V n latest c' = item_over V n latest c"
  by (rule core_views)

lemma preserves_item_back: "(\<And>V bs db. preserves (below_is V bs db) m) \<Longrightarrow> preserves (item_over V n latest) (on_back m)"
  using item_on_back(1) by (metis preservesI surjective_pairing)

lemma item_on_db:
  assumes "\<And>c db. same_objects (snd (m c db)) db"
  shows "preserves (item_over V n latest) (\<lambda>c. on_chain_db (m c) c)"
proof (rule preservesI)
  fix c assume c: "item_over V n latest c"
  let ?db = "snd (m c (ch_db c))"
  have so: "same_objects (ch_db c) ?db" using assms [of c "ch_db c"] by (auto simp: same_objects_def)
  have "below_is V (map l_block (back_layers c)) ?db (back_repo c\<lparr>r_db := ?db\<rparr>)"
    using c below_is_db [OF so] by (auto simp: item_over_def)
  then show "item_over V n latest (snd (on_chain_db (m c) c))"
    using c by (simp add: item_over_def on_chain_db_def split_beta back_repo_def)
qed

lemma item_producerList: "preserves (item_over V n latest) getProducerListFromRepo"
proof -
  have "preserves (item_over V n latest) (\<lambda>c. if ch_memoryQueue c \<noteq> [] then on_back getProducerList c else (db_getProducerList (ch_db c), c))"
    using preserves_item_back [OF keeps_getters(2), of V n latest] by (simp add: preserves_def)
  then show ?thesis unfolding getProducerListFromRepo_def by (intro preserves_intros)
qed

lemma item_schedule: "preserves (item_over V n latest) (updateSchedule b)"
  unfolding updateSchedule_def chain_schedule_def updateProducerRecord_def
  by (intro preserves_intros item_producerList preserves_core item_on_db same_objects_globals) (simp_all add: core_def)

lemma item_confirm: "preserves (item_over V n latest) (confirmBlock e b)"
proof (rule preservesI)
  fix c assume c: "item_over V n latest c"
  have "core (snd (confirmBlock e b c)) = core c" by (simp add: confirmBlock_def send_def Let_def core_def)
  then show "item_over V n latest (snd (confirmBlock e b c))" using c by (rule item_core [THEN iffD2])
qed

lemma item_payBonus: "preserves (item_over V n latest) (payBonus b)"
  unfolding payBonus_def Let_def by (intro preserves_intros preserves_item_back keeps)

lemma preserves_failed:
  assumes "thenX m k s = (Inl x, s')" "P s" "preserves P m" "\<And>t. P t \<Longrightarrow> k t = (Inl x, s') \<Longrightarrow> P s'"
  shows "P s'"
  using assms preservesD [OF assms(3,2)] by (cases "m s"; cases "fst (m s)") auto

lemma item_fails:
  assumes c: "item_over V n latest c" and run: "executeItem e b c = (Inl x, c')"
  shows "item_over V n latest c'"
proof -
  let ?k = "thenX (payBonus b) (thenX setDone (modifyX (\<lambda>c. setLatest b (eraseSolicitedTx b c))))"
  have 1: "item_over V n latest c'" if "item_over V n latest t" "?k t = (Inl x, c')" for t
    by (rule preserves_failed [OF that(2,1) item_payBonus]) (simp add: setDone_def)
  have 2: "item_over V n latest c'" if "item_over V n latest t" "thenX (updateSchedule b) ?k t = (Inl x, c')" for t
    by (rule preserves_failed [OF that(2,1) item_schedule 1])
  have 3: "item_over V n latest c'"
    if "item_over V n latest t" "thenX (confirmBlock e b) (thenX (updateSchedule b) ?k) t = (Inl x, c')" for t
    by (rule preserves_failed [OF that(2,1) item_confirm 2])
  show ?thesis by (rule preserves_failed [OF run [unfolded executeItem_def] c preserves_item_back [OF keeps_run] 3])
qed

named_theorems keeps_time \<open>ledger operations that keep the time\<close>

lemma keeps_time_basic [keeps_time]:
  "preserves (\<lambda>g. lg_timestamp g = ts) (ledger_getAccount a)" "preserves (\<lambda>g. lg_timestamp g = ts) (ledger_getProducer a)"
  "preserves (\<lambda>g. lg_timestamp g = ts) (ledger_putAccount acc)" "preserves (\<lambda>g. lg_timestamp g = ts) (ledger_putProducer p)"
  "preserves (\<lambda>g. lg_timestamp g = ts) ledger_timestamp"
  by (simp_all add: preserves_def ledger_getAccount_def ledger_getProducer_def ledger_putAccount_def ledger_putProducer_def
      ledger_timestamp_def)

lemma keeps_time_ops [keeps_time]:
  "preserves (\<lambda>g. lg_timestamp g = ts) (ledger_or_new k a)" "preserves (\<lambda>g. lg_timestamp g = ts) (ledger_burn k v)"
  "preserves (\<lambda>g. lg_timestamp g = ts) (ledger_bonus k v)" "preserves (\<lambda>g. lg_timestamp g = ts) (ledger_eraseVoter k k')"
  "preserves (\<lambda>g. lg_timestamp g = ts) (ledger_voteIncrease k k' v)"
  unfolding ledger_or_new_def ledger_burn_def ledger_bonus_def ledger_eraseVoter_def ledger_voteIncrease_def
  by (intro preserves_intros keeps_time)+

lemma keeps_time_more [keeps_time]:
  "preserves (\<lambda>g. lg_timestamp g = ts) (ledger_transfer k k' v)" "preserves (\<lambda>g. lg_timestamp g = ts) (ledger_clearVote k)"
  unfolding ledger_transfer_def ledger_clearVote_def by (intro preserves_intros keeps_time)+

lemma keeps_time_actions [keeps_time]:
  "preserves (\<lambda>g. lg_timestamp g = ts) (ledger_vote t)" "preserves (\<lambda>g. lg_timestamp g = ts) (ledger_transferTx t)"
  "preserves (\<lambda>g. lg_timestamp g = ts) (ledger_beenProducer t ts')"
  unfolding ledger_vote_def ledger_transferTx_def ledger_beenProducer_def
  by (cases "ballot_decode (t_data t)"; auto intro!: preserves_intros keeps_time)+

lemma keeps_timestamp: "preserves (\<lambda>g. lg_timestamp g = ts) (ledger_block b)"
  unfolding ledger_block_def ledger_execute_def by (intro preserves_intros keeps_time)

section \<open>The outcome of a block\<close>

definition tx_ready :: "block \<Rightarrow> bool" where
  "tx_ready b \<longleftrightarrow> (\<forall>t \<in> set (b_transactions b). executable (block_timestamp b) t \<and> \<not> isEmptyTransaction t)"

definition accepted :: "block \<Rightarrow> chain \<Rightarrow> chain \<Rightarrow> bool" where
  "accepted b c c' \<longleftrightarrow> length (ch_memoryQueue c') = Suc (length (ch_memoryQueue c)) \<and>
     ch_latestBlockNumber c' = block_number b \<and> ch_latestBlock c' = b \<and>
     ledger_block b (ledger_of (chain_views c) (block_timestamp b)) = (Inr (), ledger_of (chain_views c') (block_timestamp b)) \<and>
     snd (snd (chain_views c')) = with_txs (b_transactions b) (snd (snd (chain_views c)))"

definition rejected :: "chain \<Rightarrow> chain \<Rightarrow> bool" where
  "rejected c c' \<longleftrightarrow> length (ch_memoryQueue c') = length (ch_memoryQueue c) \<and>
     ch_latestBlockNumber c' = ch_latestBlockNumber c \<and> ch_latestBlock c' = ch_latestBlock c \<and> chain_views c' = chain_views c"

lemma doProcessBlock_cases:
  assumes ok: "chain_ok c" and txs: "tx_ready b" and run: "doProcessBlock e b c = (Inr (), c')"
  shows "chain_ok c' \<and> (accepted b c c' \<or> rejected c c')"
proof -
  let ?V = "chain_views c" and ?n = "length (ch_memoryQueue c)" and ?l = "(ch_latestBlockNumber c, ch_latestBlock c)"
  have sv: "shows_views ?V ?n ?l c" using ok by (simp add: shows_views_def)
  have rej: "chain_ok d \<and> rejected c d" if "shows_views ?V ?n ?l d" for d
    using that by (auto simp: shows_views_def rejected_def)
  obtain r c1 where before: "beforeItem e b c = (r, c1)" by (cases "beforeItem e b c")
  have c1: "shows_views ?V ?n ?l c1" by (rule preservesD [OF shows_beforeItem sv before])
  show ?thesis
  proof (cases r)
    case (Inl x)
    then show ?thesis using run before rej [OF c1] by (auto simp: doProcessBlock_def split: if_splits)
  next
    case (Inr u)
    let ?c2 = "snd (addMemoryItem b c1)"
    have run': "try_catch (executeItem e b) is_GSException cancelMemoryItem ?c2 = (Inr (), c')"
      using run before Inr by (simp add: doProcessBlock_def thenX_run addMemoryItem_def)
    have ex: "executing ?V ?n ?l (ledger_of ?V (block_timestamp b)) (snd (snd ?V)) ?c2" by (rule executing_add [OF c1])
    obtain r' c3 where e: "executeItem e b ?c2 = (r', c3)" by (cases "executeItem e b ?c2")
    show ?thesis
    proof (cases r')
      case (Inl x)
      have "item_over ?V ?n ?l ?c2" using ex by (simp add: executing_def)
      then have "item_over ?V ?n ?l c3" using e unfolding Inl by (rule item_fails)
      moreover have "c' = snd (cancelMemoryItem c3)"
        using run' e Inl by (auto simp: try_catch_def cancelMemoryItem_def split: if_splits)
      ultimately show ?thesis using rej shows_cancel by blast
    next
      case Inr': (Inr v)
      have c': "executeItem e b ?c2 = (Inr (), c')" using run' e Inr' by (simp add: try_catch_def)
      obtain G' where G': "ledger_block b (ledger_of ?V (block_timestamp b)) = (Inr (), G')"
        "executing ?V ?n (block_number b, b) G' (with_txs (b_transactions b) (snd (snd ?V))) c'"
        using executing_item [OF ex c'] txs by (auto simp: tx_ready_def)
      note s = executing_shows [OF G'(2)]
      have "lg_timestamp G' = block_timestamp b"
        by (rule preservesD [OF keeps_timestamp _ G'(1)]) (simp add: ledger_of_def)
      then show ?thesis using s G'(1) by (simp add: accepted_def)
    qed
  qed
qed

section \<open>Blocks that are accepted\<close>

lemma on_back_succeeds:
  assumes "executing V n latest G T c" "\<And>V bs db. preserves (below_is V bs db) m" "led.sim m m'" "m' G = (Inr x, G')"
  shows "\<exists>c'. on_back m c = (Inr x, c')"
proof -
  have i: "item_over V n latest c" "repo_inv (back_repo c)" "abs_repo (back_repo c) = G" using assms(1) by (simp_all add: executing_def)
  obtain res c' where run: "on_back m c = (res, c')" by (cases "on_back m c")
  have "m (back_repo c) = (res, back_repo c')" by (rule item_on_back(2) [OF i(1) assms(2) run])
  then show ?thesis using led.simD [OF assms(3) i(2)] i(3) assms(4) run by auto
qed

lemma executeItem_succeeds:
  assumes c: "executing V n latest G T c" and txs: "tx_ready b" and led: "ledger_block b G = (Inr (), G')"
    and nr: "block_number b mod SCHEDULE_PERIOD \<noteq> 0" and yr: "bonusFactor (block_timestamp b) < 64"
  shows "\<exists>c'. executeItem e b c = (Inr (), c')"
proof -
  have txs': "\<forall>t \<in> set (b_transactions b). executable (block_timestamp b) t \<and> \<not> isEmptyTransaction t"
    using txs by (simp add: tx_ready_def)
  obtain G1 where G1: "forX (b_transactions b) (ledger_execute (block_timestamp b)) G = (Inr (), G1)"
    "ledger_bonus (block_producer b) (bonus_of b) G1 = (Inr (), G')"
    using led unfolding ledger_block_def by (auto elim!: thenX_InrE)
  obtain c1 where r1: "on_back (correlator_run b) c = (Inr (), c1)"
    using on_back_succeeds [OF c keeps_run sim_run G1(1)] txs' by blast
  have c1: "executing V n latest G1 (with_txs (b_transactions b) T) c1"
    using executing_run [OF c r1 txs'] G1(1) by auto
  obtain c2 where r2: "confirmBlock e b c1 = (Inr (), c2)"
    by (cases "b_syncBlock b") (simp_all add: confirmBlock_def send_def Let_def)
  have c2: "executing V n latest G1 (with_txs (b_transactions b) T) c2" by (rule preservesD [OF executing_confirm c1 r2])
  obtain c3 where r3: "on_back (bonus (block_producer b) (bonus_of b)) c2 = (Inr (), c3)"
    using on_back_succeeds [OF c2 keeps_balances(3) sim_bonus G1(2)] by blast
  have "payBonus b c2 = (Inr (), c3)" using r3 yr by (simp add: payBonus_def Let_def bonus_of_def)
  then show ?thesis using r1 r2 nr by (simp add: executeItem_def thenX_run updateSchedule_def setDone_def)
qed

text \<open>Whether a transaction is found depends on what the chain shows.\<close>

lemma isExist_result:
  assumes "chain_ok c"
  shows "fst (isExistInRepo t c) = bindE (snd (snd (chain_views c)) (transaction_getHash t)) (\<lambda>v. Inr (\<not> isEmptyTransaction v))"
proof (cases "ch_memoryQueue c = []")
  case True
  then have v: "snd (snd (chain_views c)) h = tc.db_value (db_getTransaction h (ch_db c))" for h
    by (simp add: chain_views_def views_of_def back_layers_def tc.view_def)
  show ?thesis unfolding v using True
    by (cases "db_getTransaction (transaction_getHash t) (ch_db c)")
      (auto simp: isExistInRepo_def bindX_run tc.db_value_def isEmptyTransaction_def transaction_eq_def)
next
  case False
  then have "tx_inv (back_repo c)"
    using assms by (auto simp: chain_ok_def layers_ok_def db_ok_def tx_inv_def back_repo_def back_layers_def)
  then have "fst (getTransaction h (back_repo c)) = abs_tx (back_repo c) h" for h
    using txs.simD [OF sim_getTransaction, of "back_repo c" h] by (cases "getTransaction h (back_repo c)") simp
  then have "fst (getTransaction h (back_repo c)) = snd (snd (chain_views c)) h" for h
    by (simp add: abs_tx_views chain_views_def) (simp add: back_repo_def)
  then have "snd (snd (chain_views c)) (transaction_getHash t) = fst (on_back (getTransaction (transaction_getHash t)) c)"
    by (simp add: on_back_def split_beta)
  then show ?thesis using False
    by (cases "on_back (getTransaction (transaction_getHash t)) c"; cases "fst (on_back (getTransaction (transaction_getHash t)) c)")
      (simp_all add: isExistInRepo_def bindX_run)
qed

text \<open>What the checks before the execution read besides the views.\<close>

definition read_frame :: "chain \<Rightarrow> (u64 \<times> block) list \<times> database \<times> u64 \<times> rollback \<times> schedule" where
  "read_frame c = (map (\<lambda>i. (mi_blockNumber i, l_block (mi_layer i))) (ch_memoryQueue c), ch_db c, ch_latestBlockNumber c,
     ch_rollbackState c, ch_schedule c)"

lemma map_set_layers_pairs:
  "length is = length ls \<Longrightarrow>
   map (\<lambda>i. (mi_blockNumber i, l_block (mi_layer i))) (set_layers is ls) = zip (map mi_blockNumber is) (map l_block ls)"
  by (induction "is" ls rule: set_layers.induct) auto

lemma zip_pairs: "zip (map f xs) (map g xs) = map (\<lambda>x. (f x, g x)) xs"
  by (induction xs) auto

lemma read_frame_set:
  assumes "map l_block ls = map l_block (back_layers c)"
  shows "read_frame (set_back_layers ls c) = read_frame c"
proof (cases "ch_memoryQueue c = []")
  case False
  let ?q = "ch_memoryQueue c" and ?n = "length (ch_memoryQueue c)"
  have len: "length ls = length (back_layers c)" using assms by (metis length_map)
  have "map l_block (rev (take ?n ls)) = rev (take ?n (map l_block ls))" by (simp add: rev_map take_map)
  also have "\<dots> = map l_block (map mi_layer ?q)" using False by (simp add: assms back_layers_def rev_map take_map)
  finally have b: "map l_block (rev (take ?n ls)) = map (\<lambda>i. l_block (mi_layer i)) ?q" by simp
  have "length (rev (take ?n ls)) = ?n" using len False by (simp add: back_layers_def)
  then have "map (\<lambda>i. (mi_blockNumber i, l_block (mi_layer i))) (set_layers ?q (rev (take ?n ls))) =
      map (\<lambda>i. (mi_blockNumber i, l_block (mi_layer i))) ?q"
    by (simp add: map_set_layers_pairs b zip_pairs)
  then show ?thesis by (simp add: read_frame_def) (simp add: set_back_layers_def Let_def False)
qed (simp add: read_frame_def set_back_layers_def)

lemma getTransaction_blocks: "map l_block (r_layers (snd (getTransaction h r))) = map l_block (r_layers r)"
  by (simp add: getTransaction_def Let_def split_beta read_through_frame)

lemma getTransaction_db: "r_db (snd (getTransaction h r)) = r_db r"
  by (simp add: getTransaction_def Let_def split_beta)

lemma isExist_frame: "read_frame (snd (isExistInRepo t c)) = read_frame c"
proof -
  let ?h = "transaction_getHash t"
  have "snd (on_back (getTransaction ?h) c) = set_back_layers (r_layers (snd (getTransaction ?h (back_repo c)))) c"
    using getTransaction_db [of ?h "back_repo c"] by (simp add: on_back_def split_beta) (simp add: back_repo_def)
  moreover have "map l_block (r_layers (snd (getTransaction ?h (back_repo c)))) = map l_block (back_layers c)"
    using getTransaction_blocks [of ?h "back_repo c"] by (simp add: back_repo_def)
  ultimately have "read_frame (snd (on_back (getTransaction ?h) c)) = read_frame c" using read_frame_set by simp
  then show ?thesis by (auto simp: isExistInRepo_def bindX_run split: prod.splits sum.splits)
qed

lemma find_map_of: "map_of (map (\<lambda>x. (f x, g x)) xs) k = map_option g (List.find (\<lambda>x. f x = k) xs)"
  by (induction xs) auto

lemma getBlockByNumber_alt:
  "getBlockByNumber e n c =
     (if n > ch_latestBlockNumber c then Inr EmptyBlock
      else if n \<le> rs_solidifyNumber (ch_rollbackState c) then
        bindE (db_getBlockByNumber (e_h0 e) n (ch_db c)) (\<lambda>_. db_getBlockByNumber (e_h0 e) n (ch_db c))
      else (case (map_option mi_blockNumber (queue_front (ch_memoryQueue c)), map_option mi_blockNumber (queue_back (ch_memoryQueue c))) of
              (Some first, Some final) \<Rightarrow>
                if n \<ge> first \<and> n \<le> final
                then (case map_option (\<lambda>i. l_block (mi_layer i)) (List.find (\<lambda>i. mi_blockNumber i = n) (ch_memoryQueue c)) of
                        Some b \<Rightarrow> Inr b
                      | None \<Rightarrow> db_getBlockByNumber (e_h0 e) n (ch_db c))
                else db_getBlockByNumber (e_h0 e) n (ch_db c)
            | _ \<Rightarrow> db_getBlockByNumber (e_h0 e) n (ch_db c)))"
  unfolding getBlockByNumber_def
  by (cases "queue_front (ch_memoryQueue c)"; cases "queue_back (ch_memoryQueue c)";
      cases "List.find (\<lambda>i. mi_blockNumber i = n) (ch_memoryQueue c)") simp_all

lemma getBlockByNumber_frame:
  assumes "read_frame c' = read_frame c"
  shows "getBlockByNumber e n c' = getBlockByNumber e n c"
proof -
  have p: "map (\<lambda>i. (mi_blockNumber i, l_block (mi_layer i))) (ch_memoryQueue c') = map (\<lambda>i. (mi_blockNumber i, l_block (mi_layer i))) (ch_memoryQueue c)"
    using assms by (simp add: read_frame_def)
  have m: "map mi_blockNumber (ch_memoryQueue c') = map mi_blockNumber (ch_memoryQueue c)"
    using arg_cong [OF p, of "map fst"] by (simp add: comp_def)
  have f: "map_option (\<lambda>i. l_block (mi_layer i)) (List.find (\<lambda>i. mi_blockNumber i = n) (ch_memoryQueue c')) =
      map_option (\<lambda>i. l_block (mi_layer i)) (List.find (\<lambda>i. mi_blockNumber i = n) (ch_memoryQueue c))"
    using arg_cong [OF p, of "\<lambda>l. map_of l n"] by (simp add: find_map_of)
  have o: "map_option mi_blockNumber (queue_front (ch_memoryQueue c')) = map_option mi_blockNumber (queue_front (ch_memoryQueue c))"
    "map_option mi_blockNumber (queue_back (ch_memoryQueue c')) = map_option mi_blockNumber (queue_back (ch_memoryQueue c))"
    using m last_map [of "ch_memoryQueue c" mi_blockNumber] last_map [of "ch_memoryQueue c'" mi_blockNumber]
    by (auto simp: queue_front_def queue_back_def split: list.splits)
  have "ch_db c' = ch_db c" "ch_latestBlockNumber c' = ch_latestBlockNumber c" "ch_rollbackState c' = ch_rollbackState c"
    using assms by (simp_all add: read_frame_def)
  then show ?thesis by (simp only: getBlockByNumber_alt f o)
qed

lemma checkNotInRepo_succeeds:
  assumes "shows_views V n latest c" "\<forall>t \<in> set ts. snd (snd V) (transaction_getHash t) = Inr EmptyTransaction"
  shows "\<exists>c'. forX ts (\<lambda>tx. bindX (isExistInRepo tx) (\<lambda>found. if found then throwX BlockChainException else returnX ())) c = (Inr (), c') \<and>
    read_frame c' = read_frame c \<and> shows_views V n latest c'"
  using assms
proof (induction ts arbitrary: c)
  case (Cons t ts)
  have ok: "chain_ok c" "chain_views c = V" using Cons.prems(1) by (simp_all add: shows_views_def)
  have "isEmptyTransaction EmptyTransaction" by (simp add: isEmptyTransaction_def transaction_eq_def)
  then have "fst (isExistInRepo t c) = Inr False" using isExist_result [OF ok(1), of t] Cons.prems(2) by (simp add: ok(2))
  then obtain c1 where c1: "isExistInRepo t c = (Inr False, c1)" by (cases "isExistInRepo t c") auto
  have "shows_views V n latest c1" by (rule preservesD [OF shows_isExistInRepo Cons.prems(1) c1])
  moreover have "read_frame c1 = read_frame c" using isExist_frame [of t c] c1 by simp
  moreover have "bindX (isExistInRepo t) (\<lambda>found. if found then throwX BlockChainException else returnX ()) c = (Inr (), c1)"
    using c1 by (simp add: bindX_run)
  ultimately show ?case using Cons.IH [of c1] Cons.prems(2) by simp
qed simp

lemma delete_range_succeeds: "stop \<le> length l \<Longrightarrow> \<exists>ps'. delete_range l i stop ps = Inr ps'"
proof (induction l i stop ps rule: delete_range.induct)
  case (1 l i stop ps)
  then show ?case by (subst delete_range.simps) auto
qed

lemma updateActiveProducers_succeeds:
  assumes "getBlockByNumber e (block_number b - 1) c = Inr prev" "db_getProducer (block_producer b) (ch_db c) = Inr p"
    and pos: "unat (producerPosition (block_timestamp b)) \<le> length (getCurrentProducerList (ch_schedule c))"
  shows "\<exists>c'. updateActiveProducers e b c = (Inr (), c')"
proof -
  let ?l = "getCurrentProducerList (ch_schedule c)" and ?cur = "producerPosition (block_timestamp b)"
  have d: "\<exists>x. delete_range ?l i (unat ?cur) ps = Inr x" for i ps by (rule delete_range_succeeds [OF pos])
  have d': "\<exists>x. delete_range ?l i (length ?l) ps = Inr x" for i ps by (rule delete_range_succeeds) simp
  have "\<exists>x. bindE (delete_range ?l i (unat ?cur) ps) (delete_range ?l j (length ?l)) = Inr x" for i j ps
    using d [of i ps] d' by (auto simp: bindE_Inr_iff)
  then show ?thesis using assms(1,2) d
    by (auto simp: updateActiveProducers_def attempt_def bindX_run thenX_run Let_def split: sum.splits)
      (metis sum.distinct(1))+
qed

lemma beforeItem_succeeds:
  assumes c: "chain_ok c" and new: "\<forall>t \<in> set (b_transactions b). snd (snd (chain_views c)) (transaction_getHash t) = Inr EmptyTransaction"
    and prev: "getBlockByNumber e (block_number b - 1) c = Inr prev" "db_getProducer (block_producer b) (ch_db c) = Inr p"
    and pos: "unat (producerPosition (block_timestamp b)) \<le> length (getCurrentProducerList (ch_schedule c))"
  shows "\<exists>c'. beforeItem e b c = (Inr (), c')"
proof -
  have "shows_views (chain_views c) (length (ch_memoryQueue c)) (ch_latestBlockNumber c, ch_latestBlock c) c"
    using c by (simp add: shows_views_def)
  from checkNotInRepo_succeeds [OF this new] obtain c1
    where c1: "checkNotInRepo b c = (Inr (), c1)" "read_frame c1 = read_frame c" by (auto simp: checkNotInRepo_def)
  have "getBlockByNumber e (block_number b - 1) c1 = Inr prev" "db_getProducer (block_producer b) (ch_db c1) = Inr p"
    "unat (producerPosition (block_timestamp b)) \<le> length (getCurrentProducerList (ch_schedule c1))"
    using getBlockByNumber_frame [OF c1(2)] prev pos c1(2) by (simp_all add: read_frame_def)
  from updateActiveProducers_succeeds [OF this] show ?thesis
    using c1(1) by (auto simp: beforeItem_def thenX_run recordProducer_def)
qed

end
