(* ===== verification/ChainSafety.thy ===== *)
theory ChainSafety
  imports ChainLedger
begin

text \<open>
  What the execution of blocks guarantees: the outcome of one block, and the slots in which a producer's blocks are
  executed.
\<close>

section \<open>The outcome of one block\<close>

text \<open>The conditions under which a block is executed: its transactions are new, the blocks and producers it is
  compared with can be read, its slot exists, it is not a block that changes the schedule, and the
  ledger accepts it.\<close>

definition block_fits :: "env \<Rightarrow> block \<Rightarrow> chain \<Rightarrow> bool" where
  "block_fits e b c \<longleftrightarrow>
     (\<forall>t \<in> set (b_transactions b). snd (snd (chain_views c)) (transaction_getHash t) = Inr EmptyTransaction) \<and>
     \<not> isl (getBlockByNumber e (block_number b - 1) c) \<and> \<not> isl (db_getProducer (block_producer b) (ch_db c)) \<and>
     unat (producerPosition (block_timestamp b)) \<le> length (getCurrentProducerList (ch_schedule c)) \<and>
     block_number b mod SCHEDULE_PERIOD \<noteq> 0 \<and> bonusFactor (block_timestamp b) < 64 \<and>
     fst (ledger_block b (ledger_of (chain_views c) (block_timestamp b))) = Inr ()"

lemma doProcessBlock_succeeds:
  assumes ok: "chain_ok c" and txs: "tx_ready b" and fits: "block_fits e b c"
  shows "\<exists>c'. doProcessBlock e b c = (Inr (), c') \<and> length (ch_memoryQueue c') = Suc (length (ch_memoryQueue c))"
proof -
  let ?V = "chain_views c" and ?n = "length (ch_memoryQueue c)" and ?l = "(ch_latestBlockNumber c, ch_latestBlock c)"
  have sv: "shows_views ?V ?n ?l c" using ok by (simp add: shows_views_def)
  obtain prev p G' where f: "getBlockByNumber e (block_number b - 1) c = Inr prev"
      "db_getProducer (block_producer b) (ch_db c) = Inr p"
    and G': "ledger_block b (ledger_of ?V (block_timestamp b)) = (Inr (), G')"
    using fits
    by (cases "ledger_block b (ledger_of ?V (block_timestamp b))"; cases "getBlockByNumber e (block_number b - 1) c";
        cases "db_getProducer (block_producer b) (ch_db c)") (auto simp: block_fits_def)
  obtain c1 where c1: "beforeItem e b c = (Inr (), c1)"
    using beforeItem_succeeds [OF ok _ f] fits by (auto simp: block_fits_def)
  let ?c2 = "snd (addMemoryItem b c1)"
  have ex: "executing ?V ?n ?l (ledger_of ?V (block_timestamp b)) (snd (snd ?V)) ?c2"
    by (rule executing_add) (rule preservesD [OF shows_beforeItem sv c1])
  obtain c' where c': "executeItem e b ?c2 = (Inr (), c')"
    using executeItem_succeeds [OF ex txs G'] fits by (auto simp: block_fits_def)
  have "doProcessBlock e b c = (Inr (), c')"
    using c1 c' by (simp add: doProcessBlock_def thenX_run addMemoryItem_def try_catch_def)
  moreover have "length (ch_memoryQueue c') = Suc ?n"
    using executing_item [OF ex c'] txs by (auto simp: tx_ready_def dest: executing_shows(2))
  ultimately show ?thesis by blast
qed

text \<open>C1. When \<open>doProcessBlock\<close> returns, the block is either executed or it has left no trace. Executed means: the
  queue has one more item, the block is the latest block, and the accounts and producers seen through the
  queue are those the ledger specification gives for the transactions of the block followed by the bonus
  of its producer, with the transactions of the block added to those that can be looked up. No trace means:
  the queue, the latest block and everything seen through the queue are what they were. A block that
  fits the chain is executed.\<close>

theorem block_outcome:
  assumes "chain_ok c" and "tx_ready b" and "doProcessBlock e b c = (res, c')"
  shows "(res = Inr () \<longrightarrow> chain_ok c' \<and> (accepted b c c' \<or> rejected c c')) \<and>
    (block_fits e b c \<longrightarrow> res = Inr () \<and> accepted b c c')"
proof (rule conjI; rule impI)
  show "chain_ok c' \<and> (accepted b c c' \<or> rejected c c')" if "res = Inr ()"
    using doProcessBlock_cases [OF assms(1,2)] assms(3) that by blast
  assume fits: "block_fits e b c"
  then have "res = Inr () \<and> length (ch_memoryQueue c') = Suc (length (ch_memoryQueue c))"
    using doProcessBlock_succeeds [OF assms(1,2) fits] assms(3) by auto
  then show "res = Inr () \<and> accepted b c c'"
    using doProcessBlock_cases [OF assms(1,2), of e c'] assms(3) by (auto simp: rejected_def)
qed

text \<open>A chain with one item over an empty database, and a block for it.\<close>

definition sample_env :: env where
  "sample_env = \<lparr>e_secp = sample_secp, e_n0 = 0, e_c0 = 0, e_t0 = 0, e_h0 = empty_header,
     e_st0 = \<lparr>st_type = 0, st_height = 0, st_start = 0, st_end = 0, st_blocks = []\<rparr>\<rparr>"

definition sample_chain :: chain where
  "sample_chain = \<lparr>ch_db = empty_db, ch_dirty = \<lparr>as_key = [], as_type = 0, as_value = 0, as_data = []\<rparr>, ch_chainID = 1,
     ch_key = new_GKey sample_secp 5,
     ch_memoryQueue = [\<lparr>mi_isDone = True, mi_blockNumber = 5, mi_layer = hd (r_layers sample_repo)\<rparr>], ch_parents = [],
     ch_rollbackState = empty_rollback, ch_head = None, ch_status = ProducerStatus, ch_historyTxCache = [],
     ch_historyBlockCache = [], ch_txCache = [], ch_blockCache = [],
     ch_activeProducers = \<lparr>ps_timestamp = 0, ps_producers = []\<rparr>, ch_prevPS = \<lparr>ps_timestamp = 0, ps_producers = []\<rparr>,
     ch_currentPS = \<lparr>ps_timestamp = 0, ps_producers = []\<rparr>, ch_latestBlockNumber = 5, ch_latestBlock = EmptyBlock,
     ch_producerRecord = [], ch_scheduleUpdate = 0,
     ch_schedule = \<lparr>sc_prevTimestamp = 0, sc_prevProducerList = [], sc_currentTimestamp = 0,
       sc_currentProducerList = [new_producer 1 5, new_producer 2 5]\<rparr>,
     ch_sync = None, ch_out = []\<rparr>"

definition block_at :: "u64 \<Rightarrow> address \<Rightarrow> int \<Rightarrow> block" where
  "block_at n p ts = EmptyBlock\<lparr>b_header := empty_header\<lparr>h_number := n, h_producer := p, h_timestamp := ts\<rparr>, b_syncBlock := True\<rparr>"

lemma block_at_simps [simp]:
  "block_number (block_at n p ts) = n" "block_producer (block_at n p ts) = p" "block_timestamp (block_at n p ts) = ts"
  "b_transactions (block_at n p ts) = []" "b_syncBlock (block_at n p ts)"
  by (simp_all add: block_at_def block_number_def block_producer_def block_timestamp_def EmptyBlock_def)

lemma sample_chain_repo: "back_repo sample_chain = sample_repo"
  by (simp add: back_repo_def back_layers_def sample_chain_def sample_repo_def)

lemma sample_chain_ok: "chain_ok sample_chain"
proof -
  have l: "back_layers sample_chain = r_layers sample_repo" "ch_db sample_chain = empty_db"
    by (simp_all add: back_layers_def sample_chain_def sample_repo_def)
  have "tc.db_good (\<lambda>h. db_getTransaction h empty_db)"
    unfolding tc.db_good_def by (simp add: db_getTransaction_def empty_db_def)
  then show ?thesis using sample_inv sample_storable(2)
    by (auto simp: chain_ok_def l layers_ok_def repo_inv_def db_ok_def sample_repo_def)
qed

lemma sample_views: "ledger_of (chain_views sample_chain) ts = (abs_repo sample_repo)\<lparr>lg_timestamp := ts\<rparr>"
  using abs_repo_views [of "back_repo sample_chain"]
  by (simp add: sample_chain_repo chain_views_def ledger_of_def) (simp add: sample_chain_repo [symmetric] back_repo_def)

lemma sample_fits: "block_fits sample_env (block_at 6 1 GENESIS_TIMESTAMP) sample_chain"
proof -
  have "fst (ledger_block (block_at 6 1 GENESIS_TIMESTAMP) (ledger_of (chain_views sample_chain) GENESIS_TIMESTAMP)) = Inr ()"
    by (simp add: ledger_block_def thenX_run ledger_bonus_def ledger_getAccount_def ledger_putAccount_def bindX_run sample_views sample_accounts)
  moreover have "getBlockByNumber sample_env 5 sample_chain = Inr EmptyBlock"
    by (simp add: getBlockByNumber_def sample_chain_def empty_rollback_def queue_front_def queue_back_def sample_repo_def)
  moreover have "db_getProducer 1 (ch_db sample_chain) = Inr EmptyProducer"
    by (simp add: sample_chain_def db_getProducer_def empty_db_def)
  moreover have "bonusFactor GENESIS_TIMESTAMP = 0" "producerPosition GENESIS_TIMESTAMP = 0"
    by (simp_all add: bonusFactor_def producerPosition_def constant_defs)
  moreover have "(6 :: u64) mod SCHEDULE_PERIOD \<noteq> 0"
    by (simp add: SCHEDULE_PERIOD_def NUM_DELEGATED_BLOCKS_def SCHEDULE_UPDATE_ROUNDS_def)
  ultimately show ?thesis by (simp add: block_fits_def)
qed

theorem block_outcome_witness:
  "let c' = snd (doProcessBlock sample_env (block_at 6 1 GENESIS_TIMESTAMP) sample_chain) in
   ch_latestBlockNumber c' = 6 \<and> length (ch_memoryQueue c') = 2 \<and> chain_ok c'"
proof -
  have q: "length (ch_memoryQueue sample_chain) = 1" by (simp add: sample_chain_def)
  have "tx_ready (block_at 6 1 GENESIS_TIMESTAMP)" by (simp add: tx_ready_def)
  from block_outcome [OF sample_chain_ok this surjective_pairing, of sample_env] sample_fits q show ?thesis
    by (simp add: accepted_def Let_def)
qed

section \<open>Slots\<close>

text \<open>The chain remembers a block that was executed: in the record of its producer or by a later change of the
  schedule.\<close>

definition remembered :: "block \<Rightarrow> chain \<Rightarrow> bool" where
  "remembered b c \<longleftrightarrow> (\<exists>t. om_find (ch_producerRecord c) (block_producer b) = Some t \<and> block_timestamp b \<le> t) \<or>
     block_timestamp b \<le> ch_scheduleUpdate c"

definition marks :: "chain \<Rightarrow> (address, int) stdmap \<times> int" where
  "marks c = (ch_producerRecord c, ch_scheduleUpdate c)"

lemma remembered_marks: "marks c' = marks c \<Longrightarrow> remembered b c' = remembered b c"
  by (simp add: remembered_def marks_def)

lemma keeps_marks:
  assumes "\<And>c. marks (snd (m c)) = marks c"
  shows "preserves (remembered b) m"
  using remembered_marks [OF assms] by (simp add: preserves_def)

lemma marks_modify: "(\<And>c. marks (f c) = marks c) \<Longrightarrow> preserves (remembered b) (modifyX f)"
  by (rule keeps_marks) simp

lemma marks_on_back: "marks (snd (on_back m c)) = marks c"
  by (simp add: on_back_def marks_def split_beta)

lemma marks_on_db: "marks (snd (on_chain_db m c)) = marks c"
  by (simp add: on_chain_db_def marks_def split_beta)

lemma remembered_isExist: "preserves (remembered b) (isExistInRepo t)"
  unfolding isExistInRepo_def
  by (intro preserves_intros keeps_marks) (simp add: marks_on_back)

lemma remembered_producerList: "preserves (remembered b) getProducerListFromRepo"
  unfolding getProducerListFromRepo_def
  by (intro preserves_intros keeps_marks) (simp add: marks_on_back)

lemma remembered_active: "preserves (remembered b) (updateActiveProducers e b')"
  unfolding updateActiveProducers_def Let_def
  by (intro preserves_intros marks_modify) (simp_all add: marks_def)

lemma remembered_record:
  assumes "block_timestamp b \<le> block_timestamp b'"
  shows "preserves (remembered b) (recordProducer b')"
  unfolding recordProducer_def using assms by (intro preserves_modifyX) (auto simp: remembered_def)

lemma remembered_chain_schedule: "preserves (remembered b) (chain_schedule ts)"
  unfolding chain_schedule_def
  by (intro preserves_intros remembered_producerList marks_modify keeps_marks marks_on_db) (simp_all add: marks_def)

lemma remembered_schedule:
  assumes "block_timestamp b \<le> block_timestamp b'"
  shows "preserves (remembered b) (updateSchedule b')"
  unfolding updateSchedule_def using assms
  by (intro preserves_intros remembered_chain_schedule preserves_modifyX) (simp add: remembered_def)

lemma remembered_execute:
  assumes "block_timestamp b \<le> block_timestamp b'"
  shows "preserves (remembered b) (executeItem e b')"
proof -
  have c: "preserves (remembered b) (confirmBlock e b')"
    by (rule keeps_marks) (simp add: confirmBlock_def send_def Let_def marks_def)
  have p: "preserves (remembered b) (payBonus b')"
    unfolding payBonus_def Let_def by (intro preserves_intros keeps_marks marks_on_back)
  show ?thesis
    unfolding executeItem_def setDone_def
    by (intro preserves_thenX c p remembered_schedule [OF assms] marks_modify keeps_marks [OF marks_on_back])
      (simp_all add: marks_def setLatest_def eraseSolicitedTx_def)
qed

lemma remembered_before:
  assumes "block_timestamp b \<le> block_timestamp b'"
  shows "preserves (remembered b) (beforeItem e b')"
  unfolding beforeItem_def checkNotInRepo_def
  by (intro preserves_intros remembered_isExist remembered_active remembered_record [OF assms])

lemma marks_cancel: "marks (snd (cancelMemoryItem c)) = marks c" "marks (snd (addMemoryItem b c)) = marks c"
  by (simp_all add: cancelMemoryItem_def addMemoryItem_def marks_def)

lemma preserves_try: "preserves P m \<Longrightarrow> preserves P h \<Longrightarrow> preserves P (try_catch m f h)"
  by (auto simp: preserves_def try_catch_def split: prod.splits sum.splits)

lemma remembered_item:
  assumes "block_timestamp b \<le> block_timestamp b'"
  shows "preserves (remembered b) (thenX (addMemoryItem b') (try_catch (executeItem e b') is_GSException cancelMemoryItem))"
  by (intro preserves_thenX preserves_try remembered_execute [OF assms] keeps_marks [OF marks_cancel(1)] keeps_marks [OF marks_cancel(2)])

lemma remembered_kept:
  assumes "remembered b c" "block_timestamp b \<le> block_timestamp b'" "doProcessBlock e b' c = (r, c')"
  shows "remembered b c'"
proof -
  obtain r1 c1 where before: "beforeItem e b' c = (r1, c1)" by (cases "beforeItem e b' c")
  have c1: "remembered b c1" by (rule preservesD [OF remembered_before [OF assms(2)] assms(1) before])
  show ?thesis
  proof (cases r1)
    case (Inl x)
    then show ?thesis using assms(3) before c1 by (auto simp: doProcessBlock_def split: if_splits)
  next
    case (Inr u)
    then show ?thesis using assms(3) before preservesD [OF remembered_item [OF assms(2)] c1] by (simp add: doProcessBlock_def)
  qed
qed

text \<open>A block that has been executed is remembered.\<close>

lemma remembered_new:
  assumes "chain_ok c" "doProcessBlock e b c = (r, c')" "length (ch_memoryQueue c) < length (ch_memoryQueue c')"
  shows "remembered b c'"
proof -
  let ?V = "chain_views c" and ?n = "length (ch_memoryQueue c)" and ?l = "(ch_latestBlockNumber c, ch_latestBlock c)"
  have sv: "shows_views ?V ?n ?l c" using assms(1) by (simp add: shows_views_def)
  obtain r1 c1 where before: "beforeItem e b c = (r1, c1)" by (cases "beforeItem e b c")
  have "shows_views ?V ?n ?l c1" by (rule preservesD [OF shows_beforeItem sv before])
  then have "length (ch_memoryQueue c1) = ?n" by (simp add: shows_views_def)
  then obtain u where r1: "r1 = Inr u" using assms(2,3) before by (cases r1) (auto simp: doProcessBlock_def split: if_splits)
  have "remembered b c1"
    using before r1 unfolding beforeItem_def
    by (auto elim!: thenX_InrE simp: recordProducer_def remembered_def)
  then show ?thesis
    using assms(2) before r1 preservesD [OF remembered_item, of b b] by (simp add: doProcessBlock_def)
qed

text \<open>A producer's next block must be in a later slot.\<close>

lemma remembered_slot:
  assumes "remembered b c" "checkProducer b' c" "block_producer b' = block_producer b"
    and "GENESIS_TIMESTAMP \<le> block_timestamp b" "GENESIS_TIMESTAMP \<le> block_timestamp b'"
  shows "slot (block_timestamp b) < slot (block_timestamp b')"
proof -
  have "block_timestamp b - GENESIS_TIMESTAMP < blockSlice (block_timestamp b')"
    using assms(1-3) by (auto simp: remembered_def checkProducer_def Let_def split: if_splits option.splits)
  then have "block_timestamp b - GENESIS_TIMESTAMP < slot (block_timestamp b') * PRODUCER_INTERVAL"
    using assms(5) by (simp add: blockSlice_slot)
  then show ?thesis
    using assms(4) by (simp add: slot_def PRODUCER_INTERVAL_def)
qed

text \<open>The blocks processed one after the other, and whether each was executed.\<close>

inductive block_run :: "env \<Rightarrow> chain \<Rightarrow> (block \<times> bool) list \<Rightarrow> chain \<Rightarrow> bool" for e c0 where
  start: "block_run e c0 [] c0"
| step: "block_run e c0 bs c \<Longrightarrow> checkProducer b c \<Longrightarrow> tx_ready b \<Longrightarrow> doProcessBlock e b c = (Inr (), c') \<Longrightarrow>
    block_run e c0 (bs @ [(b, length (ch_memoryQueue c) < length (ch_memoryQueue c'))]) c'"

definition in_order :: "(block \<times> bool) list \<Rightarrow> bool" where
  "in_order bs \<longleftrightarrow> sorted (map (\<lambda>(b, _). block_timestamp b) bs) \<and> (\<forall>(b, _) \<in> set bs. GENESIS_TIMESTAMP \<le> block_timestamp b)"

lemma block_run_remembers:
  assumes "block_run e c0 bs c" "chain_ok c0" "in_order bs"
  shows "chain_ok c \<and> (\<forall>b. (b, True) \<in> set bs \<longrightarrow> remembered b c)"
  using assms(1,3)
proof (induction rule: block_run.induct)
  case start
  then show ?case using assms(2) by simp
next
  case (step bs c b c')
  then have IH: "chain_ok c" "\<And>b. (b, True) \<in> set bs \<Longrightarrow> remembered b c"
    by (auto simp: in_order_def sorted_append)
  have "remembered b' c'" if "(b', True) \<in> set bs" for b'
    using remembered_kept [OF IH(2) [OF that] _ step(4)] step.prems that by (force simp: in_order_def sorted_append)
  moreover have "chain_ok c'" using doProcessBlock_cases [OF IH(1) step(3,4)] by simp
  ultimately show ?case using remembered_new [OF IH(1) step(4)] by auto
qed

lemma block_run_slots:
  assumes "block_run e c0 bs c" "chain_ok c0" "in_order bs"
  shows "sorted_wrt (\<lambda>(b, done) (b', _). done \<longrightarrow> block_producer b = block_producer b' \<longrightarrow>
    slot (block_timestamp b) < slot (block_timestamp b')) bs"
  using assms(1,3)
proof (induction rule: block_run.induct)
  case (step bs c b c')
  have o: "in_order bs" using step.prems by (auto simp: in_order_def sorted_append)
  have "slot (block_timestamp b') < slot (block_timestamp b)" if "(b', True) \<in> set bs" "block_producer b' = block_producer b" for b'
    using remembered_slot [of b' c b] block_run_remembers [OF step(1) assms(2) o] step(2) that step.prems
    by (force simp: in_order_def)
  then show ?case using step.IH [OF o] by (auto simp: sorted_wrt_append)
qed simp

text \<open>C6. A producer gets one block per slot: when blocks that pass \<open>checkProducer\<close> are processed in the order of their
  time stamps, a block that was executed is followed by no block of the same producer in the same slot or in
  an earlier one, whatever other blocks were executed or rejected in between, and also across changes of the
  schedule.\<close>

theorem one_block_per_slot:
  assumes "block_run e c0 bs c" and "chain_ok c0" and "in_order bs"
    and "i < j" and "j < length bs" and "snd (bs ! i)" and "block_producer (fst (bs ! i)) = block_producer (fst (bs ! j))"
  shows "slot (block_timestamp (fst (bs ! i))) < slot (block_timestamp (fst (bs ! j)))"
  using block_run_slots [OF assms(1-3)] assms(4-7) by (simp add: sorted_wrt_iff_nth_less split_beta)

text \<open>What a block that does not change the schedule leaves alone.\<close>

definition setting :: "chain \<Rightarrow> database \<times> schedule \<times> int" where
  "setting c = (ch_db c, ch_schedule c, ch_scheduleUpdate c)"

lemma setting_on_back:
  assumes "item_over V n latest c" "\<And>V bs db. preserves (below_is V bs db) m" "on_back m c = (r, c')"
  shows "item_over V n latest c' \<and> setting c' = setting c \<and> ch_producerRecord c' = ch_producerRecord c"
proof -
  have q: "below_is V (map l_block (back_layers c)) (ch_db c) (back_repo c)" using assms(1) by (simp add: item_over_def)
  have "below_is V (map l_block (back_layers c)) (ch_db c) (snd (m (back_repo c)))"
    using assms(2) q by (simp add: preserves_def)
  then have "r_db (snd (m (back_repo c))) = ch_db c" by (simp add: below_is_def)
  then show ?thesis
    using item_on_back(1) [OF assms] assms(3) by (auto simp: on_back_def setting_def split: prod.splits)
qed

lemma executeItem_setting:
  assumes "item_over V n latest c" "executeItem e b c = (Inr (), c')" "block_number b mod SCHEDULE_PERIOD \<noteq> 0"
  shows "setting c' = setting c \<and> ch_producerRecord c' = ch_producerRecord c"
proof -
  obtain c1 c2 c3 where r: "on_back (correlator_run b) c = (Inr (), c1)" "confirmBlock e b c1 = (Inr (), c2)"
    "payBonus b c2 = (Inr (), c3)" and c': "c' = setLatest b (eraseSolicitedTx b (snd (setDone c3)))"
    using assms(2,3) unfolding executeItem_def by (auto elim!: thenX_InrE simp: updateSchedule_def setDone_def)
  note 1 = setting_on_back [OF assms(1) keeps_run r(1)]
  have i: "item_over V n latest c2" using preservesD [OF item_confirm _ r(2)] 1 by blast
  have 2: "setting c2 = setting c1 \<and> ch_producerRecord c2 = ch_producerRecord c1"
    using r(2) by (auto simp: confirmBlock_def send_def Let_def setting_def split: if_splits)
  have b: "on_back (bonus (block_producer b) (bonus_of b)) c2 = (Inr (), c3)"
    using r(3) by (simp add: payBonus_def Let_def bonus_of_def split: if_splits)
  note 3 = setting_on_back [OF i keeps_balances(3) b]
  show ?thesis using 1 2 3 by (simp add: c' setting_def setDone_def setLatest_def eraseSolicitedTx_def)
qed

lemma isExist_state: "\<exists>ls. snd (isExistInRepo t c) = set_back_layers ls c \<or> snd (isExistInRepo t c) = c"
proof -
  let ?h = "transaction_getHash t"
  have "snd (on_back (getTransaction ?h) c) = set_back_layers (r_layers (snd (getTransaction ?h (back_repo c)))) c"
    using getTransaction_db [of ?h "back_repo c"] by (simp add: on_back_def split_beta) (simp add: back_repo_def)
  moreover have "snd (isExistInRepo t c) = (if ch_memoryQueue c \<noteq> [] then snd (on_back (getTransaction ?h) c) else c)"
    by (cases "fst (on_back (getTransaction ?h) c)"; cases "on_back (getTransaction ?h) c"; cases "db_getTransaction ?h (ch_db c)")
      (simp_all add: isExistInRepo_def bindX_run)
  ultimately show ?thesis by auto
qed

lemma checkNotInRepo_frame:
  "checkNotInRepo b c = (r, c') \<Longrightarrow> setting c' = setting c \<and> ch_producerRecord c' = ch_producerRecord c"
proof -
  have ie: "setting (snd (isExistInRepo t c)) = setting c \<and> ch_producerRecord (snd (isExistInRepo t c)) = ch_producerRecord c" for t c
    using isExist_state [of t c] by (auto simp: setting_def)
  have p: "preserves (\<lambda>c'. setting c' = setting c \<and> ch_producerRecord c' = ch_producerRecord c) (isExistInRepo t)" for t
    by (rule preservesI) (simp add: ie)
  have "preserves (\<lambda>c'. setting c' = setting c \<and> ch_producerRecord c' = ch_producerRecord c) (checkNotInRepo b)"
    unfolding checkNotInRepo_def by (intro preserves_intros p)
  then show "checkNotInRepo b c = (r, c') \<Longrightarrow> setting c' = setting c \<and> ch_producerRecord c' = ch_producerRecord c"
    using preservesD [of "\<lambda>c'. setting c' = setting c \<and> ch_producerRecord c' = ch_producerRecord c" "checkNotInRepo b" c r c'] by blast
qed

lemma unscheduled_block:
  assumes "chain_ok c" "doProcessBlock e b c = (Inr (), c')" "length (ch_memoryQueue c) < length (ch_memoryQueue c')"
    and "block_number b mod SCHEDULE_PERIOD \<noteq> 0"
  shows "setting c' = setting c \<and> ch_producerRecord c' = om_put (block_producer b) (block_timestamp b) (ch_producerRecord c)"
proof -
  let ?V = "chain_views c" and ?n = "length (ch_memoryQueue c)" and ?l = "(ch_latestBlockNumber c, ch_latestBlock c)"
  have sv: "shows_views ?V ?n ?l c" using assms(1) by (simp add: shows_views_def)
  obtain r1 c1 where before: "beforeItem e b c = (r1, c1)" by (cases "beforeItem e b c")
  have c1: "shows_views ?V ?n ?l c1" by (rule preservesD [OF shows_beforeItem sv before])
  then have "length (ch_memoryQueue c1) = ?n" by (simp add: shows_views_def)
  then obtain u where r1: "r1 = Inr u" using assms(2,3) before by (cases r1) (auto simp: doProcessBlock_def split: if_splits)
  obtain d d' where d: "checkNotInRepo b c = (Inr (), d)" "updateActiveProducers e b d = (Inr (), d')"
    "c1 = d'\<lparr>ch_producerRecord := om_put (block_producer b) (block_timestamp b) (ch_producerRecord d')\<rparr>"
    using before unfolding beforeItem_def r1 by (auto elim!: thenX_InrE simp: recordProducer_def)
  have "setting d' = setting d \<and> ch_producerRecord d' = ch_producerRecord d"
    using d(2) by (auto simp: updateActiveProducers_def Let_def bindX_run thenX_run attempt_def setting_def split: sum.splits)
  then have s1: "setting c1 = setting c" "ch_producerRecord c1 = om_put (block_producer b) (block_timestamp b) (ch_producerRecord c)"
    using checkNotInRepo_frame [OF d(1)] by (simp_all add: d(3) setting_def)
  let ?c2 = "snd (addMemoryItem b c1)"
  have i: "item_over ?V ?n ?l ?c2" by (rule item_over_add [OF c1])
  have run: "try_catch (executeItem e b) is_GSException cancelMemoryItem ?c2 = (Inr (), c')"
    using assms(2) before r1 by (simp add: doProcessBlock_def thenX_run addMemoryItem_def)
  obtain x c3 where e: "executeItem e b ?c2 = (x, c3)" by (cases "executeItem e b ?c2")
  have "executeItem e b ?c2 = (Inr (), c')"
  proof (cases x)
    case (Inl y)
    then have "item_over ?V ?n ?l c3" using item_fails [OF i] e by blast
    then have "length (ch_memoryQueue (snd (cancelMemoryItem c3))) = ?n" using shows_cancel by (auto simp: shows_views_def)
    then show ?thesis using run e Inl assms(3) by (auto simp: try_catch_def cancelMemoryItem_def split: if_splits)
  qed (use run e in \<open>simp add: try_catch_def\<close>)
  then show ?thesis using executeItem_setting [OF i _ assms(4)] s1 by (auto simp: setting_def addMemoryItem_def)
qed

lemma sample_check:
  "checkProducer (block_at n 1 GENESIS_TIMESTAMP) sample_chain"
  by (simp add: checkProducer_def getExpectedProducer_def schedule_getAddress_def producerPosition_def sample_chain_def
      blockSlice_def constant_defs new_producer_def Let_def)

lemma sample_second:
  assumes "doProcessBlock sample_env (block_at 6 1 GENESIS_TIMESTAMP) sample_chain = (Inr (), c1)"
    and acc: "accepted (block_at 6 1 GENESIS_TIMESTAMP) sample_chain c1"
  shows "checkProducer (block_at 100 1 (GENESIS_TIMESTAMP + 14000)) c1"
    and "block_fits sample_env (block_at 100 1 (GENESIS_TIMESTAMP + 14000)) c1"
proof -
  have nr: "(6 :: u64) mod SCHEDULE_PERIOD \<noteq> 0" "(100 :: u64) mod SCHEDULE_PERIOD \<noteq> 0"
    by (simp_all add: SCHEDULE_PERIOD_def NUM_DELEGATED_BLOCKS_def SCHEDULE_UPDATE_ROUNDS_def)
  have "length (ch_memoryQueue sample_chain) < length (ch_memoryQueue c1)" using acc by (simp add: accepted_def)
  from unscheduled_block [OF sample_chain_ok assms(1) this] nr
  have f: "ch_db c1 = empty_db" "ch_schedule c1 = ch_schedule sample_chain" "ch_scheduleUpdate c1 = 0"
    "ch_producerRecord c1 = [(1, GENESIS_TIMESTAMP)]" by (simp_all add: setting_def sample_chain_def)
  show "checkProducer (block_at 100 1 (GENESIS_TIMESTAMP + 14000)) c1"
    by (simp add: checkProducer_def getExpectedProducer_def schedule_getAddress_def f)
      (simp add: producerPosition_def blockSlice_def constant_defs new_producer_def sample_chain_def om_find_def)
  have "ledger_of (chain_views c1) GENESIS_TIMESTAMP =
      snd (ledger_bonus 1 512000000 (ledger_of (chain_views sample_chain) GENESIS_TIMESTAMP))"
    using acc by (simp add: accepted_def ledger_block_def thenX_run bonus_of_def bonusFactor_def constant_defs)
  then have "lg_account (ledger_of (chain_views c1) GENESIS_TIMESTAMP) 1 =
      lg_account (snd (ledger_bonus 1 512000000 (ledger_of (chain_views sample_chain) GENESIS_TIMESTAMP))) 1" by simp
  also have "\<dots> = Inr (account_setBalance 3512000000 (new_account 1 3000000000 5))"
    by (simp add: ledger_bonus_def ledger_getAccount_def ledger_putAccount_def bindX_run sample_views sample_accounts
        account_setBalance_def new_account_def isEmptyAccount_def account_eq_def EmptyAccount_def)
  finally have "fst (chain_views c1) 1 = Inr (account_setBalance 3512000000 (new_account 1 3000000000 5))"
    by (simp add: ledger_of_def)
  moreover have "\<not> isEmptyAccount (account_setBalance 3512000000 (new_account 1 3000000000 5))"
    by (simp add: isEmptyAccount_def account_eq_def account_setBalance_def new_account_def EmptyAccount_def)
  ultimately have "fst (ledger_block (block_at 100 1 (GENESIS_TIMESTAMP + 14000)) (ledger_of (chain_views c1) (GENESIS_TIMESTAMP + 14000))) = Inr ()"
    by (simp add: ledger_block_def thenX_run ledger_bonus_def ledger_getAccount_def ledger_putAccount_def bindX_run ledger_of_def)
  moreover have "getBlockByNumber sample_env 99 c1 = Inr EmptyBlock"
    using acc by (simp add: getBlockByNumber_def accepted_def)
  ultimately show "block_fits sample_env (block_at 100 1 (GENESIS_TIMESTAMP + 14000)) c1"
    using nr by (simp add: block_fits_def f)
      (simp add: db_getProducer_def empty_db_def producerPosition_def bonusFactor_def constant_defs)
qed

theorem one_block_per_slot_witness:
  "\<exists>c. block_run sample_env sample_chain [(block_at 6 1 GENESIS_TIMESTAMP, True), (block_at 100 1 (GENESIS_TIMESTAMP + 14000), True)] c \<and>
     slot (block_timestamp (block_at 6 1 GENESIS_TIMESTAMP)) < slot (block_timestamp (block_at 100 1 (GENESIS_TIMESTAMP + 14000)))"
proof -
  let ?b = "block_at 6 1 GENESIS_TIMESTAMP" and ?b' = "block_at 100 1 (GENESIS_TIMESTAMP + 14000)"
  have ready: "tx_ready ?b" "tx_ready ?b'" by (simp_all add: tx_ready_def)
  obtain c1 where c1: "doProcessBlock sample_env ?b sample_chain = (Inr (), c1)"
    "length (ch_memoryQueue sample_chain) < length (ch_memoryQueue c1)"
    using doProcessBlock_succeeds [OF sample_chain_ok ready(1) sample_fits] by auto
  then have "chain_ok c1" "accepted ?b sample_chain c1"
    using doProcessBlock_cases [OF sample_chain_ok ready(1) c1(1)] by (auto simp: rejected_def)
  note second = sample_second [OF c1(1) this(2)]
  obtain c2 where c2: "doProcessBlock sample_env ?b' c1 = (Inr (), c2)" "length (ch_memoryQueue c1) < length (ch_memoryQueue c2)"
    using doProcessBlock_succeeds [OF \<open>chain_ok c1\<close> ready(2) second(2)] by auto
  have "block_run sample_env sample_chain ([] @ [(?b, True)] @ [(?b', True)]) c2"
    using block_run.step [OF block_run.step [OF block_run.start sample_check ready(1) c1(1)] second(1) ready(2) c2(1)] c1(2) c2(2) by simp
  then have run: "block_run sample_env sample_chain [(?b, True), (?b', True)] c2" by simp
  have "in_order [(?b, True), (?b', True)]" by (simp add: in_order_def)
  from one_block_per_slot [OF run sample_chain_ok this, of 0 1] run show ?thesis by (intro exI [of _ c2]) simp
qed

end
