(* ===== verification/Finality.thy ===== *)
theory Finality
  imports ChainSafety
begin

text \<open>
  Writing final blocks to the database: \<open>onSolidifiable\<close> takes items from the front of the queue and commits them. What is
  seen through the rest of the queue stays the same, but for the code of accounts, which the codec does not read
  back as it was written.
\<close>

section \<open>One item\<close>

definition same_but_code :: "views \<Rightarrow> views \<Rightarrow> bool" where
  "same_but_code V W \<longleftrightarrow>
     (\<forall>k. map_sum id (\<lambda>a. a\<lparr>a_code := []\<rparr>) (fst V k) = map_sum id (\<lambda>a. a\<lparr>a_code := []\<rparr>) (fst W k)) \<and> snd V = snd W"

lemma same_but_code_refl [simp]: "same_but_code V V"
  by (simp add: same_but_code_def)

lemma same_but_code_trans: "same_but_code U V \<Longrightarrow> same_but_code V W \<Longrightarrow> same_but_code U W"
  by (simp add: same_but_code_def)

lemma lookup_layers_append:
  "lookup_layers f (xs @ ys) = (case lookup_layers f xs of Some v \<Rightarrow> Some v | None \<Rightarrow> lookup_layers f ys)"
  by (induction xs) (auto split: option.splits)

lemma view_append:
  "ac.view g (xs @ ys) k = (case lookup_layers (\<lambda>l. om_find (l_accounts l) k) xs of Some v \<Rightarrow> Inr v | None \<Rightarrow> ac.view g ys k)"
  "pc.view g' (xs @ ys) k = (case lookup_layers (\<lambda>l. om_find (l_producers l) k) xs of Some v \<Rightarrow> Inr v | None \<Rightarrow> pc.view g' ys k)"
  "tc.view g'' (xs @ ys) h = (case lookup_layers (\<lambda>l. om_find (l_transactions l) h) xs of Some v \<Rightarrow> Inr v | None \<Rightarrow> tc.view g'' ys h)"
  by (simp_all add: ac.view_def pc.view_def tc.view_def lookup_layers_append split: option.splits)

text \<open>The objects of a layer, seen in the layer and in the database it was committed to.\<close>

lemma commit_views:
  assumes l: "layer_inv l" "transactions_inv l" "storable l"
  shows "same_but_code (views_of (snd (commit_db l db)) ls) (views_of db (ls @ [l]))"
proof -
  let ?db = "snd (commit_db l db)"
  note look = commit_db_lookup [OF l refl]
  have a: "map_sum id (\<lambda>a. a\<lparr>a_code := []\<rparr>) (ac.view (\<lambda>k. db_getAccount k ?db) [] k) =
      map_sum id (\<lambda>a. a\<lparr>a_code := []\<rparr>) (ac.view (\<lambda>k. db_getAccount k db) [l] k)" for k
  proof (cases "om_find (l_accounts l) k")
    case (Some a)
    then have "account_good (account_stored a)" using cached_values(1) [OF l(1)] stored_good by blast
    then have "account_assign EmptyAccount (account_stored a) = account_stored a" "\<not> isEmptyAccount (account_stored a)"
      using ac.copy_good account_good_not_empty by auto
    then show ?thesis using Some by (simp add: ac.view_def ac.db_value_def look(2) account_stored_def)
  qed (simp add: ac.view_def look(2))
  have p: "pc.view (\<lambda>k. db_getProducer k ?db) [] k = pc.view (\<lambda>k. db_getProducer k db) [l] k" for k
    using cached_values(2) [OF l(1), of k] by (simp add: pc.view_def pc.db_value_def look(3) split: option.splits)
  have t: "tc.view (\<lambda>h. db_getTransaction h ?db) [] h = tc.view (\<lambda>h. db_getTransaction h db) [l] h" for h
    using tc.cached_good [OF l(2), of h] by (simp add: tc.view_def tc.db_value_def look(4) split: option.splits)
  have "ls = ls @ []" by simp
  then show ?thesis
    unfolding same_but_code_def views_of_def using a p t
    by (auto simp: fun_eq_iff view_append [of _ ls "[l]"] view_append [of _ ls "[]", simplified] split: option.splits)
qed

lemma commit_db_ok:
  assumes l: "layer_inv l" "transactions_inv l" "storable l" and db: "db_ok db"
  shows "db_ok (snd (commit_db l db))"
proof -
  have "tc.db_good (\<lambda>h. db_getTransaction h (snd (commit_db l db)))"
    using db tc.cached_good [OF l(2)] commit_db_lookup(4) [OF l refl]
    unfolding tc.db_good_def db_ok_def by (auto split: option.splits)
  then show ?thesis using commit_db_inv [OF l] db by (simp add: db_ok_def)
qed

text \<open>The globals are not touched by a commit.\<close>

definition globals :: "database \<Rightarrow> attribute_state \<times> attribute_state \<times> attribute_state \<times> attribute_state" where
  "globals db = (g_currentHeight db, g_prevProducers db, g_currentProducers db, g_solidifyProducers db)"

lemma globals_commit: "globals (snd (commit_db l db)) = globals db"
proof -
  have "preserves (\<lambda>d. globals d = globals db) (commit_db l)"
    unfolding commit_db_def
    by (intro preserves_intros preservesI)
      (simp_all add: db_putAccount_def db_putProducer_def db_putTransaction_def db_putBlock_def store_put_def thenX_run globals_def
        split: sum.splits)
  then show ?thesis by (simp add: preserves_def)
qed

lemma on_chain_db_run: "fst (m (ch_db c)) = Inr x \<Longrightarrow> on_chain_db m c = (Inr x, c\<lparr>ch_db := snd (m (ch_db c))\<rparr>)"
  by (cases "m (ch_db c)") (simp add: on_chain_db_def)

lemma globals_putAttribute: "globals (snd (db_putAttribute a db)) = globals db"
  by (simp add: db_putAttribute_def store_put_def globals_def split: sum.splits)

lemma setDirty_run:
  assumes "as_type (ch_dirty c) = Uint64Type"
  shows "\<exists>db. setDirty v c = (Inr (), c\<lparr>ch_dirty := (ch_dirty c)\<lparr>as_value := v\<rparr>, ch_db := db\<rparr>) \<and> same_objects db (ch_db c) \<and> globals db = globals (ch_db c)"
proof -
  let ?a = "(ch_dirty c)\<lparr>as_value := v\<rparr>"
  have "attribute_ok ?a" using assms by (simp add: attribute_words_ok)
  then have "fst (db_putAttribute ?a (ch_db c)) = Inr ()" by (rule attribute_store.put_ok)
  then show ?thesis
    using on_chain_db_run [of "db_putAttribute ?a" "c\<lparr>ch_dirty := ?a\<rparr>"] same_objects_putAttribute globals_putAttribute
    by (auto simp: setDirty_def thenX_run)
qed

lemma put_height_run:
  assumes "as_type (g_currentHeight (ch_db c)) = Uint64Type"
  shows "\<exists>db. on_chain_db (put_height v) c = (Inr (), c\<lparr>ch_db := db\<rparr>) \<and> same_objects db (ch_db c) \<and>
    globals db = ((g_currentHeight (ch_db c))\<lparr>as_value := v\<rparr>, snd (globals (ch_db c)))"
proof -
  have "attribute_ok ((g_currentHeight (ch_db c))\<lparr>as_value := v\<rparr>)" using assms by (simp add: attribute_words_ok)
  then have "fst (put_height v (ch_db c)) = Inr ()" by (simp add: put_height_def Let_def attribute_store.put_ok)
  moreover have "globals (snd (put_height v (ch_db c))) = ((g_currentHeight (ch_db c))\<lparr>as_value := v\<rparr>, snd (globals (ch_db c)))"
    by (simp add: put_height_def Let_def globals_putAttribute) (simp add: globals_def)
  ultimately show ?thesis using on_chain_db_run [of "put_height v" c] same_objects_globals(3) by (intro exI [of _ "snd (put_height v (ch_db c))"]) simp
qed

lemma put_solidifyProducers_run:
  assumes "as_type (g_solidifyProducers (ch_db c)) = BytesType" "snapshot_ok ps" "length (snapshot_rlp ps) < 2 ^ 50"
  shows "\<exists>db. on_chain_db (put_solidifyProducers (snapshot_getRLPData ps)) c = (Inr (), c\<lparr>ch_db := db\<rparr>) \<and> same_objects db (ch_db c) \<and>
    g_currentHeight db = g_currentHeight (ch_db c) \<and> as_type (g_solidifyProducers db) = BytesType"
proof -
  let ?a = "(g_solidifyProducers (ch_db c))\<lparr>as_data := snapshot_rlp ps\<rparr>"
  let ?m = "put_solidifyProducers (snapshot_getRLPData ps)"
  have "attribute_ok ?a" by (rule snapshot_attribute_ok [of _ ps]) (use assms in simp_all)
  then have "fst (?m (ch_db c)) = Inr ()"
    by (simp add: put_solidifyProducers_def snapshot_getRLPData_ok [OF assms(2)] Let_def attribute_store.put_ok)
  moreover have "globals (snd (?m (ch_db c))) = (g_currentHeight (ch_db c), g_prevProducers (ch_db c), g_currentProducers (ch_db c), ?a)"
    by (simp add: put_solidifyProducers_def snapshot_getRLPData_ok [OF assms(2)] Let_def globals_putAttribute) (simp add: globals_def)
  ultimately show ?thesis
    using on_chain_db_run [of ?m c] same_objects_globals(4) assms(1)
    by (intro exI [of _ "snd (?m (ch_db c))"]) (simp add: globals_def)
qed

lemma putBlockState_run:
  assumes "blockState_ok bs"
  shows "\<exists>db. on_chain_db (db_putBlockState bs) c = (Inr (), c\<lparr>ch_db := db\<rparr>) \<and> same_objects db (ch_db c) \<and> globals db = globals (ch_db c)"
  by (intro exI [of _ "snd (db_putBlockState bs (ch_db c))"])
    (simp add: on_chain_db_def db_putBlockState_def thenX_run store_put_Inr blockState_getRLPData_ok [OF assms] same_objects_def globals_def)

lemma commitItem_run:
  assumes "ch_parents c = []" "layer_inv (mi_layer i)" "transactions_inv (mi_layer i)" "storable (mi_layer i)"
  shows "commitItem i c = (Inr (), c\<lparr>ch_parents := [mi_layer i], ch_db := snd (commit_db (mi_layer i) (ch_db c))\<rparr>)"
  using commit_db_lookup(1) [OF assms(2-4) refl, of "ch_db c"] assms(1)
  by (cases "commit_db (mi_layer i) (ch_db c)") (simp add: commitItem_def commit_def on_db_def)

text \<open>What has to hold for the objects written.\<close>

definition attributes_typed :: "chain \<Rightarrow> bool" where
  "attributes_typed c \<longleftrightarrow> as_type (ch_dirty c) = Uint64Type \<and> as_type (g_currentHeight (ch_db c)) = Uint64Type \<and>
     as_type (g_solidifyProducers (ch_db c)) = BytesType"

definition state_storable :: "block_state \<Rightarrow> bool" where
  "state_storable bs \<longleftrightarrow> blockState_ok bs \<and> length (snapshot_rlp (bs_activeProducers bs)) < 2 ^ 50"

lemma same_objects_trans: "same_objects a b \<Longrightarrow> same_objects b c \<Longrightarrow> same_objects a c"
  by (simp add: same_objects_def)

text \<open>An item whose block state is known is committed, and the rest of the queue shows what was seen before.\<close>

lemma solidifyItem_run:
  assumes ok: "chain_ok c" and q: "ch_memoryQueue c = i # q" "q \<noteq> []" "ch_parents c = []" and st: "storable (mi_layer i)"
    and bs: "rs_getBlockByNumber (mi_blockNumber i) (ch_rollbackState c) = Some bs" "state_storable bs"
    and idx: "parents_first (rs_index (ch_rollbackState c))" and ty: "attributes_typed c"
  shows "\<exists>c'. solidifyItem i c = (Inr (), c') \<and> ch_memoryQueue c' = q \<and> ch_parents c' = [] \<and> chain_ok c' \<and>
    same_but_code (chain_views c') (chain_views c) \<and> attributes_typed c' \<and> ch_status c' = ch_status c \<and>
    rs_index (ch_rollbackState c') = filter (\<lambda>b. \<not> lineage (rs_index (ch_rollbackState c)) (bs_blockID bs) (bs_blockID b)) (rs_index (ch_rollbackState c)) \<and>
    getSolidifyHeight c' = mi_blockNumber i \<and> as_value (ch_dirty c') = 0 \<and>
    (ch_latestBlockNumber c', ch_latestBlock c') = (ch_latestBlockNumber c, ch_latestBlock c)"
proof -
  let ?l = "mi_layer i" and ?rs = "ch_rollbackState c" and ?n = "bs_blockNumber bs"
  have n: "?n = mi_blockNumber i" using bs(1) by (auto simp: rs_getBlockByNumber_def find_Some_iff)
  have bl: "back_layers c = rev (map mi_layer q) @ [?l]" by (simp add: back_layers_def q)
  have l: "layer_inv ?l" "transactions_inv ?l" using ok by (auto simp: chain_ok_def layers_ok_def bl)
  have sb: "blockState_ok bs" "snapshot_ok (bs_activeProducers bs)" "length (snapshot_rlp (bs_activeProducers bs)) < 2 ^ 50"
    using bs(2) by (simp_all add: state_storable_def blockState_ok_def)
  obtain db1 where d1: "setDirty 1 c = (Inr (), c\<lparr>ch_dirty := (ch_dirty c)\<lparr>as_value := 1\<rparr>, ch_db := db1\<rparr>)"
    "same_objects db1 (ch_db c)" "globals db1 = globals (ch_db c)"
    using setDirty_run [of c 1] ty by (auto simp: attributes_typed_def)
  let ?c1 = "c\<lparr>ch_dirty := (ch_dirty c)\<lparr>as_value := 1\<rparr>, ch_db := db1, ch_memoryQueue := q\<rparr>"
  let ?db2 = "snd (commit_db ?l db1)"
  let ?c2 = "?c1\<lparr>ch_parents := [?l], ch_db := ?db2\<rparr>"
  have d2: "commitItem i ?c1 = (Inr (), ?c2)" using commitItem_run [OF _ l st, of ?c1] q(3) by simp
  have g2: "globals ?db2 = globals (ch_db c)" using globals_commit d1(3) by simp
  obtain db3 where d3: "on_chain_db (put_height ?n) ?c2 = (Inr (), ?c2\<lparr>ch_db := db3\<rparr>)" "same_objects db3 ?db2"
    "globals db3 = ((g_currentHeight ?db2)\<lparr>as_value := ?n\<rparr>, snd (globals ?db2))"
    using put_height_run [of ?c2 ?n] ty g2 by (auto simp: attributes_typed_def globals_def)
  let ?c3 = "?c2\<lparr>ch_db := db3\<rparr>"
  obtain db4 where d4: "on_chain_db (put_solidifyProducers (snapshot_getRLPData (bs_activeProducers bs))) ?c3 = (Inr (), ?c3\<lparr>ch_db := db4\<rparr>)"
    "same_objects db4 db3" "g_currentHeight db4 = g_currentHeight db3" "as_type (g_solidifyProducers db4) = BytesType"
    using put_solidifyProducers_run [of ?c3, OF _ sb(2,3)] ty g2 d3(3) by (auto simp: attributes_typed_def globals_def)
  let ?c4 = "?c3\<lparr>ch_db := db4\<rparr>"
  obtain db5 where d5: "on_chain_db (db_putBlockState bs) ?c4 = (Inr (), ?c4\<lparr>ch_db := db5\<rparr>)" "same_objects db5 db4" "globals db5 = globals db4"
    using putBlockState_run [OF sb(1), of ?c4] by auto
  let ?c5 = "?c4\<lparr>ch_db := db5\<rparr>"
  obtain db6 where d6: "setDirty 0 ?c5 = (Inr (), ?c5\<lparr>ch_dirty := (ch_dirty c)\<lparr>as_value := 0\<rparr>, ch_db := db6\<rparr>)"
    "same_objects db6 db5" "globals db6 = globals db5"
    using setDirty_run [of ?c5 0] ty by (auto simp: attributes_typed_def)
  let ?c6 = "?c5\<lparr>ch_dirty := (ch_dirty c)\<lparr>as_value := 0\<rparr>, ch_db := db6\<rparr>"
  let ?idx = "filter (\<lambda>b. \<not> lineage (rs_index ?rs) (bs_blockID bs) (bs_blockID b)) (rs_index ?rs)"
  have d7: "rs_remove (bs_blockID bs) ?rs = Some (?rs\<lparr>rs_index := ?idx\<rparr>)"
    using remove_loop_lineage [OF idx] by (simp add: rs_remove_def)
  let ?c' = "?c6\<lparr>ch_rollbackState := setSolidifyNumber (mi_blockNumber i) (?rs\<lparr>rs_index := ?idx\<rparr>), ch_parents := []\<rparr>"
  obtain c' where c': "c' = ?c'" by simp
  have run: "solidifyItem i c = (Inr (), c')"
    unfolding solidifyItem_def c' using d1(1) d2 d3(1) d4(1) d5(1) d6(1) d7 q bs(1)
    by (simp add: thenX_run bindX_run attempt_def on_rollback_loop_def queue_pop_front_def)
  have so: "same_objects db6 ?db2" using d3(2) d4(2) d5(2) d6(2) by (blast intro: same_objects_trans)
  have f: "back_layers c' = rev (map mi_layer q)" "ch_db c' = db6" by (simp_all add: c' back_layers_def q)
  have db: "db_ok db1" using ok same_objects_views(2) [OF d1(2)] by (simp add: chain_ok_def)
  have "chain_ok c'"
    using ok same_objects_views(2) [OF so] commit_db_ok [OF l st db] by (simp add: chain_ok_def f bl layers_ok_def)
  moreover have "same_but_code (chain_views c') (chain_views c)"
    using commit_views [OF l st, of db1 "rev (map mi_layer q)"] same_objects_views(1) [OF so] same_objects_views(1) [OF d1(2)]
    by (simp add: chain_views_def f bl)
  moreover have "attributes_typed c'" "getSolidifyHeight c' = mi_blockNumber i"
    using ty d3(3) d4(3,4) d5(3) d6(3) g2 n by (auto simp: attributes_typed_def globals_def getSolidifyHeight_def c')
  ultimately show ?thesis using run by (intro exI [of _ c']) (simp add: setSolidifyNumber_def c')
qed

section \<open>All items up to a block\<close>

definition numbers_grow :: "block_state list \<Rightarrow> bool" where
  "numbers_grow idx \<longleftrightarrow> (\<forall>b \<in> set idx. \<forall>p \<in> set idx. bs_getPrev b = bs_blockID p \<longrightarrow> bs_blockNumber p < bs_blockNumber b)"

lemma lineage_number:
  assumes "lineage idx x y" "numbers_grow idx" "distinct (map bs_blockID idx)"
  shows "\<forall>b \<in> set idx. \<forall>d \<in> set idx. bs_blockID b = x \<longrightarrow> bs_blockID d = y \<longrightarrow> bs_blockNumber d \<le> bs_blockNumber b"
  using assms(1)
proof (induction rule: lineage.induct)
  case (self b)
  then show ?case using assms(3) by (auto simp: distinct_map inj_on_def)
next
  case (parent b y)
  obtain p where p: "p \<in> set idx" "bs_blockID p = bs_getPrev b" using lineage_in [OF parent(2)] by auto
  show ?case
  proof (intro ballI impI)
    fix b' d assume b': "b' \<in> set idx" "d \<in> set idx" "bs_blockID b' = bs_blockID b" "bs_blockID d = y"
    then have "b' = b" using parent(1) assms(3) by (auto simp: distinct_map inj_on_def)
    moreover have "bs_blockNumber d \<le> bs_blockNumber p" using parent.IH p b' by auto
    moreover have "bs_blockNumber p < bs_blockNumber b" using assms(2) p parent(1) by (auto simp: numbers_grow_def)
    ultimately show "bs_blockNumber d \<le> bs_blockNumber b'" by simp
  qed
qed

text \<open>The state of the rollback container that finalising needs.\<close>

definition index_ready :: "block_state list \<Rightarrow> bool" where
  "index_ready idx \<longleftrightarrow> parents_first idx \<and> numbers_grow idx \<and> (\<forall>bs \<in> set idx. state_storable bs)"

lemma index_ready_filter: "index_ready idx \<Longrightarrow> index_ready (filter P idx)"
  using parents_first_filter by (auto simp: index_ready_def numbers_grow_def)

lemma found_number:
  assumes "\<exists>bs \<in> set (rs_index rs). bs_blockNumber bs = n"
  obtains bs where "rs_getBlockByNumber n rs = Some bs" "bs \<in> set (rs_index rs)" "bs_blockNumber bs = n"
  using assms unfolding rs_getBlockByNumber_def
  by (cases "List.find (\<lambda>b. bs_blockNumber b = n) (rs_index rs)") (auto simp: find_None_iff find_Some_iff)

definition item_ready :: "block_state \<Rightarrow> chain \<Rightarrow> memory_item \<Rightarrow> bool" where
  "item_ready bsp c i \<longleftrightarrow> mi_blockNumber i \<le> bs_blockNumber bsp \<and> storable (mi_layer i) \<and>
     (\<exists>bs \<in> set (rs_index (ch_rollbackState c)). bs_blockNumber bs = mi_blockNumber i)"

definition queue_ready :: "chain \<Rightarrow> bool" where
  "queue_ready c \<longleftrightarrow> chain_ok c \<and> ch_parents c = [] \<and> ch_status c \<noteq> Killed \<and> attributes_typed c \<and>
     index_ready (rs_index (ch_rollbackState c))"

lemma solidify_loop_run:
  assumes "queue_ready c" "ch_memoryQueue c = final @ rest" "rest \<noteq> []" "bs_blockNumber bsp < mi_blockNumber (hd rest)"
    and "\<forall>i \<in> set final. item_ready bsp c i" "sorted_wrt (<) (map mi_blockNumber final)"
  shows "\<exists>c'. solidify_loop bsp (final @ rest) c = (Inr (), c') \<and> ch_memoryQueue c' = rest \<and> queue_ready c' \<and>
    same_but_code (chain_views c') (chain_views c) \<and>
    (final \<noteq> [] \<longrightarrow> getSolidifyHeight c' = mi_blockNumber (last final) \<and> as_value (ch_dirty c') = 0) \<and>
    (ch_latestBlockNumber c', ch_latestBlock c') = (ch_latestBlockNumber c, ch_latestBlock c)"
  using assms
proof (induction final arbitrary: c)
  case Nil
  then obtain r rs where r: "rest = r # rs" by (cases rest) auto
  then have "\<not> mi_blockNumber r \<le> bs_blockNumber bsp" using Nil by (simp add: linorder_not_le)
  then show ?case using Nil r by simp
next
  case (Cons i final)
  let ?idx = "rs_index (ch_rollbackState c)"
  have rdy: "item_ready bsp c i" using Cons.prems(5) by simp
  then have "\<exists>bs \<in> set ?idx. bs_blockNumber bs = mi_blockNumber i" by (simp add: item_ready_def)
  then obtain bs where bs: "rs_getBlockByNumber (mi_blockNumber i) (ch_rollbackState c) = Some bs" "bs \<in> set ?idx"
    "bs_blockNumber bs = mi_blockNumber i"
    by (rule found_number)
  have c: "chain_ok c" "ch_parents c = []" "ch_status c \<noteq> Killed" "attributes_typed c" "index_ready ?idx"
    using Cons.prems(1) by (simp_all add: queue_ready_def)
  have pf: "parents_first ?idx" "numbers_grow ?idx" "state_storable bs" "distinct (map bs_blockID ?idx)"
    using c(5) bs(2) by (auto simp: index_ready_def parents_first_def)
  obtain c1 where c1: "solidifyItem i c = (Inr (), c1)" "ch_memoryQueue c1 = final @ rest" "ch_parents c1 = []" "chain_ok c1"
    "same_but_code (chain_views c1) (chain_views c)" "attributes_typed c1" "ch_status c1 = ch_status c"
    "rs_index (ch_rollbackState c1) = filter (\<lambda>b. \<not> lineage ?idx (bs_blockID bs) (bs_blockID b)) ?idx"
    "getSolidifyHeight c1 = mi_blockNumber i" "as_value (ch_dirty c1) = 0"
    "(ch_latestBlockNumber c1, ch_latestBlock c1) = (ch_latestBlockNumber c, ch_latestBlock c)"
    using solidifyItem_run [OF c(1) _ _ c(2) _ bs(1) pf(3) pf(1) c(4)] Cons.prems(2,3) rdy by (auto simp: item_ready_def)
  have "item_ready bsp c1 j" if j: "j \<in> set final" for j
  proof -
    obtain d where d: "d \<in> set ?idx" "bs_blockNumber d = mi_blockNumber j" using Cons.prems(5) j by (auto simp: item_ready_def)
    have "mi_blockNumber i < mi_blockNumber j" using Cons.prems(6) j by simp
    then have "\<not> lineage ?idx (bs_blockID bs) (bs_blockID d)"
      using lineage_number [OF _ pf(2,4)] bs(2,3) d by (metis linorder_not_less)
    then have "d \<in> set (rs_index (ch_rollbackState c1))" using d(1) c1(8) by simp
    then show ?thesis using Cons.prems(5) j d(2) by (auto simp: item_ready_def)
  qed
  moreover have "queue_ready c1" using c c1 index_ready_filter by (simp add: queue_ready_def)
  ultimately obtain c' where c': "solidify_loop bsp (final @ rest) c1 = (Inr (), c')" "ch_memoryQueue c' = rest" "queue_ready c'"
    "same_but_code (chain_views c') (chain_views c1)"
    "final \<noteq> [] \<longrightarrow> getSolidifyHeight c' = mi_blockNumber (last final) \<and> as_value (ch_dirty c') = 0"
    "(ch_latestBlockNumber c', ch_latestBlock c') = (ch_latestBlockNumber c1, ch_latestBlock c1)"
    using Cons.IH [OF _ c1(2) Cons.prems(3,4)] Cons.prems(6) by auto
  have nonempty: "final = [] \<Longrightarrow> c' = c1" using c'(1) Cons.prems(3,4) by (cases rest) (auto simp: linorder_not_less [symmetric])
  have run: "solidify_loop bsp ((i # final) @ rest) c = (Inr (), c')"
    using c1(1) c'(1) c(3) rdy by (simp add: item_ready_def)
  show ?case
    using run c'(2-6) c1(5,9-11) nonempty by (intro exI [of _ c']) (auto intro: same_but_code_trans)
qed


definition two_items :: chain where
  "two_items = sample_chain\<lparr>ch_memoryQueue := [\<lparr>mi_isDone = True, mi_blockNumber = 5, mi_layer = hd (r_layers sample_repo)\<rparr>,
       \<lparr>mi_isDone = True, mi_blockNumber = 6, mi_layer = new_layer EmptyBlock\<rparr>],
     ch_rollbackState := \<lparr>rs_head = Some (state_at 5 8 7), rs_index = [state_at 5 8 7], rs_solidifyNumber = 4\<rparr>\<rparr>"

lemma state_at_storable: "state_storable (state_at n x p)"
proof -
  let ?b = "state_at n x p"
  have f: "bs_activeProducers ?b = \<lparr>ps_timestamp = 0, ps_producers = []\<rparr>" "bs_confirmations ?b = []" "bs_confirmCount ?b = 0"
    by (simp_all add: state_at_def EmptyBlockState_def)
  have snap: "snapshot_ok \<lparr>ps_timestamp = 0, ps_producers = []\<rparr>" "length (snapshot_rlp \<lparr>ps_timestamp = 0, ps_producers = []\<rparr>) < 100"
    by (simp_all add: snapshot_ok_def timestamp_ok_def snapshot_rlp_def snapshot_items_def rlp_list_def rlp_int_def rlp_str_def
        rlp_header_def rlp_max_def)
  have "length (concat (blockState_items ?b)) < 1000"
    using word_sizes(2) [of n] word_sizes(4) [of 32 x] word_sizes(1) [of "0 :: u32"] snap(2)
    by (simp add: blockState_items_def f)
  then have "blockState_ok ?b"
    using snap(1) list_size [of "concat (blockState_items ?b)"]
    by (simp add: blockState_ok_def f blockState_rlp_def rlp_max_def)
  then show ?thesis using snap(2) by (simp add: state_storable_def f)
qed


end
