(* ===== verification/NodeInvariant.thy ===== *)
theory NodeInvariant
  imports ChainMessages ChainSafety
begin

text \<open>
  The shape of the state of a node: every map of the database and of the repositories has sorted, unique keys, the
  caches of blocks and transactions are sorted by number and time stamp without repetitions, the histories
  are bounded and the blocks of the rollback state have different identifiers. Every entry point of the
  node keeps this shape, whether it returns or raises an exception.
\<close>

section \<open>Repositories and databases\<close>

definition wf_layer :: "layer \<Rightarrow> bool" where
  "wf_layer l \<longleftrightarrow> om_inv (l_accounts l) \<and> om_inv (l_producers l) \<and> om_inv (l_transactions l)"

definition wf_db :: "database \<Rightarrow> bool" where
  "wf_db db \<longleftrightarrow> om_inv (d_attributes db) \<and> om_inv (d_accounts db) \<and> om_inv (d_transactions db) \<and> om_inv (d_blocks db) \<and>
     om_inv (d_blockIndex db) \<and> om_inv (d_blockStates db) \<and> om_inv (d_blockStateIndex db) \<and> om_inv (d_producers db)"

definition wf_repo :: "repo \<Rightarrow> bool" where
  "wf_repo r \<longleftrightarrow> list_all wf_layer (r_layers r) \<and> wf_db (r_db r)"

named_theorems keeps_wf \<open>operations that keep the shape of their state\<close>

lemma om_inv_emplace [simp]: "om_inv m \<Longrightarrow> om_inv (om_emplace k v m)"
  by (simp add: om_emplace_def split: option.splits)

lemma wf_layer_puts:
  "wf_layer l \<Longrightarrow> wf_layer (layer_putAccount a l)" "wf_layer l \<Longrightarrow> wf_layer (layer_putProducer p l)"
  "wf_layer l \<Longrightarrow> wf_layer (layer_putTransaction t l)"
  by (simp_all add: wf_layer_def layer_putAccount_def layer_putProducer_def layer_putTransaction_def Let_def split: option.splits)

lemma wf_new_layer [simp]: "wf_layer (new_layer b)"
  by (simp add: wf_layer_def new_layer_def)

lemma read_through_wf:
  assumes "\<And>v l. wf_layer l \<Longrightarrow> wf_layer (store v l)" "list_all wf_layer ls"
  shows "list_all wf_layer (snd (read_through cached store vacant copy missing dbv ls))"
  using assms(2)
  by (induction ls) (auto simp: assms(1) Let_def split: option.splits if_splits sum.splits prod.splits)

lemma wf_gets [keeps_wf]:
  "preserves wf_repo (getAccount a)" "preserves wf_repo (getProducer a)" "preserves wf_repo (getTransaction h)"
  by (auto intro!: preservesI read_through_wf wf_layer_puts
      simp: wf_repo_def getAccount_def getProducer_def getTransaction_def Let_def split_beta)

lemma wf_on_head: "(\<And>l. wf_layer l \<Longrightarrow> wf_layer (f l)) \<Longrightarrow> preserves wf_repo (on_head f)"
  by (auto simp: preserves_def on_head_def wf_repo_def split: list.splits)

lemma wf_puts [keeps_wf]:
  "preserves wf_repo (putAccount a)" "preserves wf_repo (putProducer p)" "preserves wf_repo (putTransaction t)"
  by (simp_all add: putAccount_def putProducer_def putTransaction_def wf_on_head wf_layer_puts)

lemma wf_readers [keeps_wf]:
  "preserves wf_repo blockTimestamp" "preserves wf_repo getProducerList" "preserves wf_repo (getBlock h0 h)"
  by (simp_all add: preserves_def blockTimestamp_def getProducerList_def getBlock_def)

lemma wf_or_new [keeps_wf]: "preserves wf_repo (or_new_account addr a)"
  unfolding or_new_account_def by (intro preserves_intros keeps_wf)

lemma wf_balances [keeps_wf]:
  "preserves wf_repo (transfer from to value)" "preserves wf_repo (burn target value)" "preserves wf_repo (bonus target value)"
  unfolding transfer_def burn_def bonus_def by (intro preserves_intros keeps_wf)+

lemma wf_votes [keeps_wf]: "preserves wf_repo (clearVote addr)" "preserves wf_repo (voteIncrease voter cand n)"
  unfolding clearVote_def voteIncrease_def by (intro preserves_intros keeps_wf)+

lemma wf_vote [keeps_wf]: "preserves wf_repo (vote_execute t)"
  unfolding vote_execute_def by (cases "ballot_decode (t_data t)") (auto intro!: preserves_intros keeps_wf)

lemma wf_actions [keeps_wf]: "preserves wf_repo (transfer_execute t)" "preserves wf_repo (beenProducer_execute t b)"
  unfolding transfer_execute_def beenProducer_execute_def by (intro preserves_intros keeps_wf)+

lemma wf_factory [keeps_wf]: "preserves wf_repo (factory_execute t b)"
  unfolding factory_execute_def handler_execute_def
  by (auto intro!: preserves_intros keeps_wf split: option.splits action_handler.splits)

lemma wf_excute [keeps_wf]: "preserves wf_repo (runtime_excute b t)"
  unfolding runtime_excute_def by (intro preserves_intros keeps_wf)

lemma wf_run [keeps_wf]: "preserves wf_repo (correlator_run b)"
  unfolding correlator_run_def by (intro preserves_intros keeps_wf)

lemma wf_db_puts [keeps_wf]:
  "preserves wf_db (db_putAccount a)" "preserves wf_db (db_putProducer p)" "preserves wf_db (db_putTransaction t)"
  "preserves wf_db (db_putBlock b)" "preserves wf_db (db_putAttribute s)" "preserves wf_db (db_putBlockState bs)"
  by (auto simp: preserves_def wf_db_def db_putAccount_def db_putProducer_def db_putTransaction_def db_putBlock_def
      db_putAttribute_def db_putBlockState_def store_put_def thenX_run split: sum.splits)

lemma wf_commit_db: "preserves wf_db (commit_db l)"
  unfolding commit_db_def by (intro preserves_intros keeps_wf)

lemma wf_fold: "(\<And>x l. wf_layer l \<Longrightarrow> wf_layer (f x l)) \<Longrightarrow> wf_layer l \<Longrightarrow> wf_layer (fold f xs l)"
  by (induction xs arbitrary: l) auto

lemma wf_commit [keeps_wf]: "preserves wf_repo commit"
proof (rule preservesI)
  fix r assume r: "wf_repo r"
  show "wf_repo (snd (commit r))"
  proof (cases "r_layers r")
    case (Cons l ps)
    show ?thesis
    proof (cases ps)
      case Nil
      then show ?thesis using r Cons wf_commit_db [of l]
        by (auto simp: commit_def on_db_def wf_repo_def preserves_def split: prod.splits dest!: spec [of _ "r_db r"])
    next
      case (Cons p qs)
      then show ?thesis using r \<open>r_layers r = l # ps\<close>
        by (auto simp: commit_def wf_repo_def commit_layer_def intro!: wf_fold wf_layer_puts)
    qed
  qed (use r in \<open>simp add: commit_def\<close>)
qed

section \<open>The rollback state\<close>

definition wf_rollback :: "rollback \<Rightarrow> bool" where
  "wf_rollback rs \<longleftrightarrow> distinct (map bs_blockID (rs_index rs))"

lemma distinct_filter_ids: "distinct (map f xs) \<Longrightarrow> distinct (map f (filter P xs))"
  by (induction xs) auto

lemma remove_loop_distinct:
  assumes "remove_loop x idx = Some idx'"
  shows "distinct (map bs_blockID idx) \<longrightarrow> distinct (map bs_blockID idx')"
proof (rule remove_loop.raw_induct [OF _ assms])
  fix loop x idx idx'
  assume IH: "\<And>x idx idx'. loop x idx = Some idx' \<Longrightarrow> distinct (map bs_blockID idx) \<longrightarrow> distinct (map bs_blockID idx')"
    and run: "(case by_id x idx of None \<Rightarrow> Some idx
      | Some b \<Rightarrow> case by_id (bs_getPrev b) idx of None \<Rightarrow> Some (erase_id x idx)
        | Some p \<Rightarrow> Option.bind (loop (bs_getPrev b) idx) (\<lambda>idx'. Some (erase_id x idx'))) = Some idx'"
  show "distinct (map bs_blockID idx) \<longrightarrow> distinct (map bs_blockID idx')"
    using run IH by (auto simp: erase_id_def bind_eq_Some_conv split: option.splits intro!: distinct_filter_ids)
qed

lemma wf_remove: "rs_remove x rs = Some rs' \<Longrightarrow> wf_rollback rs \<Longrightarrow> wf_rollback rs'"
  using remove_loop_distinct by (auto simp: rs_remove_def wf_rollback_def)

lemma wf_removeNumber: "rs_removeNumber n rs = Some rs' \<Longrightarrow> wf_rollback rs \<Longrightarrow> wf_rollback rs'"
  using wf_remove by (auto simp: rs_removeNumber_def split: option.splits)

lemma wf_on_block: "(\<And>b. bs_blockID (f b) = bs_blockID b) \<Longrightarrow> wf_rollback rs \<Longrightarrow> wf_rollback (on_block x f rs)"
  by (simp add: wf_rollback_def on_block_def comp_def if_distrib cong: if_cong)

lemma wf_confirm: "wf_rollback rs \<Longrightarrow> wf_rollback (rs_confirm hc rs)"
  by (auto simp: rs_confirm_def setBFTSolidify_def Let_def addConfirmation_def intro!: wf_on_block split: option.splits)

lemma wf_addSync: "wf_rollback rs \<Longrightarrow> wf_rollback (addSyncBlockState bs rs)"
proof -
  have "wf_rollback rs \<Longrightarrow> wf_rollback (fold rs_confirm hcs rs)" for hcs
    by (induction hcs arbitrary: rs) (auto intro: wf_confirm)
  then show "wf_rollback rs \<Longrightarrow> wf_rollback (addSyncBlockState bs rs)" by (simp add: addSyncBlockState_def)
qed

lemma wf_rollback_adds [keeps_wf]:
  "preserves wf_rollback (rs_set bsp)" "preserves wf_rollback (rs_add_block c0 t0 b ps)"
  by (auto simp: preserves_def wf_rollback_def rs_set_def rs_add_block_def rs_add_state_def Let_def by_id_None
      split: option.splits)

section \<open>The node\<close>

lemma insert_unique_set: "set (insert_unique key x xs) \<subseteq> insert x (set xs)"
  by (induction xs) auto

lemma insert_unique_sorted:
  "sorted_wrt (<) (map key xs) \<Longrightarrow> sorted_wrt (<) (map key (insert_unique key x xs))"
proof (induction xs)
  case (Cons y ys)
  have "\<forall>z \<in> set (insert_unique key x ys). key y < key z" if "key y < key x"
    using that Cons.prems insert_unique_set [of key x ys] by auto
  then show ?case using Cons by auto
qed simp

lemma erase_first_subseq: "set (erase_first P xs) \<subseteq> set xs"
  by (induction xs) auto

lemma erase_first_sorted: "sorted_wrt (<) (map key xs) \<Longrightarrow> sorted_wrt (<) (map key (erase_first P xs))"
proof (induction xs)
  case (Cons y ys)
  then show ?case using erase_first_subseq [of P ys] by auto
qed simp

definition wf_chain :: "chain \<Rightarrow> bool" where
  "wf_chain c \<longleftrightarrow> wf_db (ch_db c) \<and> (\<forall>i \<in> set (ch_memoryQueue c). wf_layer (mi_layer i)) \<and> list_all wf_layer (ch_parents c) \<and>
     om_inv (ch_producerRecord c) \<and> pred_option (\<lambda>sy. om_inv (sy_heights sy)) (ch_sync c) \<and>
     sorted_wrt (<) (map t_timestamp (ch_txCache c)) \<and> sorted_wrt (<) (map block_number (ch_blockCache c)) \<and>
     length (ch_historyTxCache c) \<le> HISTORY_TX \<and> length (ch_historyBlockCache c) \<le> HISTORY_BLOCKS \<and>
     wf_rollback (ch_rollbackState c)"

text \<open>The ways an operation of the node is built from the others.\<close>

lemma wf_modify: "(\<And>c. wf_chain c \<Longrightarrow> wf_chain (f c)) \<Longrightarrow> preserves wf_chain (modifyX f)"
  by (rule preserves_modifyX)

lemma wf_attempt [keeps_wf]: "preserves wf_chain (attempt f)"
  by (simp add: preserves_def attempt_def)

lemma wf_set_layers:
  "\<forall>i \<in> set is. wf_layer (mi_layer i) \<Longrightarrow> list_all wf_layer ls \<Longrightarrow> \<forall>i \<in> set (set_layers is ls). wf_layer (mi_layer i)"
  by (induction "is" ls rule: set_layers.induct) auto

lemma wf_set_back: "wf_chain c \<Longrightarrow> list_all wf_layer ls \<Longrightarrow> wf_chain (set_back_layers ls c)"
  using wf_set_layers [of "ch_memoryQueue c" "rev (take (length (ch_memoryQueue c)) ls)"]
  by (auto simp: set_back_layers_def Let_def wf_chain_def list_all_iff dest: in_set_takeD in_set_dropD)

lemma wf_back: "wf_chain c \<Longrightarrow> list_all wf_layer (back_layers c)"
  by (auto simp: back_layers_def wf_chain_def list_all_iff)

lemma wf_with_db: "wf_chain c \<Longrightarrow> wf_db db \<Longrightarrow> wf_chain (c\<lparr>ch_db := db\<rparr>)"
  by (simp add: wf_chain_def)

lemma wf_on_back:
  assumes "preserves wf_repo m"
  shows "preserves wf_chain (on_back m)"
proof (rule preservesI)
  fix c assume c: "wf_chain c"
  then have "wf_repo (back_repo c)" using wf_back by (simp add: wf_repo_def back_repo_def wf_chain_def)
  then have "wf_repo (snd (m (back_repo c)))" using assms by (simp add: preserves_def)
  then show "wf_chain (snd (on_back m c))"
    using c by (auto simp: on_back_def wf_repo_def split: prod.splits intro!: wf_set_back wf_with_db)
qed

lemma list_all_tl: "list_all P xs \<Longrightarrow> list_all P (tl xs)"
  by (cases xs) simp_all

lemma wf_on_temporary:
  assumes "preserves wf_repo m"
  shows "preserves wf_chain (on_temporary m)"
proof (rule preservesI)
  fix c assume c: "wf_chain c"
  let ?r = "\<lparr>r_layers = new_layer EmptyBlock # back_layers c, r_db = ch_db c\<rparr>"
  have "wf_repo ?r" using c wf_back by (simp add: wf_repo_def wf_chain_def)
  then have "wf_repo (snd (m ?r))" using assms by (simp add: preserves_def)
  then show "wf_chain (snd (on_temporary m c))"
    using c by (auto simp: on_temporary_def wf_repo_def split: prod.splits intro!: wf_set_back wf_with_db list_all_tl)
qed

lemma wf_on_chain_db: "preserves wf_db m \<Longrightarrow> preserves wf_chain (on_chain_db m)"
  by (auto simp: preserves_def on_chain_db_def wf_chain_def split: prod.splits)

lemma wf_on_rollback: "preserves wf_rollback m \<Longrightarrow> preserves wf_chain (on_rollback m)"
  by (auto simp: preserves_def on_rollback_def wf_chain_def split: prod.splits)

lemma wf_on_rollback_loop:
  "(\<And>rs rs'. f rs = Some rs' \<Longrightarrow> wf_rollback rs \<Longrightarrow> wf_rollback rs') \<Longrightarrow> preserves wf_chain (on_rollback_loop f)"
  by (auto simp: preserves_def on_rollback_loop_def wf_chain_def split: option.splits)

lemma wf_try: "preserves P m \<Longrightarrow> preserves P h \<Longrightarrow> preserves P (try_catch m f h)"
  by (auto simp: preserves_def try_catch_def split: prod.splits sum.splits)

section \<open>Executing and finalising blocks\<close>

lemma wf_isExistInRepo [keeps_wf]: "preserves wf_chain (isExistInRepo t)"
  using wf_on_back [OF wf_gets(3), of "transaction_getHash t"]
  unfolding isExistInRepo_def by (intro preserves_intros) (simp add: preserves_def)

lemma wf_producerList [keeps_wf]: "preserves wf_chain getProducerListFromRepo"
  using wf_on_back [OF wf_readers(2)] unfolding getProducerListFromRepo_def by (intro preserves_intros) (simp add: preserves_def)

lemma wf_global_puts:
  "preserves wf_db (put_prevProducers d)" "preserves wf_db (put_currentProducers d)" "preserves wf_db (put_height v)"
  "preserves wf_db (put_solidifyProducers d)"
  by (auto simp: preserves_def wf_db_def put_prevProducers_def put_currentProducers_def put_height_def put_solidifyProducers_def
      db_putAttribute_def store_put_def Let_def split: sum.splits)

lemma wf_db_state:
  assumes "\<And>c. preserves wf_db (m c)"
  shows "preserves wf_chain (\<lambda>c. on_chain_db (m c) c)"
  using wf_on_chain_db [OF assms] by (simp add: preserves_def)

lemma wf_chain_schedule [keeps_wf]: "preserves wf_chain (chain_schedule ts)"
  unfolding chain_schedule_def
  by (intro preserves_intros keeps_wf wf_modify wf_db_state wf_global_puts) (simp_all add: wf_chain_def)

lemma wf_updateActive [keeps_wf]: "preserves wf_chain (updateActiveProducers e b)"
  unfolding updateActiveProducers_def Let_def by (intro preserves_intros keeps_wf wf_modify) (simp_all add: wf_chain_def)

lemma wf_fold_put: "om_inv r \<Longrightarrow> om_inv (fold (\<lambda>p r. om_put (f p) (g p) r) ps r)"
  by (induction ps arbitrary: r) auto

lemma wf_updateSchedule [keeps_wf]: "preserves wf_chain (updateSchedule b)"
  unfolding updateSchedule_def
  by (intro preserves_intros keeps_wf wf_modify) (simp add: wf_chain_def updateProducerRecord_def wf_fold_put)

lemma wf_beforeItem [keeps_wf]: "preserves wf_chain (beforeItem e b)"
  unfolding beforeItem_def checkNotInRepo_def recordProducer_def
  by (intro preserves_intros keeps_wf wf_modify) (simp add: wf_chain_def)

lemma wf_send [keeps_wf]: "preserves wf_chain (send msg)"
  unfolding send_def by (rule wf_modify) (simp add: wf_chain_def)

lemma wf_confirmBlock [keeps_wf]: "preserves wf_chain (confirmBlock e b)"
  by (auto simp: preserves_def confirmBlock_def send_def Let_def wf_chain_def intro!: wf_confirm)

lemma wf_erase_txs:
  "sorted_wrt (<) (map t_timestamp ts) \<Longrightarrow> sorted_wrt (<) (map t_timestamp (fold (\<lambda>i. erase_first (P i)) xs ts))"
  by (induction xs arbitrary: ts) (auto intro: erase_first_sorted)

lemma wf_executeItem [keeps_wf]: "preserves wf_chain (executeItem e b)"
proof -
  have p: "preserves wf_chain (payBonus b)"
    unfolding payBonus_def Let_def by (intro preserves_intros wf_on_back keeps_wf)
  have d: "preserves wf_chain setDone"
    unfolding setDone_def by (rule wf_modify) (auto simp: wf_chain_def dest: in_set_butlastD in_set_dropD)
  have l: "preserves wf_chain (modifyX (\<lambda>c. setLatest b (eraseSolicitedTx b c)))"
    by (rule wf_modify) (simp add: wf_chain_def setLatest_def eraseSolicitedTx_def wf_erase_txs)
  show ?thesis unfolding executeItem_def by (intro preserves_thenX p d l keeps_wf wf_on_back)
qed

lemma wf_items [keeps_wf]: "preserves wf_chain (addMemoryItem b)" "preserves wf_chain cancelMemoryItem"
  unfolding addMemoryItem_def cancelMemoryItem_def
  by (rule wf_modify; auto simp: wf_chain_def queue_push_def queue_pop_back_def dest: in_set_butlastD)+

lemma wf_doProcessBlock [keeps_wf]: "preserves wf_chain (doProcessBlock e b)"
proof -
  have "preserves wf_chain (thenX (addMemoryItem b) (try_catch (executeItem e b) is_GSException cancelMemoryItem))"
    by (intro preserves_thenX wf_try keeps_wf)
  then show ?thesis using wf_beforeItem [of e b] unfolding doProcessBlock_def
    by (auto simp: preserves_def split: prod.splits sum.splits)
qed

lemma wf_popBlockState [keeps_wf]: "preserves wf_chain popBlockState"
  using wf_items(2) by (auto simp: preserves_def popBlockState_def wf_chain_def cancelMemoryItem_def queue_pop_back_def
      split: option.splits dest: in_set_butlastD)

lemma wf_rollback_branch [keeps_wf]: "preserves wf_chain (rollback_branch bs)"
proof (induction bs)
  case (Cons x bs)
  have "preserves wf_chain (modifyX (\<lambda>c. c\<lparr>ch_latestBlockNumber := n\<rparr>))" for n
    by (rule wf_modify) (simp add: wf_chain_def)
  then show ?case unfolding rollback_branch.simps
    by (intro preserves_thenX Cons.IH wf_popBlockState wf_on_rollback_loop [OF wf_removeNumber]) simp_all
qed (simp add: preserves_def)

lemma wf_switchBranch [keeps_wf]: "preserves wf_chain (switchBranch newItem h)"
proof -
  have "preserves wf_chain (thenX (rollback_branch branch) (\<lambda>c.
      if branch \<noteq> [] \<and> map_option bs_blockID (ch_head c) \<noteq> Some (bs_getPrev (last branch))
      then (Inl BlockChainException, c) else (Inr (), c)))" for branch
    by (intro preserves_thenX keeps_wf) (simp add: preserves_def)
  moreover have "wf_chain (c\<lparr>ch_status := st\<rparr>) = wf_chain c" for c st by (simp add: wf_chain_def)
  ultimately show ?thesis unfolding switchBranch_def by (simp add: preserves_def split: option.splits)
qed

lemma wf_checkBifurcation [keeps_wf]: "preserves wf_chain (checkBifurcation e b)"
  using wf_doProcessBlock [of e b] wf_switchBranch unfolding checkBifurcation_def preserves_def
  by (auto split: option.splits prod.splits sum.splits) (metis snd_conv)+

lemma wf_setDirty [keeps_wf]: "preserves wf_chain (setDirty v)"
  unfolding setDirty_def by (intro preserves_intros wf_modify wf_db_state keeps_wf) (simp add: wf_chain_def)

lemma set_tl: "x \<in> set (tl xs) \<Longrightarrow> x \<in> set xs"
  by (cases xs) simp_all

lemma wf_solidifyItem:
  assumes "wf_layer (mi_layer i)"
  shows "preserves wf_chain (solidifyItem i)"
proof -
  have c: "preserves wf_chain (commitItem i)"
  proof (rule preservesI)
    fix c assume c: "wf_chain c"
    let ?r = "\<lparr>r_layers = mi_layer i # ch_parents c, r_db = ch_db c\<rparr>"
    have "wf_repo (snd (commit ?r))" using wf_commit assms c by (simp add: preserves_def wf_repo_def wf_chain_def)
    then show "wf_chain (snd (commitItem i c))"
      using c by (auto simp: commitItem_def wf_repo_def wf_chain_def split: prod.splits)
  qed
  have q: "preserves wf_chain (modifyX (\<lambda>c. c\<lparr>ch_memoryQueue := queue_pop_front (ch_memoryQueue c)\<rparr>))"
    by (rule wf_modify) (auto simp: wf_chain_def queue_pop_front_def dest: set_tl)
  have s: "preserves wf_chain (modifyX (\<lambda>c. c\<lparr>ch_rollbackState := setSolidifyNumber (mi_blockNumber i) (ch_rollbackState c)\<rparr>))"
    by (rule wf_modify) (simp add: wf_chain_def wf_rollback_def setSolidifyNumber_def)
  have p: "preserves wf_chain (modifyX (\<lambda>c. if ch_memoryQueue c \<noteq> [] then c\<lparr>ch_parents := []\<rparr> else c))"
    by (rule wf_modify) (simp add: wf_chain_def)
  show ?thesis unfolding solidifyItem_def
    by (intro preserves_thenX preserves_bindX keeps_wf c q s p wf_on_chain_db wf_global_puts wf_on_rollback_loop [OF wf_remove]) simp_all
qed

lemma wf_solidify_loop:
  "\<forall>i \<in> set is. wf_layer (mi_layer i) \<Longrightarrow> preserves wf_chain (solidify_loop bsp is)"
proof (induction "is")
  case (Cons i "is")
  then have "preserves wf_chain (thenX (solidifyItem i) (solidify_loop bsp is))" by (intro preserves_thenX wf_solidifyItem) auto
  then show ?case by (simp add: preserves_def)
qed (simp add: preserves_def)

lemma wf_onSolidifiable [keeps_wf]: "preserves wf_chain (onSolidifiable bsp)"
proof (rule preservesI)
  fix c assume c: "wf_chain c"
  then have "preserves wf_chain (solidify_loop bsp (ch_memoryQueue c))" by (intro wf_solidify_loop) (simp add: wf_chain_def)
  then show "wf_chain (snd (onSolidifiable bsp c))" using c by (simp add: onSolidifiable_def preserves_def)
qed

lemma wf_rollback_add [keeps_wf]: "preserves wf_chain (rollback_add e b)"
proof -
  have "preserves wf_chain (bindX (on_rollback (rs_add_block (e_c0 e) (e_t0 e) b ps))
      (\<lambda>signal. case signal of None \<Rightarrow> returnX () | Some bsp \<Rightarrow> onSolidifiable bsp))" for ps
    by (intro preserves_bindX wf_on_rollback keeps_wf) (auto split: option.splits intro: preserves_intros keeps_wf)
  then show ?thesis unfolding rollback_add_def preserves_def by simp
qed

lemma wf_processBlock [keeps_wf]: "preserves wf_chain (processBlock e b)"
proof -
  have "preserves wf_chain (thenX (rollback_add e b) (thenX (checkBifurcation e b)
      (thenX (modifyX (\<lambda>c. c\<lparr>ch_head := rs_head (ch_rollbackState c)\<rparr>)) (returnX True))))"
    by (intro preserves_thenX preserves_returnX keeps_wf wf_modify) (simp add: wf_chain_def)
  then have "preserves wf_chain (\<lambda>c. if \<not> checkProducer b c then (Inl InvalidProducerException, c)
      else thenX (rollback_add e b) (thenX (checkBifurcation e b)
        (thenX (modifyX (\<lambda>c. c\<lparr>ch_head := rs_head (ch_rollbackState c)\<rparr>)) (returnX True))) c)"
    by (simp add: preserves_def)
  then show ?thesis unfolding processBlock_def by (rule wf_try) (rule preserves_returnX)
qed

lemma wf_nextBlock: "wf_chain c \<Longrightarrow> wf_chain (c\<lparr>ch_blockCache := snd (nextBlock c)\<rparr>)"
  by (auto simp: nextBlock_def wf_chain_def split: list.splits if_splits)

lemma wf_doWork [keeps_wf]: "preserves wf_chain (chain_doWork e)"
proof (rule preservesI)
  fix c assume "wf_chain c"
  then have c: "wf_chain (c\<lparr>ch_blockCache := snd (nextBlock c)\<rparr>)" by (rule wf_nextBlock)
  have "preserves wf_chain (thenX (processBlock e b) (returnX ()))" for b by (intro preserves_intros keeps_wf)
  then show "wf_chain (snd (chain_doWork e c))"
    using c by (auto simp: chain_doWork_def Let_def preserves_def split: prod.splits option.splits)
qed

section \<open>The entry points\<close>

lemma wf_caches [keeps_wf]: "preserves wf_chain (cacheTx tx)" "preserves wf_chain (cacheBlock b)"
  unfolding cacheTx_def cacheBlock_def by (rule wf_modify; simp add: wf_chain_def insert_unique_sorted)+

lemma wf_temporary_reads [keeps_wf]:
  "preserves wf_chain (on_temporary (getTransaction h))" "preserves wf_chain (on_temporary (getBlock h0 h))"
  "preserves wf_chain (on_temporary (runtime_excute b tx))" "preserves wf_chain (on_temporary (forX txs (runtime_excute b)))"
  by (intro wf_on_temporary preserves_forX keeps_wf)+

lemma wf_isExist [keeps_wf]: "preserves wf_chain (isExist_tx tx)" "preserves wf_chain (isExist_block e b)"
proof -
  have "preserves wf_chain (bindX (on_temporary (getTransaction (transaction_getHash tx))) (\<lambda>t. returnX (\<not> isEmptyTransaction t)))"
    "preserves wf_chain (bindX (on_temporary (getBlock (e_h0 e) (block_getHash b)))
       (\<lambda>x. returnX (block_getHash x \<noteq> block_getHash EmptyBlock)))"
    by (intro preserves_intros keeps_wf)+
  then show "preserves wf_chain (isExist_tx tx)" "preserves wf_chain (isExist_block e b)"
    by (simp_all add: isExist_tx_def isExist_block_def preserves_def)
qed

lemma wf_guards:
  "preserves wf_chain m \<Longrightarrow> preserves wf_chain (\<lambda>c. if G c then (r c, c) else if H c then (r' c, c) else m c)"
  by (simp add: preserves_def)

lemma wf_preProcess [keeps_wf]: "preserves wf_chain (preProcessTx e tx)" "preserves wf_chain (preProcessBlock e b)"
  unfolding preProcessTx_def preProcessBlock_def
  by (rule wf_guards, intro preserves_intros keeps_wf)+

lemma wf_history:
  "wf_chain c \<Longrightarrow> wf_chain (c\<lparr>ch_historyTxCache := fixed_push HISTORY_TX h (ch_historyTxCache c)\<rparr>)"
  "wf_chain c \<Longrightarrow> wf_chain (c\<lparr>ch_historyBlockCache := fixed_push HISTORY_BLOCKS h (ch_historyBlockCache c)\<rparr>)"
  by (simp_all add: wf_chain_def fixed_push_bound HISTORY_TX_def HISTORY_BLOCKS_def)

text \<open>A handler that skips what it has seen and otherwise records it and goes on.\<close>

lemma wf_first_time:
  assumes "preserves wf_chain m" "\<And>c. wf_chain c \<Longrightarrow> wf_chain (f c)"
  shows "preserves wf_chain (\<lambda>c. if P c then (r c, c) else m (f c))"
    "preserves wf_chain (\<lambda>c. if Q c then (r c, c) else if P c then (r' c, c) else m (f c))"
  using assms by (auto simp: preserves_def)

lemma wf_addRPCTx [keeps_wf]: "preserves wf_chain (addRPCTx e tx)"
  unfolding addRPCTx_def
  by (intro wf_try preserves_returnX wf_first_time preserves_thenX keeps_wf wf_history)

lemma wf_processTx [keeps_wf]: "preserves wf_chain (processTxMessage e from tx)"
  unfolding processTxMessage_def
  by (intro wf_try preserves_returnX wf_first_time preserves_thenX keeps_wf wf_history)

lemma wf_processBlockMessage [keeps_wf]: "preserves wf_chain (processBlockMessage e from b)"
  unfolding processBlockMessage_def
  by (intro wf_try preserves_returnX wf_first_time preserves_thenX keeps_wf wf_history)

lemma wf_processSyncBlock [keeps_wf]: "preserves wf_chain (processSyncBlockMessage e b)"
  unfolding processSyncBlockMessage_def by (intro wf_try preserves_returnX preserves_thenX keeps_wf)

lemma wf_rollback_messages [keeps_wf]:
  "preserves wf_chain (processConfirmationMessage hc)" "preserves wf_chain (processBlockStateMessage bs)"
  unfolding processConfirmationMessage_def processBlockStateMessage_def
  by (rule wf_modify; simp add: wf_chain_def wf_confirm wf_addSync)+

lemma wf_replyBlocks: "preserves wf_chain (replyBlocks e from first stop)"
  unfolding replyBlocks_def by (auto intro!: preserves_intros keeps_wf split: prod.splits)

lemma wf_processStatus [keeps_wf]: "preserves wf_chain (processStatusMessage e from st)"
proof -
  have "preserves wf_chain (\<lambda>c. send (f c) c)" for f using wf_send by (simp add: preserves_def)
  moreover have "preserves wf_chain (\<lambda>c. if st_height st > getLastBlockNumber c
      then (case ch_sync c of None \<Rightarrow> (Inl UndefinedBehaviour, c)
            | Some sy \<Rightarrow> (Inr (), c\<lparr>ch_sync := Some (sync_update from (st_height st) sy)\<rparr>))
      else (Inr (), c))"
    by (auto simp: preserves_def wf_chain_def sync_update_def split: option.splits)
  moreover have "preserves wf_chain (\<lambda>c. if st_start st < st_end st \<and> st_end st \<le> getLastBlockNumber c
      then replyBlocks e from (st_start st) (st_end st) c else (Inr (), c))"
    using wf_replyBlocks by (simp add: preserves_def)
  ultimately show ?thesis unfolding processStatusMessage_def by (intro preserves_if preserves_forX preserves_returnX keeps_wf)
qed

lemma wf_dispatch [keeps_wf]: "preserves wf_chain (dispatchPacket e from ty data)"
  unfolding dispatchPacket_def by (intro preserves_intros keeps_wf)

lemma wf_processMsg [keeps_wf]: "preserves wf_chain (processMsg e from ty r)"
  unfolding processMsg_def by (intro preserves_intros wf_try keeps_wf)

lemma wf_sync: "wf_chain c \<Longrightarrow> wf_chain (sync_doWork e now c)"
  by (auto simp: sync_doWork_def wf_chain_def Let_def split: option.splits)

lemma wf_fromCache [keeps_wf]: "preserves wf_chain getTransactionFromCache"
  by (auto simp: preserves_def getTransactionFromCache_def wf_chain_def split: list.splits)

lemma wf_chain_reads [keeps_wf]: "preserves wf_chain (getTx h)" "preserves wf_chain (chain_getAccount a)"
  using wf_on_back [OF wf_gets(3), of h] wf_on_back [OF wf_gets(1), of a]
  by (simp_all add: preserves_def getTx_def chain_getAccount_def)

lemma wf_fillBlock [keeps_wf]: "preserves wf_chain (fillBlock n b)"
  by (induction n arbitrary: b) (auto intro!: preserves_intros keeps_wf split: option.splits)

lemma wf_producerBlock [keeps_wf]: "preserves wf_chain (processProducerBlock b)"
  using preserves_thenX [OF wf_caches(2) preserves_returnX, of b True] by (simp add: processProducerBlock_def preserves_def)

lemma wf_broadcast [keeps_wf]: "preserves wf_chain (controller_broadcast b)" "preserves wf_chain (controller_broadcastTx e tx)"
  unfolding controller_broadcast_def controller_broadcastTx_def
  by (intro preserves_intros keeps_wf)+

lemma wf_produced:
  "preserves wf_chain (bindX (fillBlock n b) (\<lambda>filled. bindX (attempt (\<lambda>_. block_setRoots filled)) (\<lambda>rooted.
     thenX (if P then controller_broadcast (f rooted) else returnX ()) (returnX pr))))"
  by (intro preserves_intros keeps_wf)

lemma wf_server [keeps_wf]: "preserves wf_chain (server_doWork e ts te pr)"
  unfolding server_doWork_def Let_def preserves_def
  by (simp add: wf_produced [unfolded preserves_def, rule_format])

lemma wf_chain_init [keeps_wf]: "preserves wf_chain (chain_init e flag)"
proof -
  have i: "preserves wf_chain (\<lambda>c. if ch_head c = None then initializeRollbackState e c else (Inr (), c))"
  proof -
    have "preserves wf_chain (initializeRollbackState e)"
      unfolding initializeRollbackState_def Let_def
      by (intro preserves_intros keeps_wf wf_modify wf_on_rollback) (simp add: wf_chain_def)
    then show ?thesis by (simp add: preserves_def)
  qed
  have l: "preserves wf_chain loadDirty"
    unfolding loadDirty_def by (intro preserves_intros keeps_wf wf_modify) (simp add: wf_chain_def)
  have r: "preserves wf_chain (thenX (modifyX (\<lambda>c. c\<lparr>ch_activeProducers := f c\<rparr>))
      (bindX (attempt g) (\<lambda>b. modifyX (\<lambda>c. (setLatest b (loadProducers b c))
         \<lparr>ch_status := st, ch_sync := (if flag then Some \<lparr>sy_state = SyncRunning, sy_prevTimestamp = 0, sy_heights = []\<rparr> else ch_sync c)\<rparr>))))"
    for f g st
    by (intro preserves_intros keeps_wf wf_modify) (simp_all add: wf_chain_def setLatest_def loadProducers_def Let_def)
  then have "preserves wf_chain (\<lambda>c. if as_value (ch_dirty c) = 1 then (Inl BlockChainException, c)
      else thenX (modifyX (\<lambda>c. c\<lparr>ch_activeProducers := f c\<rparr>))
      (bindX (attempt g) (\<lambda>b. modifyX (\<lambda>c. (setLatest b (loadProducers b c))
         \<lparr>ch_status := st, ch_sync := (if flag then Some \<lparr>sy_state = SyncRunning, sy_prevTimestamp = 0, sy_heights = []\<rparr> else ch_sync c)\<rparr>))) c)"
    for f g st by (simp add: preserves_def)
  then show ?thesis unfolding chain_init_def by (intro preserves_thenX i l)
qed

text \<open>The steps of a node: starting, a message from a peer, a transaction from a client, the thread of the chain, the thread
  of the synchronisation and the thread of the producer, in any order and with any arguments.\<close>

inductive node_step :: "env \<Rightarrow> chain \<Rightarrow> chain \<Rightarrow> bool" for e where
  starts: "node_step e c (snd (chain_init e flag c))"
| receives: "node_step e c (snd (processMsg e from ty data c))"
| accepts_tx: "node_step e c (snd (controller_broadcastTx e tx c))"
| works: "node_step e c (snd (chain_doWork e c))"
| synchronises: "node_step e c (sync_doWork e now c)"
| produces: "node_step e c (snd (server_doWork e ts te pr c))"
| looks_up: "node_step e c (snd (chain_getAccount a c))"

inductive node_reaches :: "env \<Rightarrow> chain \<Rightarrow> chain \<Rightarrow> bool" for e c0 where
  here: "node_reaches e c0 c0"
| further: "node_reaches e c0 c \<Longrightarrow> node_step e c c' \<Longrightarrow> node_reaches e c0 c'"

lemma wf_node_step: "node_step e c c' \<Longrightarrow> wf_chain c \<Longrightarrow> wf_chain c'"
  by (cases rule: node_step.cases) (use keeps_wf wf_sync in \<open>auto simp: preserves_def\<close>)


lemma sample_chain_wf: "wf_chain sample_chain"
proof -
  have "wf_layer (hd (r_layers sample_repo))" by (simp add: sample_repo_def wf_layer_def om_inv_def)
  moreover have "wf_db empty_db" by (simp add: wf_db_def empty_db_def)
  moreover have "wf_rollback empty_rollback" by (simp add: wf_rollback_def empty_rollback_def)
  ultimately show ?thesis by (simp add: sample_chain_def wf_chain_def)
qed


end
