(* ===== verification/Liveness.thy ===== *)
theory Liveness
  imports ChainSafety ChainMessages
begin

text \<open>
  The turns of the producers: a scheduled producer gets a slot in every round, in which its server offers to produce
  and every node of the same state takes its block.
\<close>

lemma next_turn:
  assumes "i < NUM_DELEGATED_BLOCKS"
  shows "\<exists>k. s < k \<and> k \<le> s + int NUM_DELEGATED_BLOCKS \<and> k mod int NUM_DELEGATED_BLOCKS = int i"
proof -
  let ?n = "int NUM_DELEGATED_BLOCKS" and ?k = "s + 1 + (int i - (s + 1)) mod int NUM_DELEGATED_BLOCKS"
  have n: "?n > 0" by (simp add: NUM_DELEGATED_BLOCKS_def)
  have "?k mod ?n = (s + 1 + (int i - (s + 1))) mod ?n" by (rule mod_add_right_eq)
  then have "?k mod ?n = int i" using assms by simp
  moreover have "s < ?k" "?k \<le> s + ?n" using pos_mod_sign [OF n, of "int i - (s + 1)"] pos_mod_bound [OF n, of "int i - (s + 1)"] by linarith+
  ultimately show ?thesis by blast
qed

lemma slot_of_turn:
  assumes "GENESIS_TIMESTAMP + PRODUCER_INTERVAL * k \<le> t" "t < GENESIS_TIMESTAMP + PRODUCER_INTERVAL * k + PRODUCER_INTERVAL"
  shows "slot t = k"
  unfolding slot_def using assms by (intro int_div_pos_eq [of _ _ _ "t - GENESIS_TIMESTAMP - PRODUCER_INTERVAL * k"]) simp_all

text \<open>The slot that follows \<open>t0\<close> for position \<open>i\<close>: it starts within a round, and in all of it the position is \<open>i\<close> and the
  slice lies after \<open>t0\<close>.\<close>

lemma next_slot:
  assumes i: "i < NUM_DELEGATED_BLOCKS" and t0: "GENESIS_TIMESTAMP \<le> t0"
  obtains t where "t0 < t" "t \<le> t0 + TIME_PER_ROUND"
    "\<And>u. t \<le> u \<Longrightarrow> u < t + PRODUCER_INTERVAL \<Longrightarrow> unat (producerPosition u) = i \<and> t0 - GENESIS_TIMESTAMP < blockSlice u"
proof -
  obtain k where k: "slot t0 < k" "k \<le> slot t0 + int NUM_DELEGATED_BLOCKS" "k mod int NUM_DELEGATED_BLOCKS = int i"
    using next_turn [OF i, of "slot t0"] by blast
  let ?t = "GENESIS_TIMESTAMP + PRODUCER_INTERVAL * k"
  have lo: "slot t0 * PRODUCER_INTERVAL \<le> t0 - GENESIS_TIMESTAMP"
    and hi: "t0 - GENESIS_TIMESTAMP < (slot t0 + 1) * PRODUCER_INTERVAL"
    unfolding slot_def PRODUCER_INTERVAL_def by simp_all
  have after: "t0 - GENESIS_TIMESTAMP < PRODUCER_INTERVAL * k"
    using hi k(1) by (simp add: PRODUCER_INTERVAL_def)
  have "?t \<le> t0 + TIME_PER_ROUND" using lo k(2) by (simp add: constant_defs)
  moreover have "unat (producerPosition u) = i \<and> t0 - GENESIS_TIMESTAMP < blockSlice u"
    if "?t \<le> u" "u < ?t + PRODUCER_INTERVAL" for u
  proof -
    have u: "GENESIS_TIMESTAMP \<le> u" using that(1) after t0 by simp
    show ?thesis
      using position_slot [OF u] blockSlice_slot [OF u] slot_of_turn [OF that] k(3) after by (simp add: mult.commute)
  qed
  ultimately show thesis using that [of ?t] after by auto
qed

abbreviation scheduled :: "chain \<Rightarrow> nat \<Rightarrow> address" where
  "scheduled c i \<equiv> p_address (sc_currentProducerList (ch_schedule c) ! i)"





end
