(* ===== verification/Coding.thy ===== *)
theory Coding
  imports Prelude
begin

unbundle bit_operations_syntax

text \<open>
  The number formats of LevelDB (\<open>database/leveldb/util/coding\<close>): fixed numbers of four and eight bytes, least significant
  byte first, numbers of variable length with seven bits per byte, and strings with their length in front. A pointer
  with a limit is the list of bytes between them; a null pointer is \<open>None\<close>. Every number and string is read back from what
  is written, wherever the reader stands in a longer string.
\<close>

section \<open>Fixed numbers\<close>

definition EncodeFixed32 :: "u32 \<Rightarrow> bytes" where
  "EncodeFixed32 v = [ucast (v AND 0xff), ucast (drop_bit 8 v AND 0xff), ucast (drop_bit 16 v AND 0xff),
     ucast (drop_bit 24 v AND 0xff)]"

definition EncodeFixed64 :: "u64 \<Rightarrow> bytes" where
  "EncodeFixed64 v = [ucast (v AND 0xff), ucast (drop_bit 8 v AND 0xff), ucast (drop_bit 16 v AND 0xff),
     ucast (drop_bit 24 v AND 0xff), ucast (drop_bit 32 v AND 0xff), ucast (drop_bit 40 v AND 0xff),
     ucast (drop_bit 48 v AND 0xff), ucast (drop_bit 56 v AND 0xff)]"

text \<open>The decoders read four and eight bytes without a check; the callers have them.\<close>

definition DecodeFixed32 :: "bytes \<Rightarrow> u32" where
  "DecodeFixed32 p = ucast (p ! 0) OR push_bit 8 (ucast (p ! 1)) OR push_bit 16 (ucast (p ! 2)) OR push_bit 24 (ucast (p ! 3))"

definition DecodeFixed64 :: "bytes \<Rightarrow> u64" where
  "DecodeFixed64 p = (let lo = ucast (DecodeFixed32 p); hi = ucast (DecodeFixed32 (drop 4 p)) in push_bit 32 hi OR lo)"

section \<open>Numbers of variable length\<close>

definition EncodeVarint32 :: "u32 \<Rightarrow> bytes" where
  "EncodeVarint32 v =
     (if v < 2 ^ 7 then [ucast v]
      else if v < 2 ^ 14 then [ucast (v OR 128), ucast (drop_bit 7 v)]
      else if v < 2 ^ 21 then [ucast (v OR 128), ucast (drop_bit 7 v OR 128), ucast (drop_bit 14 v)]
      else if v < 2 ^ 28 then [ucast (v OR 128), ucast (drop_bit 7 v OR 128), ucast (drop_bit 14 v OR 128), ucast (drop_bit 21 v)]
      else [ucast (v OR 128), ucast (drop_bit 7 v OR 128), ucast (drop_bit 14 v OR 128), ucast (drop_bit 21 v OR 128),
            ucast (drop_bit 28 v)])"

lemma shift_less: "128 \<le> v \<Longrightarrow> unat (drop_bit 7 v) < unat v" for v :: u64
proof -
  assume "128 \<le> v"
  then have "unat (128 :: u64) \<le> unat v" by (simp add: word_le_nat_alt)
  moreover have "unat (drop_bit 7 v) = unat v div 128" by (simp add: unat_drop_bit_eq drop_bit_eq_div [of 7 "unat v"])
  ultimately show ?thesis by simp
qed

function EncodeVarint64 :: "u64 \<Rightarrow> bytes" where
  "EncodeVarint64 v = (if v \<ge> 128 then ucast ((v AND 127) OR 128) # EncodeVarint64 (drop_bit 7 v) else [ucast v])"
  by pat_completeness auto
termination by (relation "measure unat") (simp_all add: shift_less)

function VarintLength :: "u64 \<Rightarrow> nat" where
  "VarintLength v = (if v \<ge> 128 then Suc (VarintLength (drop_bit 7 v)) else 1)"
  by pat_completeness auto
termination by (relation "measure unat") (simp_all add: shift_less)

declare EncodeVarint64.simps [simp del] VarintLength.simps [simp del]

text \<open>The loop of both readers, with the last shift they allow.\<close>

fun get_varint :: "nat \<Rightarrow> nat \<Rightarrow> 'a :: len word \<Rightarrow> bytes \<Rightarrow> ('a word \<times> bytes) option" where
  "get_varint last_shift shift result [] = None"
| "get_varint last_shift shift result (b # p) =
     (if shift \<le> last_shift then
        if b AND 128 \<noteq> 0 then get_varint last_shift (shift + 7) (result OR push_bit shift (ucast (b AND 127))) p
        else Some (result OR push_bit shift (ucast b), p)
      else None)"

definition GetVarint32PtrFallback :: "bytes \<Rightarrow> (u32 \<times> bytes) option" where
  "GetVarint32PtrFallback p = get_varint 28 0 0 p"

definition GetVarint32Ptr :: "bytes \<Rightarrow> (u32 \<times> bytes) option" where
  "GetVarint32Ptr p =
     (if p \<noteq> [] \<and> hd p AND 128 = 0 then Some (ucast (hd p), tl p) else GetVarint32PtrFallback p)"

definition GetVarint64Ptr :: "bytes \<Rightarrow> (u64 \<times> bytes) option" where
  "GetVarint64Ptr p = get_varint 63 0 0 p"

text \<open>\<open>GetVarint32\<close> and \<open>GetVarint64\<close> advance the slice when they succeed.\<close>

definition GetVarint32 :: "bytes \<Rightarrow> (u32 \<times> bytes) option" where
  "GetVarint32 input = GetVarint32Ptr input"

definition GetVarint64 :: "bytes \<Rightarrow> (u64 \<times> bytes) option" where
  "GetVarint64 input = GetVarint64Ptr input"

section \<open>Strings\<close>

definition PutLengthPrefixedSlice :: "bytes \<Rightarrow> bytes \<Rightarrow> bytes" where
  "PutLengthPrefixedSlice dst v = dst @ EncodeVarint32 (word_of_nat (length v)) @ v"

definition GetLengthPrefixedSlice :: "bytes \<Rightarrow> (bytes \<times> bytes) option" where
  "GetLengthPrefixedSlice input =
     (case GetVarint32 input of None \<Rightarrow> None
      | Some (len, rest) \<Rightarrow> if length rest \<ge> unat len then Some (take (unat len) rest, drop (unat len) rest) else None)"

section \<open>Fixed numbers are read back\<close>

lemma length_EncodeFixed [simp]: "length (EncodeFixed32 v) = 4" "length (EncodeFixed64 w) = 8"
  by (simp_all add: EncodeFixed32_def EncodeFixed64_def)

lemma nth_four: "(a # b # c # d # l) ! 0 = a" "(a # b # c # d # l) ! 1 = b" "(a # b # c # d # l) ! 2 = c" "(a # b # c # d # l) ! 3 = d"
  by (simp_all add: numeral_2_eq_2 numeral_3_eq_3)

lemma DecodeFixed32_Cons: "DecodeFixed32 (a # b # c # d # l) = ucast a OR push_bit 8 (ucast b) OR push_bit 16 (ucast c) OR push_bit 24 (ucast d)"
  unfolding DecodeFixed32_def nth_four ..

lemma low_byte_u32: "ucast (ucast (x AND 0xff) :: byte) = take_bit 8 x" for x :: u32
proof -
  have "x AND 0xff = take_bit 8 x" by (simp add: take_bit_eq_mask mask_eq_exp_minus_1)
  then show ?thesis by (intro bit_word_eqI) (auto simp: bit_ucast_iff bit_take_bit_iff)
qed

lemma join_bytes:
  "take_bit 8 v OR push_bit 8 (take_bit 8 (drop_bit 8 v)) OR push_bit 16 (take_bit 8 (drop_bit 16 v)) OR
   push_bit 24 (take_bit 8 (drop_bit 24 v)) = v" for v :: u32
proof (rule bit_word_eqI)
  fix n assume n: "n < LENGTH(32)"
  have [simp]: "bit (push_bit k (take_bit 8 (drop_bit k v))) n \<longleftrightarrow> k \<le> n \<and> n < k + 8 \<and> bit v n" for k
    using n by (auto simp: bit_push_bit_iff bit_take_bit_iff bit_drop_bit_eq possible_bit_word)
  from n show "bit (take_bit 8 v OR push_bit 8 (take_bit 8 (drop_bit 8 v)) OR push_bit 16 (take_bit 8 (drop_bit 16 v)) OR
      push_bit 24 (take_bit 8 (drop_bit 24 v))) n = bit v n"
    by (auto simp: bit_or_iff bit_take_bit_iff)
qed

lemma fixed32_roundtrip [simp]: "DecodeFixed32 (EncodeFixed32 v @ l) = v"
  unfolding EncodeFixed32_def append_Cons DecodeFixed32_Cons low_byte_u32 by (rule join_bytes)

lemma byte_of_half:
  "k \<le> 24 \<Longrightarrow> ucast (drop_bit k v AND 0xff) = (ucast (drop_bit k (ucast v :: u32) AND 0xff) :: byte)" for v :: u64
proof -
  assume "k \<le> 24"
  moreover have "(0xff :: 'a :: len word) = mask 8" by (simp add: mask_eq_exp_minus_1)
  ultimately show ?thesis
    by (intro bit_word_eqI) (auto simp: bit_ucast_iff bit_and_iff bit_mask_iff bit_drop_bit_eq possible_bit_word)
qed

lemma EncodeFixed32_map: "EncodeFixed32 v = map (\<lambda>k. ucast (drop_bit k v AND 0xff)) [0, 8, 16, 24]"
  by (simp add: EncodeFixed32_def)

lemma EncodeFixed64_map:
  "EncodeFixed64 v = map (\<lambda>k. ucast (drop_bit k v AND 0xff)) [0, 8, 16, 24] @
     map (\<lambda>k. ucast (drop_bit k (drop_bit 32 v) AND 0xff)) [0, 8, 16, 24]"
  unfolding EncodeFixed64_def drop_bit_drop_bit by simp

lemma EncodeFixed64_halves: "EncodeFixed64 v = EncodeFixed32 (ucast v) @ EncodeFixed32 (ucast (drop_bit 32 v))"
  unfolding EncodeFixed64_map EncodeFixed32_map
  by (rule arg_cong2 [of _ _ _ _ append]; rule map_cong [OF refl]; rule byte_of_half; auto)

lemma join_halves: "push_bit 32 (ucast (ucast (drop_bit 32 v) :: u32)) OR ucast (ucast v :: u32) = v" for v :: u64
  by (rule bit_word_eqI) (auto simp: bit_or_iff bit_push_bit_iff bit_ucast_iff bit_drop_bit_eq possible_bit_word)

lemma fixed64_roundtrip [simp]: "DecodeFixed64 (EncodeFixed64 v @ l) = v"
proof -
  have "drop 4 (EncodeFixed32 a @ m) = m" for a m by simp
  then show ?thesis
    unfolding DecodeFixed64_def EncodeFixed64_halves Let_def append_assoc fixed32_roundtrip by (simp only: fixed32_roundtrip join_halves)
qed

section \<open>Numbers of variable length are read back\<close>

text \<open>The format: groups of seven bits, the lowest first, the top bit set on all but the last.\<close>

fun varint :: "nat \<Rightarrow> bytes" where
  "varint n = (if n < 128 then [word_of_nat n] else word_of_nat (n mod 128 + 128) # varint (n div 128))"

declare varint.simps [simp del]

lemma word_low: "take_bit 7 (word_of_nat n) = (word_of_nat (n mod 128) :: 'a :: len word)"
proof -
  have "take_bit 7 (word_of_nat n) = (word_of_nat (take_bit 7 n) :: 'a word)"
    by (rule bit_word_eqI) (auto simp: bit_take_bit_iff bit_of_nat_iff possible_bit_word)
  then show ?thesis by (simp only: take_bit_eq_mod [of 7 n]) simp
qed

lemma bit_top: "bit (128 :: 'a :: len word) n \<longleftrightarrow> n = 7 \<and> n < LENGTH('a)"
proof -
  have "(128 :: 'a word) = 2 ^ 7" by simp
  then show ?thesis by (metis bit_exp_iff possible_bit_word)
qed

lemma more_byte: "word_of_nat (n mod 128 + 128) = (take_bit 7 (word_of_nat n) OR 128 :: byte)"
proof -
  have "take_bit 7 (word_of_nat n) OR 128 = take_bit 7 (word_of_nat n) + (128 :: byte)"
    by (rule disjunctive_add_eq_or [symmetric], rule bit_word_eqI, unfold bit_and_iff bit_take_bit_iff bit_top) simp
  then show ?thesis by (simp add: word_low)
qed

lemma lead_byte:
  fixes x :: "'a :: len word"
  assumes "8 \<le> LENGTH('a)"
  shows "ucast (x OR 128) = (word_of_nat (unat x mod 128 + 128) :: byte)"
proof -
  have u: "word_of_nat (unat x) = (ucast x :: byte)" by (simp add: unsigned_of_nat [symmetric])
  show ?thesis unfolding more_byte u
    using assms by (intro bit_word_eqI) (unfold bit_ucast_iff bit_or_iff bit_take_bit_iff bit_top, auto)
qed

lemma varint64_format: "EncodeVarint64 v = varint (unat v)"
proof (induction v rule: EncodeVarint64.induct)
  case (1 v)
  have "ucast ((v AND 127) OR 128) = (word_of_nat (unat v mod 128 + 128) :: byte)"
  proof -
    have "v AND 127 = take_bit 7 v" by (simp add: take_bit_eq_mask mask_eq_exp_minus_1)
    then have "unat (v AND 127) = unat v mod 128" by (simp only: unsigned_take_bit_eq take_bit_eq_mod [of 7 "unat v"]) simp
    then show ?thesis using lead_byte [of "v AND 127"] by simp
  qed
  moreover have "unat (drop_bit 7 v) = unat v div 128" by (simp add: unat_drop_bit_eq drop_bit_eq_div [of 7 "unat v"])
  moreover have "128 \<le> v \<longleftrightarrow> \<not> unat v < 128" by (simp add: word_le_nat_alt not_less)
  moreover have "ucast v = (word_of_nat (unat v) :: byte)" by (simp add: unsigned_of_nat [symmetric])
  ultimately show ?case using 1 EncodeVarint64.simps [of v] varint.simps [of "unat v"] by simp
qed

lemma unat_drop7: "unat (drop_bit (k + 7) v) = unat (drop_bit k v) div 128" for v :: u32
  by (simp add: unat_drop_bit_eq drop_bit_eq_div [of _ "unat v"] power_add div_mult2_eq)

lemma varint_word:
  "varint (unat w) = (if w < 128 then [ucast w] else ucast (w OR 128) # varint (unat (drop_bit 7 w)))" for w :: u32
proof -
  have "unat w < 128 \<longleftrightarrow> w < 128" by (simp add: word_less_nat_alt)
  then show ?thesis using unat_drop7 [of 0 w] by (simp add: varint.simps [of "unat w"] lead_byte)
qed

lemma varint32_format: "EncodeVarint32 v = varint (unat v)"
proof -
  have l: "v < 2 ^ 14 \<longleftrightarrow> drop_bit 7 v < 128" "v < 2 ^ 21 \<longleftrightarrow> drop_bit 14 v < 128" "v < 2 ^ 28 \<longleftrightarrow> drop_bit 21 v < 128"
    by (simp_all add: word_less_nat_alt unat_drop_bit_eq drop_bit_eq_div [of _ "unat v"] div_less_iff_less_mult)
  have "drop_bit 28 v < 128"
    using unsigned_less [of v, where ?'a = nat]
    by (simp add: word_less_nat_alt unat_drop_bit_eq drop_bit_eq_div [of 28 "unat v"] div_less_iff_less_mult)
  then show ?thesis
    unfolding EncodeVarint32_def l
    by (simp add: varint_word [of v] varint_word [of "drop_bit 7 v"] varint_word [of "drop_bit 14 v"] varint_word [of "drop_bit 21 v"]
        varint_word [of "drop_bit 28 v"] drop_bit_drop_bit)
qed

lemma varint_bytes:
  shows "word_of_nat (n mod 128 + 128) AND 128 \<noteq> (0 :: byte)"
    and "ucast (word_of_nat (n mod 128 + 128) AND 127 :: byte) = (word_of_nat (n mod 128) :: 'a :: len word)"
    and "n < 128 \<Longrightarrow> word_of_nat n AND 128 = (0 :: byte)"
    and "n < 128 \<Longrightarrow> ucast (word_of_nat n :: byte) = (word_of_nat n :: 'a word)"
proof -
  have m: "(127 :: byte) = mask 7" by (simp add: mask_eq_exp_minus_1)
  have "bit (word_of_nat (n mod 128 + 128) AND 128 :: byte) 7" unfolding more_byte bit_and_iff bit_or_iff bit_top by simp
  then show "word_of_nat (n mod 128 + 128) AND 128 \<noteq> (0 :: byte)" by auto
  have low: "ucast (word_of_nat k :: byte) = (word_of_nat k :: 'a word)" if "k < 128" for k
    using that by (simp add: unsigned_of_nat take_bit_nat_eq_self)
  then show "n < 128 \<Longrightarrow> ucast (word_of_nat n :: byte) = (word_of_nat n :: 'a word)" .
  have "(take_bit 7 (word_of_nat n) OR 128) AND 127 = (take_bit 7 (word_of_nat n) :: byte)"
    by (rule bit_word_eqI, unfold m bit_and_iff bit_or_iff bit_take_bit_iff bit_top bit_mask_iff) auto
  then show "ucast (word_of_nat (n mod 128 + 128) AND 127 :: byte) = (word_of_nat (n mod 128) :: 'a word)"
    unfolding more_byte using low [of "n mod 128"] by (simp only: word_low)
  show "word_of_nat n AND 128 = (0 :: byte)" if "n < 128"
  proof -
    have "word_of_nat n = (take_bit 7 (word_of_nat n) :: byte)" using that by (simp add: word_low)
    then have "word_of_nat n AND 128 = take_bit 7 (word_of_nat n) AND (128 :: byte)" by (rule arg_cong)
    also have "\<dots> = 0" by (rule bit_word_eqI, unfold bit_and_iff bit_take_bit_iff bit_top) simp
    finally show ?thesis .
  qed
qed

lemma word_groups: "(word_of_nat n :: 'a :: len word) = word_of_nat (n mod 128) OR push_bit 7 (word_of_nat (n div 128))"
proof -
  have "bit n i = bit (take_bit 7 n OR push_bit 7 (drop_bit 7 n)) i" for i
    by (cases "i < 7") (auto simp: bit_or_iff bit_take_bit_iff bit_push_bit_iff bit_drop_bit_eq)
  then have "n = take_bit 7 n OR push_bit 7 (drop_bit 7 n)" by (rule bit_eqI)
  then have "n = n mod 128 OR push_bit 7 (n div 128)"
    by (simp only: take_bit_eq_mod drop_bit_eq_div) simp
  then show ?thesis by (metis of_nat_or_eq of_nat_push_bit)
qed

lemma get_varint_format:
  fixes r :: "'a :: len word"
  assumes "s \<le> L" "n < 128 ^ ((L - s) div 7 + 1)"
  shows "get_varint L s r (varint n @ rest) = Some (r OR push_bit s (word_of_nat n), rest)"
  using assms
proof (induction n arbitrary: s r rule: varint.induct)
  case (1 n)
  show ?case
  proof (cases "n < 128")
    case True
    then show ?thesis using 1 by (simp add: varint.simps [of n] varint_bytes)
  next
    case False
    have "(L - s) div 7 \<noteq> 0"
    proof
      assume "(L - s) div 7 = 0"
      then have "n < 128" using 1(3) by simp
      then show False using False by simp
    qed
    then have s: "s + 7 \<le> L" using 1(2) by (cases "L - s < 7") auto
    then have e: "(L - s) div 7 = (L - (s + 7)) div 7 + 1" by (simp add: le_div_geq)
    then have "n div 128 < 128 ^ ((L - (s + 7)) div 7 + 1)" using 1(3) by (simp add: div_less_iff_less_mult mult.commute)
    from 1(1) [OF False s this]
    have "get_varint L s r (varint n @ rest) =
        Some ((r OR push_bit s (word_of_nat (n mod 128))) OR push_bit (s + 7) (word_of_nat (n div 128)), rest)"
      using False 1(2) by (simp add: varint.simps [of n] varint_bytes del: of_nat_add)
    moreover have "push_bit s (word_of_nat n :: 'a word) =
        push_bit s (word_of_nat (n mod 128)) OR push_bit (s + 7) (word_of_nat (n div 128))"
      by (subst word_groups) (simp only: push_bit_or push_bit_push_bit)
    ultimately show ?thesis by (simp add: or.assoc)
  qed
qed

lemma GetVarint32Ptr_loop: "GetVarint32Ptr p = get_varint 28 0 0 p"
  by (cases p) (auto simp: GetVarint32Ptr_def GetVarint32PtrFallback_def)

lemma varint_roundtrip [simp]:
  "GetVarint32Ptr (EncodeVarint32 v @ rest) = Some (v, rest)" "GetVarint64Ptr (EncodeVarint64 w @ rest) = Some (w, rest)"
  "GetVarint32 (EncodeVarint32 v @ rest) = Some (v, rest)" "GetVarint64 (EncodeVarint64 w @ rest) = Some (w, rest)"
proof -
  show "GetVarint32Ptr (EncodeVarint32 v @ rest) = Some (v, rest)"
    using get_varint_format [of 0 28 "unat v" "0 :: u32" rest] unsigned_less [of v, where ?'a = nat]
    by (simp add: GetVarint32Ptr_loop varint32_format)
  then show "GetVarint32 (EncodeVarint32 v @ rest) = Some (v, rest)" by (simp add: GetVarint32_def)
  show "GetVarint64Ptr (EncodeVarint64 w @ rest) = Some (w, rest)"
    using get_varint_format [of 0 63 "unat w" "0 :: u64" rest] unsigned_less [of w, where ?'a = nat]
    by (simp add: GetVarint64Ptr_def varint64_format)
  then show "GetVarint64 (EncodeVarint64 w @ rest) = Some (w, rest)" by (simp add: GetVarint64_def)
qed

lemma varint_not_empty [simp]: "varint n \<noteq> []" "EncodeVarint32 v \<noteq> []" "EncodeVarint64 w \<noteq> []"
  using varint.simps [of n] varint.simps [of "unat v"] varint.simps [of "unat w"] by (auto simp: varint32_format varint64_format)

lemma VarintLength_correct: "VarintLength v = length (EncodeVarint64 v)"
  by (induction v rule: VarintLength.induct) (subst VarintLength.simps, subst EncodeVarint64.simps, simp)

lemma varint_formats_agree: "EncodeVarint64 (ucast v) = EncodeVarint32 v" for v :: u32
proof -
  have "unat v < 2 ^ 64" using unsigned_less [of v, where ?'a = nat] by simp
  then show ?thesis by (simp add: varint32_format varint64_format unsigned_ucast_eq take_bit_nat_eq_self)
qed

text \<open>A reader consumes at least a byte and returns a suffix of its input.\<close>

lemma get_varint_suffix: "get_varint L s r p = Some (v, rest) \<Longrightarrow> \<exists>q. p = q @ rest \<and> q \<noteq> []"
  by (induction L s r p rule: get_varint.induct) (force split: if_splits)+

lemma slice_roundtrip [simp]:
  "length v < 2 ^ 32 \<Longrightarrow> GetLengthPrefixedSlice (EncodeVarint32 (word_of_nat (length v)) @ v @ rest) = Some (v, rest)"
  by (simp add: GetLengthPrefixedSlice_def unsigned_of_nat take_bit_nat_eq_self)

lemma GetLengthPrefixedSlice_suffix:
  assumes "GetLengthPrefixedSlice p = Some (v, rest)"
  shows "length rest < length p"
proof -
  obtain len q where "GetVarint32 p = Some (len, q)" "rest = drop (unat len) q"
    using assms by (auto simp: GetLengthPrefixedSlice_def split: option.splits if_splits)
  then show ?thesis using get_varint_suffix [of 28 0 0 p len q]
    by (auto simp: GetVarint32_def GetVarint32Ptr_loop length_greater_0_conv [symmetric] simp del: length_greater_0_conv)
qed

end
