(* ===== verification/Checksums.thy ===== *)
theory Checksums
  imports Crc32c
begin

unbundle bit_operations_syntax

text \<open>
  The optimised checksum is the checksum of the polynomial: a table step is eight divisions by one bit, a stride step is 128 of
  them, and the four partial results always combine to the checksum of the bytes read so far. What the log relies on,
  that a checksum can be continued and that a masked checksum can be unmasked, is the contract at the end.
\<close>

section \<open>Tables\<close>

lemma word_mask_8: "x AND 0xff = take_bit 8 x" for x :: u32
  by (simp add: take_bit_eq_mask mask_eq_exp_minus_1)

lemma unat_take_8: "unat (take_bit 8 x) < 256" for x :: u32
  by (simp only: unsigned_take_bit_eq) (simp add: take_bit_eq_mod [of 8 "unat x"])

lemma unat_drop_24: "unat (drop_bit 24 x) < 256" for x :: u32
  using unsigned_less [of x, where ?'a = nat]
  by (simp add: unat_drop_bit_eq drop_bit_eq_div [of 24 "unat x"] div_less_iff_less_mult)

text \<open>Division steps over bits that are zero only shift.\<close>

lemma crc_shift: "take_bit n x = 0 \<Longrightarrow> (crc_bit ^^ n) x = drop_bit n x"
proof (induction n arbitrary: x)
  case (Suc n)
  have "bit x k = False" if "k < Suc n" for k
    using that arg_cong [OF Suc.prems, of "\<lambda>w. bit w k"] by (auto simp: bit_take_bit_iff)
  then have "\<not> bit x 0" "take_bit n (drop_bit 1 x) = 0"
    by (auto intro!: bit_word_eqI simp: bit_take_bit_iff bit_drop_bit_eq)
  moreover from this(1) have "crc_bit x = drop_bit 1 x" by (simp add: crc_bit_def)
  ultimately show ?case
    using Suc.IH [of "drop_bit 1 x"] by (simp only: funpow_Suc_right comp_apply) (simp add: drop_bit_drop_bit)
qed simp

lemma crc_push: "take_bit (32 - n) x = x \<Longrightarrow> (crc_bit ^^ n) (push_bit n x) = x"
proof -
  assume x: "take_bit (32 - n) x = x"
  have "take_bit n (push_bit n x) = 0"
    by (rule bit_word_eqI) (auto simp: bit_take_bit_iff bit_push_bit_iff)
  moreover have "n + k < 32" if "bit x k" for k
    using that arg_cong [OF x, of "\<lambda>w. bit w k"] by (auto simp: bit_take_bit_iff)
  then have "drop_bit n (push_bit n x) = x"
    by (intro bit_word_eqI) (auto simp: bit_drop_bit_eq bit_push_bit_iff possible_bit_word)
  ultimately show ?thesis by (simp add: crc_shift)
qed

lemma split_low: "x = take_bit 8 x XOR push_bit 8 (drop_bit 8 x)" for x :: u32
proof (rule bit_word_eqI)
  fix n assume "n < LENGTH(32)"
  then show "bit x n = bit (take_bit 8 x XOR push_bit 8 (drop_bit 8 x)) n"
    by (cases "n < 8") (auto simp: bit_xor_iff bit_take_bit_iff bit_push_bit_iff bit_drop_bit_eq)
qed

lemma byte_table: "kByteExtensionTable ! unat (take_bit 8 x) XOR drop_bit 8 x = (crc_bit ^^ 8) x"
proof -
  have "take_bit 24 (drop_bit 8 x) = drop_bit 8 x"
    by (rule bit_word_eqI) (auto simp: bit_take_bit_iff bit_drop_bit_eq dest: bit_imp_le_length)
  then have "(crc_bit ^^ 8) x = (crc_bit ^^ 8) (take_bit 8 x) XOR drop_bit 8 x"
    using crc_push [of 8 "drop_bit 8 x"] linear_xor [OF linear_crc, of 8 "take_bit 8 x" "push_bit 8 (drop_bit 8 x)"]
    by (simp only: split_low [symmetric]) simp
  moreover have "word_of_nat (unat (take_bit 8 x)) = take_bit 8 x" by simp
  ultimately show ?thesis using crc_tables(1) [OF unat_take_8, of x] by simp
qed

lemma split_bytes:
  "x = take_bit 8 x XOR push_bit 8 (take_bit 8 (drop_bit 8 x)) XOR push_bit 16 (take_bit 8 (drop_bit 16 x)) XOR
     push_bit 24 (drop_bit 24 x)" for x :: u32
proof (rule bit_word_eqI)
  fix n assume n: "n < LENGTH(32)"
  have [simp]: "bit (push_bit k (take_bit 8 (drop_bit k x))) n \<longleftrightarrow> k \<le> n \<and> n < k + 8 \<and> bit x n"
    "bit (push_bit k (drop_bit k x)) n \<longleftrightarrow> k \<le> n \<and> bit x n" for k
    using n by (auto simp: bit_push_bit_iff bit_take_bit_iff bit_drop_bit_eq possible_bit_word)
  from n show "bit x n = bit (take_bit 8 x XOR push_bit 8 (take_bit 8 (drop_bit 8 x)) XOR push_bit 16 (take_bit 8 (drop_bit 16 x)) XOR
      push_bit 24 (drop_bit 24 x)) n"
    by (auto simp: bit_xor_iff bit_take_bit_iff)
qed

lemma STEP4_correct: "STEP4 p x = ReadUint32LE p XOR (crc_bit ^^ 128) x"
proof -
  let ?f = "crc_bit ^^ 128"
  have "?f x = ?f (take_bit 8 x) XOR ?f (push_bit 8 (take_bit 8 (drop_bit 8 x))) XOR ?f (push_bit 16 (take_bit 8 (drop_bit 16 x))) XOR
      ?f (push_bit 24 (drop_bit 24 x))"
    by (subst split_bytes [of x]) (simp only: linear_xor [OF linear_crc])
  moreover have "word_of_nat (unat w) = w" for w :: u32 by simp
  ultimately show ?thesis
    unfolding STEP4_def word_mask_8
    by (simp only: crc_tables [OF unat_take_8] crc_tables [OF unat_drop_24] xor.assoc)
qed

section \<open>Bytes and words\<close>

lemma STEP1_correct: "STEP1 l b = crc_byte l b"
proof -
  have l: "bit b n \<Longrightarrow> n < 8" for n using bit_imp_le_length [of b n] by simp
  have b: "take_bit 8 (ucast b) = (ucast b :: u32)" "drop_bit 8 (ucast b) = (0 :: u32)"
    by (auto intro!: bit_word_eqI simp: bit_take_bit_iff bit_drop_bit_eq bit_ucast_iff dest: l)
  have "STEP1 l b = kByteExtensionTable ! unat (take_bit 8 (l XOR ucast b)) XOR drop_bit 8 (l XOR ucast b)"
    by (simp only: STEP1_def Let_def word_mask_8 take_bit_xor drop_bit_xor b xor.right_neutral)
  then show ?thesis by (simp only: byte_table crc_byte_def)
qed

lemma STEP4W_correct: "STEP4W l w = (crc_bit ^^ 32) (w XOR l)"
proof -
  have "(\<lambda>w. drop_bit 8 w XOR kByteExtensionTable ! unat (w AND 0xff)) = crc_bit ^^ 8"
    by (rule ext) (simp only: word_mask_8 byte_table [symmetric] xor.commute)
  then show ?thesis by (simp add: STEP4W_def funpow_mult del: funpow.simps)
qed

lemma crc_add: "(crc_bit ^^ m) ((crc_bit ^^ n) x) = (crc_bit ^^ (m + n)) x"
  by (simp add: funpow_add)

lemma crc_xor: "(crc_bit ^^ n) (x XOR y) = (crc_bit ^^ n) x XOR (crc_bit ^^ n) y"
  by (rule linear_xor [OF linear_crc])

lemma crc_push_byte: "k \<le> 24 \<Longrightarrow> (crc_bit ^^ (n + k)) (push_bit k (ucast b)) = (crc_bit ^^ n) (ucast (b :: byte))"
proof -
  assume k: "k \<le> 24"
  have l: "bit b n \<Longrightarrow> n < 8" for n using bit_imp_le_length [of b n] by simp
  have "take_bit (32 - k) (ucast b) = (ucast b :: u32)"
    using k by (intro bit_word_eqI) (use l in \<open>fastforce simp: bit_take_bit_iff bit_ucast_iff\<close>)
  then have "(crc_bit ^^ k) (push_bit k (ucast b)) = ucast b" by (rule crc_push)
  then show ?thesis by (simp only: crc_add [symmetric])
qed

text \<open>Four bytes at a time.\<close>

lemma read_word:
  "ReadUint32LE (a # b # c # d # p) = ucast a XOR push_bit 8 (ucast b) XOR push_bit 16 (ucast c) XOR push_bit 24 (ucast d)"
  unfolding ReadUint32LE_def DecodeFixed32_Cons
proof (rule bit_word_eqI)
  fix n assume n: "n < LENGTH(32)"
  have l: "8 \<le> k \<Longrightarrow> \<not> bit x k" for x :: byte and k using bit_imp_le_length [of x k] by auto
  consider "n < 8" | "8 \<le> n" "n < 16" | "16 \<le> n" "n < 24" | "24 \<le> n" by linarith
  then show "bit (ucast a OR push_bit 8 (ucast b) OR push_bit 16 (ucast c) OR push_bit 24 (ucast d) :: u32) n =
      bit (ucast a XOR push_bit 8 (ucast b) XOR push_bit 16 (ucast c) XOR push_bit 24 (ucast d) :: u32) n"
    by cases (auto simp: bit_or_iff bit_xor_iff bit_push_bit_iff bit_ucast_iff l)
qed

lemma crc_word:
  "foldl crc_byte l [a, b, c, d] = (crc_bit ^^ 32) (l XOR ReadUint32LE (a # b # c # d # p))"
proof -
  have "foldl crc_byte l [a, b, c, d] = (crc_bit ^^ 32) l XOR (crc_bit ^^ 32) (ucast a) XOR (crc_bit ^^ 24) (ucast b) XOR
      (crc_bit ^^ 16) (ucast c) XOR (crc_bit ^^ 8) (ucast d)"
    by (simp add: crc_byte_def crc_xor crc_add xor.assoc del: funpow.simps)
  moreover have "(crc_bit ^^ 32) (push_bit 8 (ucast b)) = (crc_bit ^^ 24) (ucast b)"
    "(crc_bit ^^ 32) (push_bit 16 (ucast c)) = (crc_bit ^^ 16) (ucast c)"
    "(crc_bit ^^ 32) (push_bit 24 (ucast d)) = (crc_bit ^^ 8) (ucast d)"
    using crc_push_byte [of 8 24 b] crc_push_byte [of 16 16 c] crc_push_byte [of 24 8 d] by simp_all
  ultimately show ?thesis by (simp add: read_word crc_xor xor.assoc del: funpow.simps)
qed

lemma crc_next_word:
  assumes "4 \<le> length p"
  shows "foldl crc_byte l (take 4 p) = (crc_bit ^^ 32) (l XOR ReadUint32LE p)"
proof -
  obtain a b c d q where "p = a # b # c # d # q"
    using assms by (auto simp: numeral_eq_Suc Suc_le_length_iff)
  then show ?thesis using crc_word [of l a b c d q] by simp
qed

section \<open>The interleaved partial results\<close>

text \<open>The checksum that four partial results stand for.\<close>

lemma combine_correct:
  "combine (a, b, c, d) = (crc_bit ^^ 128) a XOR (crc_bit ^^ 96) b XOR (crc_bit ^^ 64) c XOR (crc_bit ^^ 32) d"
  by (simp add: combine_def STEP4W_correct crc_xor crc_add xor.assoc xor.commute xor.left_commute del: funpow.simps)

lemma combine_step:
  assumes "4 \<le> length p"
  shows "combine (b, c, d, STEP4 p a) = foldl crc_byte (combine (a, b, c, d)) (take 4 p)"
  unfolding crc_next_word [OF assms] combine_correct STEP4_correct
  by (simp add: crc_xor crc_add xor.assoc xor.commute xor.left_commute del: funpow.simps)

lemma foldl_take_drop: "foldl f x (take (m + n) p) = foldl f (foldl f x (take m p)) (take n (drop m p))"
  by (simp add: take_add)

lemma foldl_take_rest: "foldl f (foldl f x (take n p)) (drop n p) = foldl f x p"
  by (metis append_take_drop_id foldl_append)

lemma combine_swath:
  assumes "16 \<le> length p"
  shows "combine (STEP16 p crcs) = foldl crc_byte (combine crcs) (take 16 p)"
proof -
  obtain a b c d where crcs: "crcs = (a, b, c, d)" by (cases crcs)
  have "foldl crc_byte x (take 16 p) = foldl crc_byte (foldl crc_byte (foldl crc_byte (foldl crc_byte x (take 4 p)) (take 4 (drop 4 p)))
      (take 4 (drop 8 p))) (take 4 (drop 12 p))" for x
    using foldl_take_drop [of crc_byte x 4 12 p] foldl_take_drop [of crc_byte _ 4 8 "drop 4 p"]
      foldl_take_drop [of crc_byte _ 4 4 "drop 8 p"] by simp
  then show ?thesis using assms by (simp add: crcs STEP16_def combine_step)
qed

lemma swath_loop_correct:
  assumes "swath_loop crcs p = (crcs', q)"
  shows "foldl crc_byte (combine crcs') q = foldl crc_byte (combine crcs) p"
  using assms
proof (induction crcs p rule: swath_loop.induct)
  case (1 crcs p)
  show ?case
  proof (cases "16 \<le> length p")
    case True
    then have "swath_loop (STEP16 p crcs) (drop 16 p) = (crcs', q)" using 1(2) by (subst (asm) swath_loop.simps) simp
    from 1(1) [OF True this] show ?thesis unfolding combine_swath [OF True] by (simp only: foldl_take_rest)
  next
    case False
    then show ?thesis using 1(2) by (subst (asm) swath_loop.simps) simp
  qed
qed

lemma word_loop_correct:
  assumes "word_loop crcs p = (crcs', q)"
  shows "foldl crc_byte (combine crcs') q = foldl crc_byte (combine crcs) p"
  using assms
proof (induction crcs p rule: word_loop.induct)
  case (1 crcs p)
  obtain a b c d where crcs: "crcs = (a, b, c, d)" by (cases crcs)
  show ?case
  proof (cases "4 \<le> length p")
    case True
    then have "word_loop (b, c, d, STEP4 p a) (drop 4 p) = (crcs', q)" using 1(2) unfolding crcs by (subst (asm) word_loop.simps) simp
    from 1(1) [OF True crcs [symmetric] refl refl this] show ?thesis unfolding crcs combine_step [OF True] by (simp only: foldl_take_rest)
  next
    case False
    then show ?thesis using 1(2) by (subst (asm) word_loop.simps) simp
  qed
qed

lemma combine_first:
  assumes "16 \<le> length p"
  shows "combine (ReadUint32LE p XOR l, ReadUint32LE (drop 4 p), ReadUint32LE (drop 8 p), ReadUint32LE (drop 12 p)) =
    foldl crc_byte l (take 16 p)"
proof -
  have "foldl crc_byte l (take 16 p) = foldl crc_byte (foldl crc_byte (foldl crc_byte (foldl crc_byte l (take 4 p)) (take 4 (drop 4 p)))
      (take 4 (drop 8 p))) (take 4 (drop 12 p))"
    using foldl_take_drop [of crc_byte l 4 12 p] foldl_take_drop [of crc_byte _ 4 8 "drop 4 p"]
      foldl_take_drop [of crc_byte _ 4 4 "drop 8 p"] by simp
  then show ?thesis
    using assms by (simp add: crc_next_word combine_correct crc_xor crc_add xor.assoc xor.commute xor.left_commute del: funpow.simps)
qed

lemma Extend_spec: "Extend address crc buf = crc32c_spec crc buf"
proof -
  have s1: "STEP1 = crc_byte" by (intro ext) (rule STEP1_correct)
  have rest: "foldl crc_byte (fst r) (snd r) = foldl crc_byte l p"
    if "r = (if length p \<ge> 16
        then let crcs = (ReadUint32LE p XOR l, ReadUint32LE (drop 4 p), ReadUint32LE (drop 8 p), ReadUint32LE (drop 12 p));
                 (crcs, p) = swath_loop crcs (drop 16 p); (crcs, p) = word_loop crcs p
             in (combine crcs, p)
        else (l, p))" for l p r
  proof (cases "16 \<le> length p")
    case True
    let ?c = "(ReadUint32LE p XOR l, ReadUint32LE (drop 4 p), ReadUint32LE (drop 8 p), ReadUint32LE (drop 12 p))"
    obtain c1 p1 where 1: "swath_loop ?c (drop 16 p) = (c1, p1)" by (cases "swath_loop ?c (drop 16 p)")
    obtain c2 p2 where 2: "word_loop c1 p1 = (c2, p2)" by (cases "word_loop c1 p1")
    have "r = (combine c2, p2)" using that True 1 2 by (simp add: Let_def)
    then show ?thesis
      using word_loop_correct [OF 2] swath_loop_correct [OF 1] unfolding combine_first [OF True] by (simp only: foldl_take_rest fst_conv snd_conv)
  qed (use that in simp)
  have "\<not> CanAccelerateCRC32C" by (simp add: CanAccelerateCRC32C_def AcceleratedCRC32C_def)
  then show ?thesis
    unfolding Extend_def crc32c_spec_def kCRC32Xor_def s1 Let_def
    using rest [OF refl, unfolded Let_def] by (simp add: split_beta foldl_take_rest)
qed

text \<open>C17. \<open>crc32c::Extend\<close>, with its five tables, its alignment and its four interleaved partial results, computes the
  cyclic redundancy check of the Castagnoli polynomial bit by bit, for every buffer, every address of the buffer
  and every checksum it continues.\<close>

theorem crc_correct: "Extend address crc buf = crc32c_spec crc buf"
  by (rule Extend_spec)

section \<open>What the log relies on\<close>

lemma Unmask_Mask: "Unmask (Mask crc) = crc"
proof -
  have "drop_bit 17 (drop_bit 15 crc OR push_bit 17 crc) OR push_bit 15 (drop_bit 15 crc OR push_bit 17 crc) = crc"
  proof (rule bit_word_eqI)
    fix n assume n: "n < LENGTH(32)"
    then show "bit (drop_bit 17 (drop_bit 15 crc OR push_bit 17 crc) OR push_bit 15 (drop_bit 15 crc OR push_bit 17 crc)) n = bit crc n"
      by (cases "n < 15") (auto simp: bit_or_iff bit_drop_bit_eq bit_push_bit_iff dest: bit_imp_le_length)
  qed
  then show ?thesis by (simp add: Unmask_def Mask_def Let_def)
qed

lemma crc32c_spec_append: "crc32c_spec (crc32c_spec crc xs) ys = crc32c_spec crc (xs @ ys)"
  by (simp add: crc32c_spec_def xor.assoc)

text \<open>A checksum that can be continued and a reversible way to store it.\<close>

locale checksum =
  fixes extend :: "u32 \<Rightarrow> bytes \<Rightarrow> u32" and hide reveal :: "u32 \<Rightarrow> u32"
  assumes extend_append: "extend (extend crc xs) ys = extend crc (xs @ ys)"
    and reveal_hide: "reveal (hide crc) = crc"
begin

lemma stored_checksum: "reveal (hide (extend (extend crc xs) ys)) = extend crc (xs @ ys)"
  by (simp add: extend_append reveal_hide)

end

interpretation crc: checksum "Extend address" Mask Unmask
  by unfold_locales (simp_all add: Extend_spec crc32c_spec_append Unmask_Mask)

end
