(* ===== verification/MemFile.thy ===== *)
theory MemFile
  imports Coding
begin

text \<open>
  The files of LevelDB's in-memory environment (\<open>helpers/memenv/memenv.cc\<close>): a file is a vector of blocks of 8 KB and a size.
  Appending fills the last block and adds new ones; reading copies from block to block. Both are shown to be the operations
  on the byte string the file holds, which is what the log and the tables rely on. The bytes of a new block are an
  argument, because \<open>new char[]\<close> leaves them unspecified.
\<close>

section \<open>Status\<close>

datatype ldb_status = StatusOK | NotFound | Corruption string | IOError string

section \<open>\<open>FileState\<close>\<close>

definition kFileBlockSize :: nat where "kFileBlockSize = 8 * 1024"

record file_state =
  fs_blocks :: "bytes list"
  fs_size :: nat

definition empty_file :: file_state where
  "empty_file = \<lparr>fs_blocks = [], fs_size = 0\<rparr>"

text \<open>\<open>memcpy\<close> into a block.\<close>

definition write_at :: "nat \<Rightarrow> bytes \<Rightarrow> bytes \<Rightarrow> bytes" where
  "write_at offset src block = take offset block @ src @ drop (offset + length src) block"

function fs_Append :: "bytes \<Rightarrow> bytes \<Rightarrow> file_state \<Rightarrow> file_state" where
  "fs_Append fresh src f =
     (if src = [] then f
      else
        let offset = fs_size f mod kFileBlockSize;
            blocks = (if offset \<noteq> 0 then fs_blocks f else fs_blocks f @ [fresh]);
            room = (if offset \<noteq> 0 then kFileBlockSize - offset else kFileBlockSize);
            avail = (if room > length src then length src else room)
        in fs_Append fresh (drop avail src)
             \<lparr>fs_blocks = butlast blocks @ [write_at offset (take avail src) (last blocks)], fs_size = fs_size f + avail\<rparr>)"
  by pat_completeness auto
termination
proof (relation "measure (\<lambda>(fresh, src, f). length src)", goal_cases)
  case (2 fresh src f offset blocks room avail)
  have "0 < avail" using 2 by (auto simp: kFileBlockSize_def)
  then show ?case using 2 by auto
qed simp

declare fs_Append.simps [simp del]

function read_blocks :: "bytes list \<Rightarrow> nat \<Rightarrow> nat \<Rightarrow> nat \<Rightarrow> bytes" where
  "read_blocks blocks block block_offset bytes_to_copy =
     (if bytes_to_copy > 0 \<and> block_offset < kFileBlockSize then
        let avail = kFileBlockSize - block_offset;
            avail = (if avail > bytes_to_copy then bytes_to_copy else avail)
        in take avail (drop block_offset (blocks ! block)) @ read_blocks blocks (block + 1) 0 (bytes_to_copy - avail)
      else [])"
  by pat_completeness auto
termination by (relation "measure (\<lambda>(blocks, block, off, n). n)") auto

declare read_blocks.simps [simp del]

definition fs_Read :: "nat \<Rightarrow> nat \<Rightarrow> file_state \<Rightarrow> ldb_status \<times> bytes" where
  "fs_Read offset n f =
     (if offset > fs_size f then (IOError ''Offset greater than file size.'', [])
      else
        let available = fs_size f - offset;
            n = (if n > available then available else n)
        in if n = 0 then (StatusOK, [])
           else
             let block = offset div kFileBlockSize; block_offset = offset mod kFileBlockSize in
             if n \<le> kFileBlockSize - block_offset then (StatusOK, take n (drop block_offset (fs_blocks f ! block)))
             else (StatusOK, read_blocks (fs_blocks f) block block_offset n))"

section \<open>Sequential files\<close>

record seq_file =
  sf_file :: file_state
  sf_pos :: nat

definition sf_Read :: "nat \<Rightarrow> seq_file \<Rightarrow> (ldb_status \<times> bytes) \<times> seq_file" where
  "sf_Read n s =
     (let (st, result) = fs_Read (sf_pos s) n (sf_file s)
      in ((st, result), if st = StatusOK then s\<lparr>sf_pos := sf_pos s + length result\<rparr> else s))"

definition sf_Skip :: "nat \<Rightarrow> seq_file \<Rightarrow> ldb_status \<times> seq_file" where
  "sf_Skip n s =
     (if sf_pos s > fs_size (sf_file s) then (IOError ''pos_ > file_->Size()'', s)
      else
        let available = fs_size (sf_file s) - sf_pos s;
            n = (if n > available then available else n)
        in (StatusOK, s\<lparr>sf_pos := sf_pos s + n\<rparr>))"

section \<open>A file is the string it holds\<close>

definition fs_inv :: "file_state \<Rightarrow> bool" where
  "fs_inv f \<longleftrightarrow> (\<forall>b \<in> set (fs_blocks f). length b = kFileBlockSize) \<and>
     length (fs_blocks f) = (fs_size f + kFileBlockSize - 1) div kFileBlockSize"

definition contents :: "file_state \<Rightarrow> bytes" where
  "contents f = take (fs_size f) (concat (fs_blocks f))"

lemma kFileBlockSize_pos [simp]: "0 < kFileBlockSize"
  by (simp add: kFileBlockSize_def)

lemma empty_file_inv [simp]: "fs_inv empty_file" "contents empty_file = []"
  by (simp_all add: fs_inv_def contents_def empty_file_def kFileBlockSize_def)

lemma length_blocks: "\<forall>b \<in> set bs. length b = k \<Longrightarrow> length (concat bs) = length bs * k"
  by (induction bs) auto

lemma drop_blocks:
  assumes "\<forall>b \<in> set bs. length b = k" "i < length bs" "j \<le> k"
  shows "drop (i * k + j) (concat bs) = drop j (bs ! i) @ concat (drop (Suc i) bs)"
  using assms
proof (induction bs arbitrary: i)
  case (Cons b bs)
  show ?case
  proof (cases i)
    case (Suc n)
    then have "drop (i * k + j) (concat (b # bs)) = drop (n * k + j) (concat bs)" using Cons by (simp add: add.assoc)
    then show ?thesis using Cons Suc by simp
  qed (use Cons in simp)
qed simp

lemma size_blocks: "fs_inv f \<Longrightarrow> fs_size f \<le> length (concat (fs_blocks f))"
proof -
  assume "fs_inv f"
  then have "length (concat (fs_blocks f)) = (fs_size f + kFileBlockSize - 1) div kFileBlockSize * kFileBlockSize"
    using length_blocks [of "fs_blocks f" kFileBlockSize] by (simp add: fs_inv_def)
  moreover have "fs_size f + kFileBlockSize - 1 < (fs_size f + kFileBlockSize - 1) div kFileBlockSize * kFileBlockSize + kFileBlockSize"
    using div_mult_mod_eq [of "fs_size f + kFileBlockSize - 1" kFileBlockSize]
      mod_less_divisor [OF kFileBlockSize_pos, of "fs_size f + kFileBlockSize - 1"] by linarith
  ultimately show ?thesis by simp
qed

lemma length_contents [simp]: "fs_inv f \<Longrightarrow> length (contents f) = fs_size f"
  using size_blocks by (simp add: contents_def)

lemma length_write_at: "offset + length src \<le> length block \<Longrightarrow> length (write_at offset src block) = length block"
  by (simp add: write_at_def)

text \<open>A file is its full blocks and the used part of the last one.\<close>

lemma block_count: "0 < m \<Longrightarrow> m \<le> K \<Longrightarrow> (n * K + m + K - 1) div K = Suc n" for n m K :: nat
proof -
  assume m: "0 < m" "m \<le> K"
  then have "n * K + m + K - 1 = (m - 1) + Suc n * K" by simp
  also have "\<dots> div K = Suc n" using m by (simp only: div_mult_self1) simp
  finally show ?thesis .
qed

lemma file_cases:
  assumes "fs_inv f"
  obtains (full) "fs_size f mod kFileBlockSize = 0" "contents f = concat (fs_blocks f)"
      "fs_size f = length (fs_blocks f) * kFileBlockSize"
  | (partial) bs b o' where "fs_size f mod kFileBlockSize = o'" "0 < o'" "o' < kFileBlockSize" "fs_blocks f = bs @ [b]"
      "contents f = concat bs @ take o' b" "fs_size f = length bs * kFileBlockSize + o'"
proof -
  let ?K = kFileBlockSize and ?m = "fs_size f div kFileBlockSize" and ?o = "fs_size f mod kFileBlockSize"
  have size: "fs_size f = ?m * ?K + ?o" by simp
  have len: "\<forall>b \<in> set (fs_blocks f). length b = ?K" using assms by (simp add: fs_inv_def)
  show thesis
  proof (cases "?o = 0")
    case True
    then have "fs_size f + ?K - 1 = (?K - 1) + ?m * ?K" using size kFileBlockSize_pos by linarith
    then have "(fs_size f + ?K - 1) div ?K = ?m" by (simp only: div_mult_self1) simp
    then have m: "length (fs_blocks f) = ?m" using assms by (simp add: fs_inv_def)
    then have "contents f = concat (fs_blocks f)"
      using length_blocks [OF len] True size by (simp add: contents_def)
    moreover have "fs_size f = length (fs_blocks f) * ?K" using size unfolding m True by simp
    ultimately show thesis by (rule full [OF True])
  next
    case False
    have o: "0 < ?o" "?o < ?K" using False by simp_all
    have "(?m * ?K + ?o + ?K - 1) div ?K = Suc ?m" using o by (intro block_count) simp_all
    then have m: "length (fs_blocks f) = Suc ?m" using assms size by (simp add: fs_inv_def)
    then obtain bs b where bs: "fs_blocks f = bs @ [b]" "length bs = ?m" by (metis length_Suc_conv_rev)
    have "length (concat bs) = ?m * ?K" using length_blocks [of bs ?K] len bs by simp
    then have "contents f = concat bs @ take ?o b" using bs(1) by (simp add: contents_def minus_div_mult_eq_mod)
    moreover have "fs_size f = length bs * ?K + ?o" using size unfolding bs(2) .
    ultimately show thesis by (rule partial [OF refl o bs(1)])
  qed
qed

lemma add_block:
  assumes "\<forall>b \<in> set bs. length b = kFileBlockSize" "length w = kFileBlockSize" "0 < m" "m \<le> kFileBlockSize"
    "f = \<lparr>fs_blocks = bs @ [w], fs_size = length bs * kFileBlockSize + m\<rparr>"
  shows "fs_inv f \<and> contents f = concat bs @ take m w"
  using assms block_count [of m kFileBlockSize "length bs"] length_blocks [of bs kFileBlockSize]
  by (auto simp: fs_inv_def contents_def)

lemma fs_Append_correct:
  assumes "length fresh = kFileBlockSize" "fs_inv f"
  shows "fs_inv (fs_Append fresh src f) \<and> contents (fs_Append fresh src f) = contents f @ src"
  using assms
proof (induction fresh src f rule: fs_Append.induct)
  case (1 fresh src f)
  show ?case
  proof (cases "src = []")
    case True
    then show ?thesis using 1(3) by (simp add: fs_Append.simps)
  next
    case False
    define offset where "offset = fs_size f mod kFileBlockSize"
    define blocks where "blocks = (if offset \<noteq> 0 then fs_blocks f else fs_blocks f @ [fresh])"
    define room where "room = (if offset \<noteq> 0 then kFileBlockSize - offset else kFileBlockSize)"
    define avail where "avail = (if room > length src then length src else room)"
    define f' where "f' = \<lparr>fs_blocks = butlast blocks @ [write_at offset (take avail src) (last blocks)], fs_size = fs_size f + avail\<rparr>"
    have step: "fs_Append fresh src f = fs_Append fresh (drop avail src) f'"
      using False by (subst fs_Append.simps) (simp add: Let_def offset_def blocks_def room_def avail_def f'_def)
    have avail: "0 < avail" "avail \<le> length src" "avail \<le> room" using False by (auto simp: avail_def room_def offset_def)
    have "fs_inv f' \<and> contents f' = contents f @ take avail src"
      using 1(3)
    proof (cases rule: file_cases)
      case full
      then have f': "f' = \<lparr>fs_blocks = fs_blocks f @ [write_at 0 (take avail src) fresh], fs_size = length (fs_blocks f) * kFileBlockSize + avail\<rparr>"
        by (simp add: f'_def blocks_def offset_def)
      have room: "avail \<le> kFileBlockSize" using full avail by (simp add: room_def offset_def)
      have "fs_inv f' \<and> contents f' = concat (fs_blocks f) @ take avail (write_at 0 (take avail src) fresh)"
        using 1(2,3) avail room by (intro add_block [OF _ _ _ _ f']) (simp_all add: fs_inv_def length_write_at)
      then show ?thesis using full(2) avail(2) by (simp add: write_at_def)
    next
      case (partial bs b o')
      then have f': "f' = \<lparr>fs_blocks = bs @ [write_at o' (take avail src) b], fs_size = length bs * kFileBlockSize + (o' + avail)\<rparr>"
        by (simp add: f'_def blocks_def offset_def)
      have room: "o' + avail \<le> kFileBlockSize" using partial avail by (simp add: room_def offset_def)
      have b: "length b = kFileBlockSize" using 1(3) partial(4) by (simp add: fs_inv_def)
      have "fs_inv f' \<and> contents f' = concat bs @ take (o' + avail) (write_at o' (take avail src) b)"
        using 1(3) avail room b partial(4) by (intro add_block [OF _ _ _ _ f']) (simp_all add: fs_inv_def length_write_at)
      then show ?thesis using partial(3,5) avail(2) b by (simp add: write_at_def)
    qed
    then show ?thesis unfolding step using 1(1) [OF False offset_def blocks_def room_def avail_def 1(2), folded f'_def] by simp
  qed
qed

lemma drop_full_blocks:
  "\<forall>b \<in> set bs. length b = k \<Longrightarrow> i \<le> length bs \<Longrightarrow> drop (i * k) (concat bs) = concat (drop i bs)"
proof (induction bs arbitrary: i)
  case (Cons b bs)
  then show ?case by (cases i) simp_all
qed simp

lemma read_blocks_correct:
  assumes "\<forall>b \<in> set bs. length b = kFileBlockSize" "off < kFileBlockSize" "block * kFileBlockSize + off + n \<le> length (concat bs)"
  shows "read_blocks bs block off n = take n (drop (block * kFileBlockSize + off) (concat bs))"
  using assms(2,3)
proof (induction n arbitrary: block off rule: less_induct)
  case (less n)
  let ?K = kFileBlockSize
  show ?case
  proof (cases "n = 0")
    case True
    then show ?thesis by (simp add: read_blocks.simps)
  next
    case False
    have len: "length (concat bs) = length bs * ?K" using length_blocks [OF assms(1)] .
    then have "block * ?K < length bs * ?K" using less(3) False by linarith
    then have b: "block < length bs" by simp
    then have lb: "length (bs ! block) = ?K" using assms(1) by simp
    have d: "drop (block * ?K + off) (concat bs) = drop off (bs ! block) @ drop (Suc block * ?K) (concat bs)"
      using drop_blocks [OF assms(1) b, of off] drop_full_blocks [OF assms(1), of "Suc block"] b less(2) by simp
    show ?thesis
    proof (cases "n \<le> ?K - off")
      case True
      then have "read_blocks bs block off n = take n (drop off (bs ! block))"
        using False less(2) by (subst read_blocks.simps) (auto simp: Let_def read_blocks.simps)
      then show ?thesis unfolding d using True lb by simp
    next
      case k: False
      then have "read_blocks bs block off n = drop off (bs ! block) @ read_blocks bs (block + 1) 0 (n - (?K - off))"
        using False less(2) lb by (subst read_blocks.simps) (simp add: Let_def)
      moreover have "read_blocks bs (block + 1) 0 (n - (?K - off)) = take (n - (?K - off)) (drop ((block + 1) * ?K + 0) (concat bs))"
        using k less(2,3) by (intro less(1)) simp_all
      ultimately show ?thesis unfolding d using k lb by simp
    qed
  qed
qed

lemma fs_Read_correct:
  assumes "fs_inv f"
  shows "fs_Read offset n f =
    (if offset > fs_size f then (IOError ''Offset greater than file size.'', []) else (StatusOK, take n (drop offset (contents f))))"
proof (cases "offset > fs_size f")
  case False
  let ?K = kFileBlockSize and ?n = "if n > fs_size f - offset then fs_size f - offset else n"
  have blocks: "\<forall>b \<in> set (fs_blocks f). length b = ?K" using assms by (simp add: fs_inv_def)
  have t: "take n (drop offset (contents f)) = take ?n (drop offset (concat (fs_blocks f)))"
    using False by (auto simp: contents_def drop_take)
  show ?thesis
  proof (cases "?n = 0")
    case True
    then show ?thesis using False unfolding fs_Read_def t by (simp add: Let_def)
  next
    case pos: False
    have o: "offset div ?K * ?K + offset mod ?K = offset" by simp
    have "offset div ?K * ?K + offset mod ?K + ?n \<le> length (concat (fs_blocks f))"
      using size_blocks [OF assms] False unfolding o by auto
    from read_blocks_correct [OF blocks _ this]
    have r: "read_blocks (fs_blocks f) (offset div ?K) (offset mod ?K) ?n = take ?n (drop offset (concat (fs_blocks f)))"
      unfolding o by simp
    obtain k where k: "k = ?n" by blast
    have "k \<le> ?K - offset mod ?K \<Longrightarrow> take k (drop (offset mod ?K) (fs_blocks f ! (offset div ?K))) =
        read_blocks (fs_blocks f) (offset div ?K) (offset mod ?K) k"
      using pos unfolding k [symmetric]
      by (subst read_blocks.simps) (auto simp: Let_def read_blocks.simps [of _ _ _ 0])
    then show ?thesis using False pos r unfolding fs_Read_def t Let_def k [symmetric] by simp
  qed
qed (simp add: fs_Read_def)

section \<open>What the clients rely on\<close>

text \<open>Writing and reading files: what is appended is what the file holds, and reading in sequence gives what was not yet read.\<close>

locale appendable =
  fixes append :: "bytes \<Rightarrow> 'f \<Rightarrow> ldb_status \<times> 'f" and flush :: "'f \<Rightarrow> ldb_status \<times> 'f" and holds :: "'f \<Rightarrow> bytes" and valid :: "'f \<Rightarrow> bool"
  assumes append_ok: "valid f \<Longrightarrow> append d f = (st, f') \<Longrightarrow> st = StatusOK \<and> valid f' \<and> holds f' = holds f @ d"
    and flush_ok: "valid f \<Longrightarrow> flush f = (st, f') \<Longrightarrow> st = StatusOK \<and> valid f' \<and> holds f' = holds f"

locale readable =
  fixes read :: "nat \<Rightarrow> 'g \<Rightarrow> (ldb_status \<times> bytes) \<times> 'g" and unread :: "'g \<Rightarrow> bytes" and good :: "'g \<Rightarrow> bool"
  assumes read_ok: "good g \<Longrightarrow> read n g = ((st, d), g') \<Longrightarrow>
    st = StatusOK \<and> d = take n (unread g) \<and> good g' \<and> unread g' = drop n (unread g)"

definition wf_Append :: "bytes \<Rightarrow> bytes \<Rightarrow> file_state \<Rightarrow> ldb_status \<times> file_state" where
  "wf_Append fresh d f = (StatusOK, fs_Append fresh d f)"

definition wf_Flush :: "file_state \<Rightarrow> ldb_status \<times> file_state" where
  "wf_Flush f = (StatusOK, f)"

definition fresh_block :: bytes where
  "fresh_block = replicate kFileBlockSize 0"

definition seq_unread :: "seq_file \<Rightarrow> bytes" where
  "seq_unread s = drop (sf_pos s) (contents (sf_file s))"

definition seq_inv :: "seq_file \<Rightarrow> bool" where
  "seq_inv s \<longleftrightarrow> fs_inv (sf_file s) \<and> sf_pos s \<le> fs_size (sf_file s)"

interpretation memfile: appendable "wf_Append fresh_block" wf_Flush contents fs_inv
  by unfold_locales
    (use fs_Append_correct [of fresh_block] in \<open>auto simp: wf_Append_def wf_Flush_def fresh_block_def\<close>)

interpretation memseq: readable sf_Read seq_unread seq_inv
proof
  fix g n st d g'
  assume g: "seq_inv g" and "sf_Read n g = ((st, d), g')"
  then have "st = StatusOK" "d = take n (seq_unread g)" "g' = g\<lparr>sf_pos := sf_pos g + length d\<rparr>"
    by (auto simp: sf_Read_def seq_inv_def seq_unread_def fs_Read_correct)
  moreover from this g have "seq_inv g'" by (auto simp: seq_inv_def seq_unread_def min_def)
  moreover have "drop (length (take n xs)) xs = drop n xs" for xs :: bytes by (cases "n \<le> length xs") simp_all
  then have "seq_unread g' = drop n (seq_unread g)"
    using calculation(2,3) by (metis drop_drop add.commute seq_unread_def seq_file.select_convs seq_file.simps(5,6) seq_file.surjective seq_file.update_convs(2))
  ultimately show "st = StatusOK \<and> d = take n (seq_unread g) \<and> seq_inv g' \<and> seq_unread g' = drop n (seq_unread g)" by blast
qed

end
