(* ===== verification/LogFormat.thy ===== *)
theory LogFormat
  imports Checksums MemFile
begin

unbundle bit_operations_syntax

text \<open>
  The log of LevelDB (\<open>db/log_format.h\<close>, \<open>db/log_writer\<close>, \<open>db/log_reader\<close>). The writer cuts a record into fragments that do not
  cross the blocks of 32 KB; the reader reads a block at a time, checks every fragment and puts the records together. The
  operations of the files are arguments. Status values that the writer does not look at are dropped; the reports of the
  reader are kept in its state, without the number in the message on an unknown type.
\<close>

section \<open>\<open>log_format.h\<close>\<close>

definition kZeroType :: u32 where "kZeroType = 0"
definition kFullType :: u32 where "kFullType = 1"
definition kFirstType :: u32 where "kFirstType = 2"
definition kMiddleType :: u32 where "kMiddleType = 3"
definition kLastType :: u32 where "kLastType = 4"
definition kEof :: u32 where "kEof = 5"
definition kBadRecord :: u32 where "kBadRecord = 6"

definition kBlockSize :: nat where "kBlockSize = 32768"
definition kHeaderSize :: nat where "kHeaderSize = 4 + 2 + 1"

lemmas record_types = kZeroType_def kFullType_def kFirstType_def kMiddleType_def kLastType_def kEof_def kBadRecord_def

section \<open>The writer\<close>

record 'f log_writer =
  lw_dest :: 'f
  lw_block_offset :: nat

type_synonym 'f appender = "bytes \<Rightarrow> 'f \<Rightarrow> ldb_status \<times> 'f"
type_synonym 'f flusher = "'f \<Rightarrow> ldb_status \<times> 'f"

text \<open>\<open>InitTypeCrc\<close>. The address of a buffer does not influence its checksum.\<close>

definition type_crc :: "u32 \<Rightarrow> u32" where
  "type_crc t = Crc_Value 0 [ucast t]"

definition record_header :: "u32 \<Rightarrow> bytes \<Rightarrow> bytes" where
  "record_header t data =
     (let n = length data; crc = Mask (Extend 0 (type_crc t) data)
      in EncodeFixed32 crc @ [word_of_nat (n mod 256), word_of_nat (n div 256), ucast t])"

definition EmitPhysicalRecord :: "'f appender \<Rightarrow> 'f flusher \<Rightarrow> u32 \<Rightarrow> bytes \<Rightarrow> 'f log_writer \<Rightarrow> ldb_status \<times> 'f log_writer" where
  "EmitPhysicalRecord fappend fflush t data w =
     (let (s, f) = fappend (record_header t data) (lw_dest w);
          (s, f) = (if s = StatusOK
                    then let (s, f) = fappend data f in if s = StatusOK then fflush f else (s, f)
                    else (s, f))
      in (s, w\<lparr>lw_dest := f, lw_block_offset := lw_block_offset w + kHeaderSize + length data\<rparr>))"

definition fragment_type :: "bool \<Rightarrow> bool \<Rightarrow> u32" where
  "fragment_type first final =
     (if first \<and> final then kFullType else if first then kFirstType else if final then kLastType else kMiddleType)"

text \<open>The body of the loop up to the fragment: a trailer too small for a header is filled with zeros.\<close>

definition switch_block :: "'f appender \<Rightarrow> 'f log_writer \<Rightarrow> 'f log_writer" where
  "switch_block fappend w =
     (let leftover = kBlockSize - lw_block_offset w in
      if leftover < kHeaderSize
      then w\<lparr>lw_dest := (if leftover > 0 then snd (fappend (replicate leftover 0) (lw_dest w)) else lw_dest w), lw_block_offset := 0\<rparr>
      else w)"

lemma switch_block_offset [simp]:
  "lw_block_offset (switch_block fappend w) = (if kBlockSize - lw_block_offset w < kHeaderSize then 0 else lw_block_offset w)"
  by (simp add: switch_block_def Let_def)

lemma Emit_offset: "lw_block_offset (snd (EmitPhysicalRecord fappend fflush t data w)) = lw_block_offset w + kHeaderSize + length data"
  by (simp add: EmitPhysicalRecord_def split_beta)

function add_loop :: "'f appender \<Rightarrow> 'f flusher \<Rightarrow> bytes \<Rightarrow> bool \<Rightarrow> 'f log_writer \<Rightarrow> ldb_status \<times> 'f log_writer" where
  "add_loop fappend fflush left first w =
     (let w1 = switch_block fappend w;
          avail = kBlockSize - lw_block_offset w1 - kHeaderSize;
          fragment_length = (if length left < avail then length left else avail);
          final = (length left = fragment_length);
          (s, w2) = EmitPhysicalRecord fappend fflush (fragment_type first final) (take fragment_length left) w1
      in if s = StatusOK \<and> drop fragment_length left \<noteq> [] then add_loop fappend fflush (drop fragment_length left) False w2
         else (s, w2))"
  by pat_completeness auto
termination
proof (relation "measure (\<lambda>(fappend, fflush, left, first, w).
    2 * length left + (if kBlockSize - lw_block_offset w = kHeaderSize then 1 else 0))", goal_cases)
  case (2 fappend fflush left first w w1 avail fragment_length final r s w2)
  have w1: "lw_block_offset w1 = (if kBlockSize - lw_block_offset w < kHeaderSize then 0 else lw_block_offset w)" using 2 by simp
  have f: "fragment_length = avail" "avail < length left" using 2 by (auto split: if_splits)
  have "lw_block_offset w2 = lw_block_offset w1 + kHeaderSize + length (take fragment_length left)"
    using 2(5,6) Emit_offset by (metis snd_conv)
  then have "kBlockSize - lw_block_offset w2 \<noteq> kHeaderSize"
    using f w1 2(2) by (auto simp: kBlockSize_def kHeaderSize_def split: if_splits)
  then show ?case using f 2(2) w1 by (auto simp: kBlockSize_def kHeaderSize_def split: if_splits)
qed simp

declare add_loop.simps [simp del]

definition AddRecord :: "'f appender \<Rightarrow> 'f flusher \<Rightarrow> bytes \<Rightarrow> 'f log_writer \<Rightarrow> ldb_status \<times> 'f log_writer" where
  "AddRecord fappend fflush data w = add_loop fappend fflush data True w"

definition new_writer :: "'f \<Rightarrow> nat \<Rightarrow> 'f log_writer" where
  "new_writer dest dest_length = \<lparr>lw_dest = dest, lw_block_offset = dest_length mod kBlockSize\<rparr>"

section \<open>The reader\<close>

record 'g log_reader =
  lr_file :: 'g
  lr_checksum :: bool
  lr_buffer :: bytes
  lr_eof :: bool
  lr_last_record_offset :: u64
  lr_end_of_buffer_offset :: u64
  lr_initial_offset :: u64
  lr_resyncing :: bool
  lr_reports :: "(nat \<times> ldb_status) list"

type_synonym 'g reader_fun = "nat \<Rightarrow> 'g \<Rightarrow> (ldb_status \<times> bytes) \<times> 'g"

definition new_reader :: "'g \<Rightarrow> bool \<Rightarrow> u64 \<Rightarrow> 'g log_reader" where
  "new_reader file verify initial_offset =
     \<lparr>lr_file = file, lr_checksum = verify, lr_buffer = [], lr_eof = False, lr_last_record_offset = 0,
      lr_end_of_buffer_offset = 0, lr_initial_offset = initial_offset, lr_resyncing = (initial_offset > 0), lr_reports = []\<rparr>"

definition ReportDrop :: "nat \<Rightarrow> ldb_status \<Rightarrow> 'g log_reader \<Rightarrow> 'g log_reader" where
  "ReportDrop n reason r =
     (if lr_end_of_buffer_offset r - word_of_nat (length (lr_buffer r)) - word_of_nat n \<ge> lr_initial_offset r
      then r\<lparr>lr_reports := lr_reports r @ [(n, reason)]\<rparr> else r)"

definition ReportCorruption :: "nat \<Rightarrow> string \<Rightarrow> 'g log_reader \<Rightarrow> 'g log_reader" where
  "ReportCorruption n reason = ReportDrop n (Corruption reason)"

text \<open>Parsing the fragment at the start of the buffer.\<close>

definition parse_physical :: "bytes \<Rightarrow> 'g log_reader \<Rightarrow> (u32 \<times> bytes) \<times> 'g log_reader" where
  "parse_physical result r =
     (let header = lr_buffer r;
          a = ucast (header ! 4); b = ucast (header ! 5);
          type = scast (header ! 6) :: u32;
          len = unat (a OR push_bit 8 b :: u32)
      in if kHeaderSize + len > length header then
           let r' = r\<lparr>lr_buffer := []\<rparr> in
           if \<not> lr_eof r then ((kBadRecord, result), ReportCorruption (length header) ''bad record length'' r') else ((kEof, result), r')
         else if type = kZeroType \<and> len = 0 then ((kBadRecord, result), r\<lparr>lr_buffer := []\<rparr>)
         else if lr_checksum r \<and> Crc_Value 0 (take (1 + len) (drop 6 header)) \<noteq> Unmask (DecodeFixed32 header) then
           ((kBadRecord, result), ReportCorruption (length header) ''checksum mismatch'' (r\<lparr>lr_buffer := []\<rparr>))
         else
           let r' = r\<lparr>lr_buffer := drop (kHeaderSize + len) header\<rparr> in
           if lr_end_of_buffer_offset r' - word_of_nat (length (lr_buffer r')) - word_of_nat kHeaderSize - word_of_nat len < lr_initial_offset r'
           then ((kBadRecord, []), r')
           else ((type, take len (drop kHeaderSize header)), r'))"

text \<open>The loop reads at most one block: afterwards the buffer holds a header or the end of the file was reached.\<close>

function ReadPhysicalRecord :: "'g reader_fun \<Rightarrow> bytes \<Rightarrow> 'g log_reader \<Rightarrow> (u32 \<times> bytes) \<times> 'g log_reader" where
  "ReadPhysicalRecord read result r =
     (if length (lr_buffer r) < kHeaderSize then
        if \<not> lr_eof r then
          let ((status, block), file) = read kBlockSize (lr_file r);
              r' = r\<lparr>lr_file := file, lr_buffer := block,
                     lr_end_of_buffer_offset := lr_end_of_buffer_offset r + word_of_nat (length block)\<rparr>
          in if status \<noteq> StatusOK then
               ((kEof, result), (ReportDrop kBlockSize status (r'\<lparr>lr_buffer := []\<rparr>))\<lparr>lr_eof := True\<rparr>)
             else ReadPhysicalRecord read result (if length block < kBlockSize then r'\<lparr>lr_eof := True\<rparr> else r')
        else ((kEof, result), r\<lparr>lr_buffer := []\<rparr>)
      else parse_physical result r)"
  by pat_completeness auto
termination
  by (relation "measure (\<lambda>(read, result, r). if length (lr_buffer r) < kHeaderSize \<and> \<not> lr_eof r then 1 else 0)")
    (auto simp: kHeaderSize_def kBlockSize_def)

declare ReadPhysicalRecord.simps [simp del]

definition SkipToInitialBlock :: "(nat \<Rightarrow> 'g \<Rightarrow> ldb_status \<times> 'g) \<Rightarrow> 'g log_reader \<Rightarrow> bool \<times> 'g log_reader" where
  "SkipToInitialBlock skip r =
     (let offset_in_block = lr_initial_offset r mod word_of_nat kBlockSize;
          start = lr_initial_offset r - offset_in_block;
          start = (if offset_in_block > word_of_nat (kBlockSize - 6) then start + word_of_nat kBlockSize else start);
          r = r\<lparr>lr_end_of_buffer_offset := start\<rparr>
      in if start > 0 then
           let (status, file) = skip (unat start) (lr_file r); r = r\<lparr>lr_file := file\<rparr> in
           if status \<noteq> StatusOK then (False, ReportDrop (unat start) status r) else (True, r)
         else (True, r))"

text \<open>What \<open>ReadRecord\<close> does with one fragment: return a record, report the end of the log, or go on with what it collected so far.\<close>

datatype read_step = Return bytes | AtEnd | Go bool bytes u64

definition take_fragment :: "u32 \<Rightarrow> bytes \<Rightarrow> bool \<Rightarrow> bytes \<Rightarrow> u64 \<Rightarrow> 'g log_reader \<Rightarrow> read_step \<times> 'g log_reader" where
  "take_fragment type fragment in_fragmented scratch prospective r =
     (let offset = lr_end_of_buffer_offset r - word_of_nat (length (lr_buffer r)) - word_of_nat kHeaderSize - word_of_nat (length fragment)
      in if type = kFullType then
           (Return fragment,
            (if in_fragmented \<and> scratch \<noteq> [] then ReportCorruption (length scratch) ''partial record without end(1)'' r else r)
              \<lparr>lr_last_record_offset := offset\<rparr>)
         else if type = kFirstType then
           (Go True fragment offset,
            if in_fragmented \<and> scratch \<noteq> [] then ReportCorruption (length scratch) ''partial record without end(2)'' r else r)
         else if type = kMiddleType then
           if \<not> in_fragmented
           then (Go in_fragmented scratch prospective, ReportCorruption (length fragment) ''missing start of fragmented record(1)'' r)
           else (Go in_fragmented (scratch @ fragment) prospective, r)
         else if type = kLastType then
           if \<not> in_fragmented
           then (Go in_fragmented scratch prospective, ReportCorruption (length fragment) ''missing start of fragmented record(2)'' r)
           else (Return (scratch @ fragment), r\<lparr>lr_last_record_offset := prospective\<rparr>)
         else if type = kEof then (AtEnd, r)
         else if type = kBadRecord then
           if in_fragmented then (Go False [] prospective, ReportCorruption (length scratch) ''error in middle of record'' r)
           else (Go in_fragmented scratch prospective, r)
         else
           (Go False [] prospective,
            ReportCorruption (length fragment + (if in_fragmented then length scratch else 0)) ''unknown record type'' r))"

partial_function (option) read_loop ::
  "'g reader_fun \<Rightarrow> bool \<Rightarrow> bytes \<Rightarrow> u64 \<Rightarrow> bytes \<Rightarrow> 'g log_reader \<Rightarrow> (bytes option \<times> 'g log_reader) option" where
  "read_loop read in_fragmented scratch prospective fragment r =
     (case ReadPhysicalRecord read fragment r of ((type, fragment), r) \<Rightarrow>
        if lr_resyncing r \<and> type = kMiddleType then read_loop read in_fragmented scratch prospective fragment r
        else if lr_resyncing r \<and> type = kLastType then
          read_loop read in_fragmented scratch prospective fragment (r\<lparr>lr_resyncing := False\<rparr>)
        else (case take_fragment type fragment in_fragmented scratch prospective (r\<lparr>lr_resyncing := False\<rparr>) of
                (Return record, r) \<Rightarrow> Some (Some record, r)
              | (AtEnd, r) \<Rightarrow> Some (None, r)
              | (Go in_fragmented scratch prospective, r) \<Rightarrow> read_loop read in_fragmented scratch prospective fragment r))"

definition ReadRecord ::
  "'g reader_fun \<Rightarrow> (nat \<Rightarrow> 'g \<Rightarrow> ldb_status \<times> 'g) \<Rightarrow> 'g log_reader \<Rightarrow> (bytes option \<times> 'g log_reader) option" where
  "ReadRecord read skip r =
     (if lr_last_record_offset r < lr_initial_offset r
      then (case SkipToInitialBlock skip r of (ok, r) \<Rightarrow> if ok then read_loop read False [] 0 [] r else Some (None, r))
      else read_loop read False [] 0 [] r)"

end
