(* ===== verification/LogRecovery.thy ===== *)
theory LogRecovery
  imports LogFormat
begin

unbundle bit_operations_syntax

text \<open>
  What the log guarantees: a log cut off anywhere, as by a crash, is read without an error and gives the records written
  before the cut. The proof goes through the layout of fragments, which the writer produces and the reader takes apart.
\<close>

section \<open>The layout of fragments\<close>

type_synonym fragment = "u32 \<times> bytes"

definition phys :: "u32 \<Rightarrow> bytes \<Rightarrow> bytes" where
  "phys t d = record_header t d @ d"

text \<open>Where the next fragment starts and the zeros before it.\<close>

definition place :: "nat \<Rightarrow> nat" where
  "place off = (if kBlockSize - off < kHeaderSize then 0 else off)"

definition pad :: "nat \<Rightarrow> bytes" where
  "pad off = (if kBlockSize - off < kHeaderSize then replicate (kBlockSize - off) 0 else [])"

definition next_off :: "nat \<Rightarrow> bytes \<Rightarrow> nat" where
  "next_off off d = place off + kHeaderSize + length d"

fun layout :: "nat \<Rightarrow> fragment list \<Rightarrow> bytes" where
  "layout off [] = []"
| "layout off ((t, d) # fs) = pad off @ phys t d @ layout (next_off off d) fs"

fun end_off :: "nat \<Rightarrow> fragment list \<Rightarrow> nat" where
  "end_off off [] = off"
| "end_off off ((t, d) # fs) = end_off (next_off off d) fs"

definition good_fragment :: "nat \<Rightarrow> u32 \<Rightarrow> bytes \<Rightarrow> bool" where
  "good_fragment off t d \<longleftrightarrow> t \<in> {kFullType, kFirstType, kMiddleType, kLastType} \<and> next_off off d \<le> kBlockSize"

fun fits :: "nat \<Rightarrow> fragment list \<Rightarrow> bool" where
  "fits off [] \<longleftrightarrow> True"
| "fits off ((t, d) # fs) \<longleftrightarrow> good_fragment off t d \<and> fits (next_off off d) fs"

text \<open>The fragments of one record.\<close>

fun assembles :: "bool \<Rightarrow> bytes \<Rightarrow> fragment list \<Rightarrow> bool" where
  "assembles first data [] \<longleftrightarrow> False"
| "assembles first data ((t, d) # fs) \<longleftrightarrow>
     t = fragment_type first (fs = []) \<and> (if fs = [] then d = data else \<exists>rest. data = d @ rest \<and> assembles False rest fs)"

lemma layout_append: "layout off (fs @ gs) = layout off fs @ layout (end_off off fs) gs"
  by (induction off fs rule: layout.induct) auto

lemma end_off_append: "end_off off (fs @ gs) = end_off (end_off off fs) gs"
  by (induction off fs rule: layout.induct) auto

lemma fits_append: "fits off (fs @ gs) \<longleftrightarrow> fits off fs \<and> fits (end_off off fs) gs"
  by (induction off fs rule: layout.induct) auto

lemma place_room: "place off + kHeaderSize \<le> kBlockSize"
  by (auto simp: place_def kBlockSize_def kHeaderSize_def)

lemma end_off_bound: "off \<le> kBlockSize \<Longrightarrow> fits off fs \<Longrightarrow> end_off off fs \<le> kBlockSize"
  by (induction off fs rule: layout.induct) (auto simp: good_fragment_def)

lemma length_header [simp]: "length (record_header t d) = kHeaderSize"
  by (simp add: record_header_def Let_def kHeaderSize_def)

lemma length_phys [simp]: "length (phys t d) = kHeaderSize + length d"
  by (simp add: phys_def)

lemma length_pad: "off \<le> kBlockSize \<Longrightarrow> length (pad off) = (if kBlockSize - off < kHeaderSize then kBlockSize - off else 0)"
  by (simp add: pad_def)

section \<open>The writer produces it\<close>

context appendable
begin

lemma switch_block_layout:
  assumes "valid (lw_dest w)"
  shows "valid (lw_dest (switch_block append w))" "holds (lw_dest (switch_block append w)) = holds (lw_dest w) @ pad (lw_block_offset w)"
    "lw_block_offset (switch_block append w) = place (lw_block_offset w)"
proof -
  obtain st f where a: "append (replicate (kBlockSize - lw_block_offset w) 0) (lw_dest w) = (st, f)" by fastforce
  then show "valid (lw_dest (switch_block append w))" "holds (lw_dest (switch_block append w)) = holds (lw_dest w) @ pad (lw_block_offset w)"
    "lw_block_offset (switch_block append w) = place (lw_block_offset w)"
    using append_ok [OF assms a] assms by (auto simp: switch_block_def Let_def pad_def place_def)
qed

lemma Emit_layout:
  assumes "valid (lw_dest w)"
  obtains w' where "EmitPhysicalRecord append flush t d w = (StatusOK, w')" "valid (lw_dest w')"
    "holds (lw_dest w') = holds (lw_dest w) @ phys t d" "lw_block_offset w' = lw_block_offset w + kHeaderSize + length d"
proof -
  obtain s1 f1 where 1: "append (record_header t d) (lw_dest w) = (s1, f1)" by fastforce
  obtain s2 f2 where 2: "append d f1 = (s2, f2)" by fastforce
  obtain s3 f3 where 3: "flush f2 = (s3, f3)" by fastforce
  have "s1 = StatusOK" "valid f1" "holds f1 = holds (lw_dest w) @ record_header t d" using append_ok [OF assms 1] by auto
  moreover from this have "s2 = StatusOK" "valid f2" "holds f2 = holds f1 @ d" using append_ok [OF _ 2] by auto
  moreover from this have "s3 = StatusOK" "valid f3" "holds f3 = holds f2" using flush_ok [OF _ 3] by auto
  ultimately show thesis using 1 2 3
    by (intro that [of "w\<lparr>lw_dest := f3, lw_block_offset := lw_block_offset w + kHeaderSize + length d\<rparr>"])
      (simp_all add: EmitPhysicalRecord_def phys_def)
qed

lemma add_loop_layout:
  assumes "valid (lw_dest w)" "lw_block_offset w \<le> kBlockSize"
  shows "\<exists>w' fs. add_loop append flush left first w = (StatusOK, w') \<and> valid (lw_dest w') \<and>
    holds (lw_dest w') = holds (lw_dest w) @ layout (lw_block_offset w) fs \<and>
    lw_block_offset w' = end_off (lw_block_offset w) fs \<and> fits (lw_block_offset w) fs \<and> assembles first left fs"
  using assms
proof (induction "2 * length left + (if kBlockSize - lw_block_offset w = kHeaderSize then 1 else 0 :: nat)"
    arbitrary: left first w rule: less_induct)
  case less
  let ?w1 = "switch_block append w" and ?o = "lw_block_offset w"
  define n where "n = min (length left) (kBlockSize - place ?o - kHeaderSize)"
  define t where "t = fragment_type first (length left = n)"
  note w1 = switch_block_layout [OF less.prems(1)]
  obtain w2 where w2: "EmitPhysicalRecord append flush t (take n left) ?w1 = (StatusOK, w2)" "valid (lw_dest w2)"
    "holds (lw_dest w2) = holds (lw_dest ?w1) @ phys t (take n left)" "lw_block_offset w2 = lw_block_offset ?w1 + kHeaderSize + length (take n left)"
    using Emit_layout [OF w1(1)] by blast
  have step: "add_loop append flush left first w =
      (if drop n left \<noteq> [] then add_loop append flush (drop n left) False w2 else (StatusOK, w2))"
  proof -
    have "(if length left < kBlockSize - lw_block_offset ?w1 - kHeaderSize then length left
        else kBlockSize - lw_block_offset ?w1 - kHeaderSize) = n"
      unfolding w1(3) n_def by simp
    then show ?thesis
      by (subst add_loop.simps) (simp only: Let_def t_def [symmetric] w2(1) prod.case simp_thms)
  qed
  have off: "lw_block_offset w2 = next_off ?o (take n left)" using w2(4) w1(3) by (simp add: next_off_def)
  have good: "good_fragment ?o t (take n left)"
    using place_room [of ?o] by (auto simp: good_fragment_def t_def fragment_type_def next_off_def n_def)
  have holds: "holds (lw_dest w2) = holds (lw_dest w) @ pad ?o @ phys t (take n left)" using w2(3) w1(2) by simp
  show ?case
  proof (cases "drop n left = []")
    case True
    then have "length left = n" "take n left = left" by (auto simp: n_def)
    then show ?thesis using True step w2(2) holds off good
      by (intro exI [of _ w2] exI [of _ "[(t, left)]"]) (simp add: t_def)
  next
    case False
    then have n: "n = kBlockSize - place ?o - kHeaderSize" "n < length left" by (auto simp: n_def)
    then have o2: "lw_block_offset w2 = kBlockSize" using off place_room [of ?o] by (simp add: next_off_def)
    have "n = 0 \<Longrightarrow> kBlockSize - ?o = kHeaderSize"
      using n(1) place_room [of ?o] less.prems(2) by (auto simp: place_def kBlockSize_def kHeaderSize_def split: if_splits)
    then have "2 * length (drop n left) + (if kBlockSize - lw_block_offset w2 = kHeaderSize then 1 else 0 :: nat)
        < 2 * length left + (if kBlockSize - ?o = kHeaderSize then 1 else 0)"
      using n(2) o2 by (cases "n = 0") (auto simp: kHeaderSize_def)
    from less.hyps [OF this w2(2), of False] o2 obtain w' fs where
      w': "add_loop append flush (drop n left) False w2 = (StatusOK, w')" "valid (lw_dest w')"
      "holds (lw_dest w') = holds (lw_dest w2) @ layout (lw_block_offset w2) fs" "lw_block_offset w' = end_off (lw_block_offset w2) fs"
      "fits (lw_block_offset w2) fs" "assembles False (drop n left) fs" by auto
    then have "fs \<noteq> []" by (cases fs) auto
    then show ?thesis using w' False step holds off good n(2)
      by (intro exI [of _ w'] exI [of _ "(t, take n left) # fs"]) (auto simp: t_def intro!: exI [of _ "drop n left"])
  qed
qed

lemma AddRecord_layout:
  assumes "valid (lw_dest w)" "lw_block_offset w \<le> kBlockSize"
  obtains w' fs where "AddRecord append flush data w = (StatusOK, w')" "valid (lw_dest w')"
    "holds (lw_dest w') = holds (lw_dest w) @ layout (lw_block_offset w) fs" "lw_block_offset w' = end_off (lw_block_offset w) fs"
    "fits (lw_block_offset w) fs" "assembles True data fs"
  using add_loop_layout [OF assms, of data True] that unfolding AddRecord_def by blast

end

section \<open>Parsing a fragment\<close>

lemma record_header_bytes:
  "record_header t d = EncodeFixed32 (Mask (Extend 0 (type_crc t) d)) @
     [word_of_nat (length d mod 256), word_of_nat (length d div 256), ucast t]"
  by (simp add: record_header_def Let_def)

lemma header_nth:
  assumes "b = record_header t d @ p"
  shows "b ! 4 = word_of_nat (length d mod 256)" "b ! 5 = word_of_nat (length d div 256)" "b ! 6 = ucast t"
    "DecodeFixed32 b = Mask (Extend 0 (type_crc t) d)" "drop 6 b = ucast t # p" "drop kHeaderSize b = p" "length b = kHeaderSize + length p"
  using assms by (simp_all add: record_header_bytes nth_append nth_Cons' kHeaderSize_def)

lemma length_field:
  assumes "n < 65536"
  shows "unat (ucast (word_of_nat (n mod 256) :: byte) OR push_bit 8 (ucast (word_of_nat (n div 256) :: byte)) :: u32) = n"
proof -
  let ?lo = "n mod 256" and ?hi = "n div 256"
  have hi: "?hi < 256" using assms by (simp add: div_less_iff_less_mult)
  have c: "ucast (word_of_nat k :: byte) = (word_of_nat k :: u32)" if "k < 256" for k
    using that by (simp add: unsigned_of_nat take_bit_nat_eq_self)
  have "?lo AND push_bit 8 ?hi = 0"
    by (rule bit_eqI) (auto simp: bit_and_iff bit_push_bit_iff bit_take_bit_iff simp flip: take_bit_eq_mod [of 8 n, simplified])
  then have "?lo OR push_bit 8 ?hi = ?lo + push_bit 8 ?hi" by (simp add: disjunctive_add_eq_or)
  also have "\<dots> = n" by (simp add: push_bit_eq_mult)
  finally have "(word_of_nat ?lo OR push_bit 8 (word_of_nat ?hi) :: u32) = word_of_nat n"
    by (metis of_nat_or_eq of_nat_push_bit)
  then show ?thesis using hi assms by (simp only: c mod_less_divisor) (simp add: c unsigned_of_nat take_bit_nat_eq_self)
qed

lemma type_byte:
  "t \<in> {kFullType, kFirstType, kMiddleType, kLastType} \<Longrightarrow> scast (ucast t :: byte) = t \<and> t \<noteq> kZeroType \<and> t \<noteq> kEof \<and> t \<noteq> kBadRecord"
  by (auto simp: record_types)

lemma parse_fragment:
  assumes "lr_buffer r = phys t d @ rest" "good_fragment off t d" "lr_initial_offset r = 0"
  shows "parse_physical result r = ((t, d), r\<lparr>lr_buffer := rest\<rparr>)"
proof -
  have b: "lr_buffer r = record_header t d @ d @ rest" using assms(1) by (simp add: phys_def)
  note h = header_nth [OF b]
  have n: "length d < 65536" using assms(2) by (simp add: good_fragment_def next_off_def kBlockSize_def kHeaderSize_def)
  have t: "scast (ucast t :: byte) = t" "t \<noteq> kZeroType" using assms(2) type_byte by (auto simp: good_fragment_def)
  have "Crc_Value 0 (ucast t # d) = Unmask (DecodeFixed32 (lr_buffer r))"
    unfolding h(4) Crc_Value_def type_crc_def using crc.stored_checksum [of 0 0 "[ucast t]" d] by simp
  moreover have "drop (kHeaderSize + length d) (lr_buffer r) = rest" using assms(1) by simp
  moreover have "take (1 + length d) (drop 6 (lr_buffer r)) = ucast t # d" unfolding h(5) by simp
  moreover have "take (length d) (drop kHeaderSize (lr_buffer r)) = d" unfolding h(6) by simp
  moreover have "\<not> length (lr_buffer r) < kHeaderSize + length d" unfolding h(7) by simp
  ultimately show ?thesis
    using t assms(3) unfolding parse_physical_def Let_def h(1-3) length_field [OF n]
    by simp
qed

lemma parse_cut_fragment:
  assumes "lr_buffer r = take k (phys t d)" "kHeaderSize \<le> k" "k < kHeaderSize + length d" "good_fragment off t d" "lr_eof r"
  shows "parse_physical result r = ((kEof, result), r\<lparr>lr_buffer := []\<rparr>)"
proof -
  have b: "lr_buffer r = record_header t d @ take (k - kHeaderSize) d" using assms(1,2) by (simp add: phys_def)
  note h = header_nth [OF b]
  have n: "length d < 65536" using assms(4) by (simp add: good_fragment_def next_off_def kBlockSize_def kHeaderSize_def)
  show ?thesis
    using assms(2,3,5) unfolding parse_physical_def Let_def h(1-3) length_field [OF n] h(7) by simp
qed

section \<open>The reader takes it apart\<close>

lemma read_loop_step:
  assumes "ReadPhysicalRecord read fragment r = ((t, d), r1)" "\<not> lr_resyncing r1"
  shows "read_loop read in_fragmented scratch prospective fragment r =
    (case take_fragment t d in_fragmented scratch prospective r1 of
       (Return record, r) \<Rightarrow> Some (Some record, r)
     | (AtEnd, r) \<Rightarrow> Some (None, r)
     | (Go in_fragmented scratch prospective, r) \<Rightarrow> read_loop read in_fragmented scratch prospective d r)"
proof -
  have e: "r1\<lparr>lr_resyncing := False\<rparr> = r1" using assms(2) by (cases r1) simp
  show ?thesis
    by (subst read_loop.simps) (simp only: assms(1) prod.case e assms(2) simp_thms if_False)
qed

context readable
begin

text \<open>The reader stands at offset \<open>off\<close> of a block and has the bytes \<open>S\<close> before it, in its buffer and in the file.\<close>

definition standing :: "nat \<Rightarrow> bytes \<Rightarrow> 'g log_reader \<Rightarrow> bool" where
  "standing off S r \<longleftrightarrow> good (lr_file r) \<and> lr_initial_offset r = 0 \<and> \<not> lr_resyncing r \<and>
     (if lr_eof r then lr_buffer r = S \<and> length S < kBlockSize - off
      else lr_buffer r = take (kBlockSize - off) S \<and> unread (lr_file r) = drop (kBlockSize - off) S \<and> kBlockSize - off \<le> length S)"

text \<open>At the end of a block the next one is read.\<close>

lemma next_block:
  assumes r: "standing off S r" "\<not> lr_eof r" "kBlockSize - off < kHeaderSize"
  obtains r' where "ReadPhysicalRecord read result r = ReadPhysicalRecord read result r'"
    "standing 0 (drop (kBlockSize - off) S) r'" "lr_reports r' = lr_reports r"
proof -
  obtain st b g where b: "read kBlockSize (lr_file r) = ((st, b), g)" by (metis surj_pair)
  have ok: "st = StatusOK" "b = take kBlockSize (drop (kBlockSize - off) S)" "good g" "unread g = drop kBlockSize (drop (kBlockSize - off) S)"
    using read_ok [OF _ b] r by (auto simp: standing_def)
  let ?r = "r\<lparr>lr_file := g, lr_buffer := b, lr_end_of_buffer_offset := lr_end_of_buffer_offset r + word_of_nat (length b),
    lr_eof := (length b < kBlockSize)\<rparr>"
  have "length (lr_buffer r) < kHeaderSize" using r by (auto simp: standing_def)
  then have "ReadPhysicalRecord read result r = ReadPhysicalRecord read result ?r"
    using r(2) b ok(1) by (subst ReadPhysicalRecord.simps, cases r) (auto simp: Let_def)
  moreover have "standing 0 (drop (kBlockSize - off) S) ?r"
    using r(1) ok by (auto simp: standing_def)
  ultimately show thesis using that [of ?r] by simp
qed

lemma read_fragment_here:
  assumes "standing off (phys t d @ S) r" "off + kHeaderSize + length d \<le> kBlockSize" "good_fragment o' t d"
  obtains r' where "ReadPhysicalRecord read result r = ((t, d), r')" "standing (off + kHeaderSize + length d) S r'"
    "lr_reports r' = lr_reports r"
proof -
  define B where "B = (if lr_eof r then S else take (kBlockSize - (off + kHeaderSize + length d)) S)"
  have b: "lr_buffer r = phys t d @ B"
    using assms(1,2) by (auto simp: standing_def B_def add.assoc)
  then have "ReadPhysicalRecord read result r = parse_physical result r"
    by (subst ReadPhysicalRecord.simps) simp
  also have "\<dots> = ((t, d), r\<lparr>lr_buffer := B\<rparr>)"
    using assms(1) by (intro parse_fragment [OF b assms(3)]) (simp add: standing_def)
  finally show thesis
    using assms(1,2) by (intro that [of "r\<lparr>lr_buffer := B\<rparr>"]) (auto simp: standing_def B_def add.assoc split: if_splits)
qed

lemma read_fragment:
  assumes r: "standing off (pad off @ phys t d @ S) r" "off \<le> kBlockSize" and f: "good_fragment off t d"
  obtains r' where "ReadPhysicalRecord read result r = ((t, d), r')" "standing (next_off off d) S r'" "lr_reports r' = lr_reports r"
proof (cases "kBlockSize - off < kHeaderSize")
  case True
  have "\<not> lr_eof r" using r True by (auto simp: standing_def pad_def)
  from next_block [OF r(1) this True, of result] obtain r1 where
    r1: "ReadPhysicalRecord read result r = ReadPhysicalRecord read result r1" "lr_reports r1 = lr_reports r"
    "standing 0 (phys t d @ S) r1" using True by (auto simp: pad_def)
  have "0 + kHeaderSize + length d \<le> kBlockSize" using f True by (simp add: good_fragment_def next_off_def place_def)
  from read_fragment_here [OF r1(3) this f, of result] show thesis
    using that r1 True by (auto simp: next_off_def place_def)
next
  case False
  then have "standing off (phys t d @ S) r" "off + kHeaderSize + length d \<le> kBlockSize"
    using r(1) f by (simp_all add: pad_def good_fragment_def next_off_def place_def)
  from read_fragment_here [OF this f, of result] show thesis using that False by (auto simp: next_off_def place_def)
qed

lemma read_cut_here:
  assumes "standing off S r" "lr_eof r" "S = take k (phys t d)" "k < kHeaderSize + length d" "good_fragment o' t d"
  obtains r' where "ReadPhysicalRecord read result r = ((kEof, result), r')" "lr_reports r' = lr_reports r" "\<not> lr_resyncing r'"
proof (cases "length (lr_buffer r) < kHeaderSize")
  case True
  then have "ReadPhysicalRecord read result r = ((kEof, result), r\<lparr>lr_buffer := []\<rparr>)"
    using assms(2) by (subst ReadPhysicalRecord.simps) simp
  then show thesis using that assms(1) by (auto simp: standing_def)
next
  case False
  have b: "lr_buffer r = take k (phys t d)" using assms(1-3) by (simp add: standing_def)
  then have "kHeaderSize \<le> k" using False by simp
  from parse_cut_fragment [OF b this assms(4,5,2), of result] False
  have "ReadPhysicalRecord read result r = ((kEof, result), r\<lparr>lr_buffer := []\<rparr>)"
    by (subst ReadPhysicalRecord.simps) simp
  then show thesis using that assms(1) by (auto simp: standing_def)
qed

lemma read_cut:
  assumes r: "standing off (take k (pad off @ phys t d)) r" "k < length (pad off @ phys t d)" "off \<le> kBlockSize"
    and f: "good_fragment off t d"
  obtains r' where "ReadPhysicalRecord read result r = ((kEof, result), r')" "lr_reports r' = lr_reports r" "\<not> lr_resyncing r'"
proof (cases "kBlockSize - off < kHeaderSize")
  case True
  show thesis
  proof (cases "lr_eof r")
    case eof: True
    then have "length (lr_buffer r) < kHeaderSize" using r(1) True by (simp add: standing_def)
    then have "ReadPhysicalRecord read result r = ((kEof, result), r\<lparr>lr_buffer := []\<rparr>)"
      using eof by (subst ReadPhysicalRecord.simps) simp
    then show thesis using that r(1) by (auto simp: standing_def)
  next
    case False
    from next_block [OF r(1) False True, of result] obtain r1 where
      r1: "ReadPhysicalRecord read result r = ReadPhysicalRecord read result r1" "lr_reports r1 = lr_reports r"
      "standing 0 (drop (kBlockSize - off) (take k (pad off @ phys t d))) r1" by blast
    have S: "drop (kBlockSize - off) (take k (pad off @ phys t d)) = take (k - (kBlockSize - off)) (phys t d)"
      using True by (simp only: drop_take) (simp add: pad_def)
    have k: "k - (kBlockSize - off) < kHeaderSize + length d"
      using r(2) True by (simp add: pad_def)
    have "kHeaderSize + length d \<le> kBlockSize" using f True by (simp add: good_fragment_def next_off_def place_def)
    then have "lr_eof r1" using r1(3) k unfolding S by (intro ccontr [of "lr_eof r1"]) (simp add: standing_def)
    from read_cut_here [OF r1(3) this S k f, of result] show thesis using that r1 by auto
  qed
next
  case False
  then have r': "standing off (take k (phys t d)) r" "k < kHeaderSize + length d" "off + kHeaderSize + length d \<le> kBlockSize"
    using r f by (simp_all add: pad_def good_fragment_def next_off_def place_def)
  then have "lr_eof r" by (intro ccontr [of "lr_eof r"]) (simp add: standing_def, linarith)
  from read_cut_here [OF r'(1) this refl r'(2) f, of result] show thesis using that by blast
qed

text \<open>The fragments of a record are put together.\<close>

lemma read_loop_record:
  assumes "standing off (layout off fs @ S) r" "off \<le> kBlockSize" "fits off fs" "assembles first data fs" "first \<longrightarrow> scratch = []"
  shows "\<exists>r'. read_loop read (\<not> first) scratch prospective fragment r = Some (Some (scratch @ data), r') \<and>
    standing (end_off off fs) S r' \<and> lr_reports r' = lr_reports r"
  using assms
proof (induction fs arbitrary: off first data scratch prospective fragment r)
  case (Cons td fs)
  obtain t d where td: "td = (t, d)" by (cases td)
  have f: "good_fragment off t d" "fits (next_off off d) fs" using Cons.prems(3) td by simp_all
  have "standing off (pad off @ phys t d @ (layout (next_off off d) fs @ S)) r" using Cons.prems(1) td by simp
  from read_fragment [OF this Cons.prems(2) f(1), of fragment] obtain r1 where
    r1: "ReadPhysicalRecord read fragment r = ((t, d), r1)" "standing (next_off off d) (layout (next_off off d) fs @ S) r1"
    "lr_reports r1 = lr_reports r" by blast
  have n: "next_off off d \<le> kBlockSize" using f(1) by (simp add: good_fragment_def)
  have s: "\<not> lr_resyncing r1" using r1(2) by (simp add: standing_def)
  show ?case
  proof (cases "fs = []")
    case True
    then have t: "t = fragment_type first True" "d = data" using Cons.prems(4) td by simp_all
    then have "\<exists>off'. read_loop read (\<not> first) scratch prospective fragment r =
        Some (Some (scratch @ data), r1\<lparr>lr_last_record_offset := off'\<rparr>)"
      using Cons.prems(5) by (auto simp: read_loop_step [OF r1(1) s] fragment_type_def take_fragment_def record_types Let_def)
    then show ?thesis using r1(2,3) True td by (auto simp: standing_def)
  next
    case False
    then obtain rest where t: "t = fragment_type first False" "data = d @ rest" "assembles False rest fs" using Cons.prems(4) td by auto
    have "\<exists>p'. read_loop read (\<not> first) scratch prospective fragment r = read_loop read True (scratch @ d) p' d r1"
      using Cons.prems(5) t(1) by (auto simp: read_loop_step [OF r1(1) s] fragment_type_def take_fragment_def record_types Let_def)
    then obtain p' where "read_loop read (\<not> first) scratch prospective fragment r = read_loop read True (scratch @ d) p' d r1" ..
    moreover from Cons.IH [OF r1(2) n f(2) t(3), of "scratch @ d" p' d] obtain r' where
      "read_loop read True (scratch @ d) p' d r1 = Some (Some ((scratch @ d) @ rest), r')" "standing (end_off (next_off off d) fs) S r'"
      "lr_reports r' = lr_reports r1" by auto
    ultimately show ?thesis using t(2) r1(3) td by auto
  qed
qed simp

lemma read_loop_cut:
  assumes "standing off (take k (layout off fs)) r" "k < length (layout off fs)" "off \<le> kBlockSize" "fits off fs"
    "assembles first data fs" "first \<longrightarrow> scratch = []"
  shows "\<exists>r'. read_loop read (\<not> first) scratch prospective fragment r = Some (None, r') \<and> lr_reports r' = lr_reports r"
  using assms
proof (induction fs arbitrary: off k first data scratch prospective fragment r)
  case (Cons td fs)
  obtain t d where td: "td = (t, d)" by (cases td)
  have f: "good_fragment off t d" "fits (next_off off d) fs" using Cons.prems(4) td by simp_all
  let ?l = "length (pad off @ phys t d)"
  show ?case
  proof (cases "k < ?l")
    case True
    then have "standing off (take k (pad off @ phys t d)) r" using Cons.prems(1) td by simp
    from read_cut [OF this True Cons.prems(3) f(1), of fragment] obtain r1 where
      r1: "ReadPhysicalRecord read fragment r = ((kEof, fragment), r1)" "lr_reports r1 = lr_reports r" "\<not> lr_resyncing r1" by blast
    then have "read_loop read (\<not> first) scratch prospective fragment r = Some (None, r1)"
      by (simp add: read_loop_step [OF r1(1,3)] take_fragment_def record_types Let_def)
    then show ?thesis using r1(2) by blast
  next
    case False
    let ?k = "k - ?l"
    have "take k (layout off (td # fs)) = pad off @ phys t d @ take ?k (layout (next_off off d) fs)"
      using False td by simp
    then have "standing off (pad off @ phys t d @ take ?k (layout (next_off off d) fs)) r" using Cons.prems(1) by metis
    from read_fragment [OF this Cons.prems(3) f(1), of fragment] obtain r1 where
      r1: "ReadPhysicalRecord read fragment r = ((t, d), r1)" "standing (next_off off d) (take ?k (layout (next_off off d) fs)) r1"
      "lr_reports r1 = lr_reports r" by blast
    have k: "?k < length (layout (next_off off d) fs)" using Cons.prems(2) False td by simp
    then have "fs \<noteq> []" by auto
    then obtain rest where t: "t = fragment_type first False" "assembles False rest fs" using Cons.prems(5) td by auto
    have n: "next_off off d \<le> kBlockSize" using f(1) by (simp add: good_fragment_def)
    have s: "\<not> lr_resyncing r1" using r1(2) by (simp add: standing_def)
    have "\<exists>p'. read_loop read (\<not> first) scratch prospective fragment r = read_loop read True (scratch @ d) p' d r1"
      using Cons.prems(6) t(1) by (auto simp: read_loop_step [OF r1(1) s] fragment_type_def take_fragment_def record_types Let_def)
    then show ?thesis using Cons.IH [OF r1(2) k n f(2) t(2)] r1(3) by fastforce
  qed
qed simp

end

section \<open>Whole logs\<close>

text \<open>Writing records in sequence until a write fails, and reading until the end as \<open>DBImpl::RecoverLogFile\<close> does.\<close>

fun write_log :: "'f appender \<Rightarrow> 'f flusher \<Rightarrow> bytes list \<Rightarrow> 'f log_writer \<Rightarrow> ldb_status \<times> 'f log_writer" where
  "write_log fappend fflush [] w = (StatusOK, w)"
| "write_log fappend fflush (d # ds) w =
     (case AddRecord fappend fflush d w of (s, w') \<Rightarrow> if s = StatusOK then write_log fappend fflush ds w' else (s, w'))"

partial_function (option) read_log ::
  "'g reader_fun \<Rightarrow> (nat \<Rightarrow> 'g \<Rightarrow> ldb_status \<times> 'g) \<Rightarrow> 'g log_reader \<Rightarrow> (bytes list \<times> 'g log_reader) option" where
  "read_log read skip r =
     Option.bind (ReadRecord read skip r) (\<lambda>(result, r1). case result of
         None \<Rightarrow> Some ([], r1)
       | Some d \<Rightarrow> Option.bind (read_log read skip r1) (\<lambda>(ds, r2). Some (d # ds, r2)))"

lemma layout_start: "layout kBlockSize fs = layout 0 fs" "fits kBlockSize fs = fits 0 fs"
  by (cases fs; auto simp: pad_def place_def next_off_def good_fragment_def kHeaderSize_def kBlockSize_def)+

context appendable
begin

lemma write_log_layout:
  assumes "valid (lw_dest w)" "lw_block_offset w \<le> kBlockSize"
  shows "\<exists>fss. list_all2 (assembles True) ds fss \<and> fits (lw_block_offset w) (concat fss) \<and>
    (\<forall>j \<le> length ds. \<exists>w'. write_log append flush (take j ds) w = (StatusOK, w') \<and> valid (lw_dest w') \<and>
       holds (lw_dest w') = holds (lw_dest w) @ layout (lw_block_offset w) (concat (take j fss)))"
  using assms
proof (induction ds arbitrary: w)
  case Nil
  then show ?case by (intro exI [of _ "[]"]) simp
next
  case (Cons d ds)
  obtain w1 fs where w1: "AddRecord append flush d w = (StatusOK, w1)" "valid (lw_dest w1)"
    "holds (lw_dest w1) = holds (lw_dest w) @ layout (lw_block_offset w) fs" "lw_block_offset w1 = end_off (lw_block_offset w) fs"
    "fits (lw_block_offset w) fs" "assembles True d fs"
    using AddRecord_layout [OF Cons.prems] by blast
  have "lw_block_offset w1 \<le> kBlockSize" using end_off_bound [OF Cons.prems(2) w1(5)] w1(4) by simp
  from Cons.IH [OF w1(2) this] obtain fss where fss: "list_all2 (assembles True) ds fss" "fits (lw_block_offset w1) (concat fss)"
    "\<And>j. j \<le> length ds \<Longrightarrow> \<exists>w'. write_log append flush (take j ds) w1 = (StatusOK, w') \<and> valid (lw_dest w') \<and>
       holds (lw_dest w') = holds (lw_dest w1) @ layout (lw_block_offset w1) (concat (take j fss))" by auto
  have "\<exists>w'. write_log append flush (take j (d # ds)) w = (StatusOK, w') \<and> valid (lw_dest w') \<and>
      holds (lw_dest w') = holds (lw_dest w) @ layout (lw_block_offset w) (concat (take j (fs # fss)))" if "j \<le> length (d # ds)" for j
  proof (cases j)
    case 0
    then show ?thesis using Cons.prems by simp
  next
    case (Suc i)
    then show ?thesis using fss(3) [of i] that w1(1,3,4) by (auto simp: layout_append)
  qed
  then show ?case
    using fss(1,2) w1(4-6) by (intro exI [of _ "fs # fss"]) (simp add: fits_append)
qed

end

context readable
begin

lemma read_log_layout:
  assumes "list_all2 (assembles True) ds fss" "fits off (concat fss)" "off \<le> kBlockSize"
    "standing off (take n (layout off (concat fss))) r" "n \<le> length (layout off (concat fss))"
  shows "\<exists>k r'. read_log read skip r = Some (take k ds, r') \<and> lr_reports r' = lr_reports r \<and> k \<le> length ds \<and>
    (\<forall>j \<le> length ds. length (layout off (concat (take j fss))) \<le> n \<longrightarrow> j \<le> k)"
  using assms
proof (induction arbitrary: off n r rule: list_all2_induct)
  case Nil
  let ?f = "[(kFullType, [])] :: fragment list"
  have f: "fits off ?f" "assembles True [] ?f" "0 < length (layout off ?f)"
    using place_room [of off] by (simp_all add: good_fragment_def next_off_def fragment_type_def kHeaderSize_def)
  have "standing off (take 0 (layout off ?f)) r" using Nil by simp
  from read_loop_cut [OF this f(3) Nil(2) f(1,2)] obtain r' where
    r': "read_loop read False [] 0 [] r = Some (None, r')" "lr_reports r' = lr_reports r" by force
  have "ReadRecord read skip r = Some (None, r')" using r'(1) Nil(3) by (simp add: ReadRecord_def standing_def)
  then have "read_log read skip r = Some ([], r')" by (subst read_log.simps) simp
  then show ?case using r'(2) by auto
next
  case (Cons d ds fs fss)
  have fits: "fits off fs" "fits (end_off off fs) (concat fss)" using Cons.prems(1) by (simp_all add: fits_append)
  have first: "\<not> lr_last_record_offset r < lr_initial_offset r" using Cons.prems(3) by (simp add: standing_def)
  let ?l = "length (layout off fs)"
  show ?case
  proof (cases "n < ?l")
    case True
    then have "standing off (take n (layout off fs)) r" using Cons.prems(3) by (simp add: layout_append)
    from read_loop_cut [OF this True Cons.prems(2) fits(1) Cons.hyps(1)] obtain r' where
      r': "read_loop read False [] 0 [] r = Some (None, r')" "lr_reports r' = lr_reports r" by force
    then have "ReadRecord read skip r = Some (None, r')" using first by (simp add: ReadRecord_def)
    then have "read_log read skip r = Some (take 0 (d # ds), r')" by (subst read_log.simps) simp
    moreover have "j \<le> 0" if "length (layout off (concat (take j (fs # fss)))) \<le> n" for j
      using that True by (cases j) (auto simp: layout_append)
    ultimately show ?thesis using r'(2) by blast
  next
    case False
    let ?o = "end_off off fs"
    have "take n (layout off (concat (fs # fss))) = layout off fs @ take (n - ?l) (layout ?o (concat fss))"
      using False by (simp add: layout_append)
    then have "standing off (layout off fs @ take (n - ?l) (layout ?o (concat fss))) r" using Cons.prems(3) by metis
    from read_loop_record [OF this Cons.prems(2) fits(1) Cons.hyps(1), of "[]" 0 "[]"] obtain r1 where
      r1: "read_loop read False [] 0 [] r = Some (Some d, r1)" "standing ?o (take (n - ?l) (layout ?o (concat fss))) r1"
      "lr_reports r1 = lr_reports r" by auto
    have o: "?o \<le> kBlockSize" by (rule end_off_bound [OF Cons.prems(2) fits(1)])
    have n: "n - ?l \<le> length (layout ?o (concat fss))" using Cons.prems(4) by (simp add: layout_append)
    from Cons.IH [OF fits(2) o r1(2) n] obtain k r2 where
      r2: "read_log read skip r1 = Some (take k ds, r2)" "lr_reports r2 = lr_reports r1" "k \<le> length ds"
      "\<forall>j \<le> length ds. length (layout ?o (concat (take j fss))) \<le> n - ?l \<longrightarrow> j \<le> k" by blast
    have "ReadRecord read skip r = Some (Some d, r1)" using first r1(1) by (simp add: ReadRecord_def)
    then have "read_log read skip r = Some (take (Suc k) (d # ds), r2)" using r2(1) by (subst read_log.simps) simp
    moreover have "j \<le> Suc k" if "j \<le> length (d # ds)" "length (layout off (concat (take j (fs # fss)))) \<le> n" for j
      using that r2(4) by (cases j) (auto simp: layout_append)
    ultimately show ?thesis using r2(2,3) r1(3) by (intro exI [of _ "Suc k"] exI [of _ r2]) auto
  qed
qed

end

section \<open>Logs on files\<close>

definition log_file :: "bytes list \<Rightarrow> file_state" where
  "log_file ds = lw_dest (snd (write_log (wf_Append fresh_block) wf_Flush ds (new_writer empty_file 0)))"

lemma log_file_layout:
  obtains fss where "list_all2 (assembles True) ds fss" "fits 0 (concat fss)"
    "\<And>j. j \<le> length ds \<Longrightarrow> fst (write_log (wf_Append fresh_block) wf_Flush (take j ds) (new_writer empty_file 0)) = StatusOK \<and>
       fs_inv (log_file (take j ds)) \<and> contents (log_file (take j ds)) = layout 0 (concat (take j fss))"
proof -
  let ?w = "new_writer empty_file 0"
  have "fs_inv (lw_dest ?w)" "lw_block_offset ?w \<le> kBlockSize" by (simp_all add: new_writer_def)
  from memfile.write_log_layout [OF this, of ds] obtain fss where
    "list_all2 (assembles True) ds fss" "fits 0 (concat fss)"
    "\<forall>j \<le> length ds. \<exists>w'. write_log (wf_Append fresh_block) wf_Flush (take j ds) ?w = (StatusOK, w') \<and> fs_inv (lw_dest w') \<and>
       contents (lw_dest w') = contents (lw_dest ?w) @ layout 0 (concat (take j fss))"
    by (auto simp: new_writer_def)
  then show thesis by (intro that [of fss]) (fastforce simp: log_file_def new_writer_def)+
qed

text \<open>C10. The log survives a crash. Records are added to an empty log on an in-memory file; all writes succeed. When the log is
  read back from a file that holds only the first \<open>n\<close> bytes, wherever the cut is, the reader verifies every
  checksum, returns without reporting a corruption, and gives back the first \<open>k\<close> records in their order, unchanged,
  among them every record whose last byte is before the cut.\<close>

theorem log_survives_crash:
  assumes "j \<le> length ds" and "length (contents (log_file (take j ds))) \<le> n" and "n \<le> length (contents (log_file ds))"
    and "seq_inv s" and "seq_unread s = take n (contents (log_file ds))"
  shows "fst (write_log (wf_Append fresh_block) wf_Flush ds (new_writer empty_file 0)) = StatusOK \<and>
    (\<exists>k r. j \<le> k \<and> k \<le> length ds \<and> read_log sf_Read sf_Skip (new_reader s True 0) = Some (take k ds, r) \<and> lr_reports r = [])"
proof -
  obtain fss where fss: "list_all2 (assembles True) ds fss" "fits 0 (concat fss)"
    "\<And>j. j \<le> length ds \<Longrightarrow> fst (write_log (wf_Append fresh_block) wf_Flush (take j ds) (new_writer empty_file 0)) = StatusOK \<and>
       fs_inv (log_file (take j ds)) \<and> contents (log_file (take j ds)) = layout 0 (concat (take j fss))"
    using log_file_layout [of ds] by blast
  have all: "contents (log_file ds) = layout 0 (concat fss)"
    using fss(3) [of "length ds"] list_all2_lengthD [OF fss(1)] by simp
  have "memseq.standing kBlockSize (take n (layout kBlockSize (concat fss))) (new_reader s True 0)"
    using assms(4,5) by (simp add: memseq.standing_def new_reader_def all layout_start)
  from memseq.read_log_layout [OF fss(1) _ _ this, of sf_Skip] fss(2) assms(3)
  obtain k r where k: "read_log sf_Read sf_Skip (new_reader s True 0) = Some (take k ds, r)" "lr_reports r = []" "k \<le> length ds"
    "\<forall>j \<le> length ds. length (layout 0 (concat (take j fss))) \<le> n \<longrightarrow> j \<le> k"
    by (auto simp: layout_start all new_reader_def)
  then have "j \<le> k" using assms(1,2) fss(3) [of j] by simp
  then show ?thesis using k fss(3) [of "length ds"] by auto
qed

lemma log_file_prefix:
  assumes "j \<le> length ds"
  shows "fs_inv (log_file (take j ds)) \<and>
    contents (log_file (take j ds)) = take (length (contents (log_file (take j ds)))) (contents (log_file ds))"
proof -
  obtain fss where fss: "list_all2 (assembles True) ds fss"
    "\<And>j. j \<le> length ds \<Longrightarrow> fs_inv (log_file (take j ds)) \<and> contents (log_file (take j ds)) = layout 0 (concat (take j fss))"
    using log_file_layout [of ds] by metis
  have "contents (log_file ds) = layout 0 (concat (take j fss) @ concat (drop j fss))"
    using fss(2) [of "length ds"] list_all2_lengthD [OF fss(1)] by (simp add: concat_append [symmetric] del: concat_append)
  then show ?thesis using fss(2) [OF assms] by (simp add: layout_append)
qed

theorem log_survives_crash_witness:
  "\<exists>k r. 1 \<le> k \<and> read_log sf_Read sf_Skip (new_reader \<lparr>sf_file = log_file [[1, 2]], sf_pos = 0\<rparr> True 0) =
     Some (take k [[1, 2], [3]], r) \<and> lr_reports r = []"
proof -
  let ?ds = "[[1, 2], [3]] :: bytes list"
  have "log_file (take 1 ?ds) = log_file [[1, 2]]" by simp
  with log_file_prefix [of 1 ?ds] have p: "fs_inv (log_file [[1, 2]])"
    "contents (log_file [[1, 2]]) = take (length (contents (log_file [[1, 2]]))) (contents (log_file ?ds))" by (simp_all del: length_contents)
  then have n: "length (contents (log_file [[1, 2]])) \<le> length (contents (log_file ?ds))" by (metis length_take min.cobounded1)
  let ?s = "\<lparr>sf_file = log_file [[1, 2]], sf_pos = 0\<rparr>"
  have "seq_inv ?s" "seq_unread ?s = take (length (contents (log_file [[1, 2]]))) (contents (log_file ?ds))"
    using p by (simp_all add: seq_inv_def seq_unread_def del: length_contents)
  from log_survives_crash [OF _ _ n this, of 1] show ?thesis by auto
qed

end
