(* ===== verification/Spec2Isabelle.thy ===== *)
theory Spec2Isabelle
  imports Votes Commit ObjectCodecs Schedule FixedHash TrieSpec RollbackState ChainMessages Finality NodeInvariant Liveness LogRecovery
begin

text \<open>
  A verification library for the GSE network node, a delegated proof-of-stake block chain.

  \<^bold>\<open>The program.\<close> Clients and peers hand transactions and blocks to the chain (\<open>chain/BlockChain\<close>). A block is checked for its
  producer and signature, entered into the tree of blocks that are not yet final (\<open>chain/RollbackState\<close>), and executed on a
  repository (\<open>runtime/storage/Repository\<close>), a write cache over the repository of the previous block and, at the
  bottom, over the database (\<open>database/DatabaseController\<close>). Producers confirm blocks; a block with enough confirmations is final
  and its repository is written to the database. Producers are elected by votes that the accounts cast and take turns in
  slots of two seconds (\<open>producer/Schedule\<close>, \<open>producer/ProducerServer\<close>). Objects are stored and sent in the RLP format (\<open>core/RLP\<close>) and
  identified by Keccak hashes (\<open>crypto/SHAx.cpp\<close>).

  \<^bold>\<open>Foundations.\<close> \<open>Prelude\<close> has the machine types, the exception monad of the stateful operations and the locale of simulations.
  \<open>Containers\<close> models \<open>std::map\<close>, \<open>Queue\<close> and \<open>FixedQueue\<close> behind the locale of ordered maps. \<open>Objects\<close> has the records of
  \<open>core/\<close> with their comparison and update members and the constants of \<open>config/Constant.h\<close>. A throwing member function is a
  function from the state to the outcome and the state afterwards, because a throw does not undo earlier writes.

  \<^bold>\<open>Bytes and codecs.\<close> \<open>Bytes\<close> (\<open>core/CommonData\<close>), \<open>FixedHash\<close> (\<open>core/FixedHash.h\<close>), \<open>RLP\<close> and \<open>RLPStream\<close> (\<open>core/RLP\<close>),
  \<open>CodecBase\<close>, \<open>Codecs\<close>, \<open>BlockCodecs\<close> and \<open>StatusCodec\<close> (\<open>streamRLP\<close> and the decoding constructors of every object). \<open>RLPItems\<close>
  shows that the reader with its mutable cache returns the items of the payload, \<open>RLPRoundTrip\<close> that it inverts the
  writer, \<open>ObjectCodecs\<close> which objects survive being written and read and which do not; \<open>Sizes\<close> discharges the size bound of these
  theorems for objects of realistic size. \<open>Keccak\<close> shows the in-place loops to be the maps of the Keccak standard. \<open>Signatures\<close>
  models signing and recovery around the curve library, whose functions are a parameter with their algebraic laws. \<open>Trie\<close> and
  \<open>TrieSpec\<close> (\<open>trie/\<close>) show that the trie builder streams the encoding of a trie whose lookup is the given map, and that
  \<open>merkle\<close> computes the root of the balanced tree.

  \<^bold>\<open>Ledger.\<close> \<open>Database\<close> models the stores as maps of encoded objects, \<open>Genesis\<close> their first and later start, \<open>Repository\<close> the
  chain of caches and \<open>Actions\<close> the execution of transactions. \<open>LayerCache\<close>, \<open>Ledger\<close> and \<open>LedgerOps\<close> refine them to one
  ledger of accounts and producers, whatever the number of layers and whatever was cached before. \<open>Balances\<close>, \<open>Supply\<close> and
  \<open>Votes\<close> prove the effect of transfers, the conservation of the total balance and the bookkeeping of votes; \<open>Commit\<close> and
  \<open>ParentViews\<close> what committing and dropping a repository does.

  \<^bold>\<open>Chain.\<close> \<open>Schedule\<close>, \<open>BlockState\<close> and \<open>RollbackState\<close> model the producer lists, the confirmations and the tree of blocks;
  \<open>Chain\<close> the execution, fork choice and finalisation of blocks; \<open>ChainMessages\<close> the handlers of messages, the synchronisation and the
  production of blocks. \<open>ChainExec\<close>, \<open>ChainLedger\<close> and \<open>ChainSafety\<close> show the outcome of a block, executed or undone, and that no
  producer gets two blocks in a slot; \<open>Finality\<close> that making blocks final does not change what the chain shows;
  \<open>Liveness\<close> that a scheduled producer gets a turn in every round; \<open>NodeInvariant\<close> that every entry point, in any order, keeps the
  state of the node well-formed.

  \<^bold>\<open>LevelDB.\<close> \<open>Coding\<close> has the number and string formats of the storage engine, \<open>Crc32c\<close> and \<open>Checksums\<close> its table-driven checksum,
  shown to be the bitwise one.

  \<^bold>\<open>Bounds.\<close> Machine integers are words of their width, so balances, votes and block numbers wrap where the code wraps. Time stamps
  are unbounded integers; the theorems about slots ask for times after the genesis time, where signed and Euclidean division
  agree. The codec theorems bound the encoded size by the constant \<open>rlp_max\<close>, below which no length field
  overflows. Loops over parent links that may not end are partial functions into \<open>option\<close>; \<open>RollbackState\<close> proves that those
  of \<open>remove\<close> and \<open>rollbackTo\<close> return. The only fuel is the eight shifts of a byte in \<open>FixedHash\<close> and the nesting depth
  of a structure read back in \<open>RLPRoundTrip\<close>.

  \<^bold>\<open>Not modelled.\<close> The engine of LevelDB above its formats (logs, tables, compaction) is used as a map of keys to values. The
  network transport, the RPC servers, threads, locks, logging and observers are input and output around the modelled
  handlers; the operations run one after the other, as the locks of the chain enforce. The virtual machine, the contract
  permissions and the sub-chains are not reached by any transaction type. The secp256k1 and JSON libraries are external: the
  first is a parameter with stated laws, the second is left out with the parsing of the genesis text.
\<close>

end
